(* ===== verification/HTM_Prelude.thy ===== *)
theory HTM_Prelude
  imports Main "HOL-Library.Word"
begin

text \<open>
  Shared vocabulary of the development: the outcome of a simulator operation (a value, or the
  assertion, panic or undefined behaviour it runs into), the model of \<^verbatim>\<open>std::map\<close> as a sorted
  association list, and the interface of ordered maps that the components rely on.
\<close>

named_theorems res_simps "rewriting of operation outcomes"
named_theorems smap_simps "rewriting of ordered maps"

section \<open>Outcomes of operations\<close>

text \<open>
  A C++ \<^verbatim>\<open>assert\<close> that fails and a gem5 \<^verbatim>\<open>panic\<close> both end the simulation.
  Each is a value of type \<open>fault\<close>, tagged with the source file and the line it stands on, and
  so is the use of an invalidated iterator or of a null pointer, which C++ leaves undefined.
\<close>

datatype srcfile =
  Addr_cc | Bitfield_hh | DataBlock_cc | DataBlock_hh | WriteMask_hh | CacheMemory_cc | SliccUtil_hh
| MemHtm_cc | MemHtm_hh | RubyHtm_cc | TISM_cc | TCM_cc | TCM_hh | LVM_cc | EVM_cc | EVM_hh | LCA_cc
| XIC_cc | XVC_cc | TIM_cc | TIM_hh | LogTM_h | TSeq_cc | TSeq_hh | Seq_cc | Packet_cc
| LRU_cc | MRU_cc | FIFO_cc | LFU_cc | WLRU_cc | SecondChance_cc | TreePLRU_cc | Random_cc | BRRIP_cc

datatype fault =
  AssertFail srcfile nat
| PanicAt srcfile nat
| UndefinedAt srcfile nat

type_synonym 'a res = "fault + 'a"

definition rbind :: "'a res \<Rightarrow> ('a \<Rightarrow> 'b res) \<Rightarrow> 'b res" where
  "rbind r f = (case r of Inl e \<Rightarrow> Inl e | Inr x \<Rightarrow> f x)"

definition asrt :: "srcfile \<Rightarrow> nat \<Rightarrow> bool \<Rightarrow> 'a res \<Rightarrow> 'a res" where
  "asrt file line P k = (if P then k else Inl (AssertFail file line))"

lemma rbind_Inl [simp, res_simps]: "rbind (Inl e) f = Inl e"
  by (simp add: rbind_def)

lemma rbind_Inr [simp, res_simps]: "rbind (Inr x) f = f x"
  by (simp add: rbind_def)

lemma rbind_eq_Inr [res_simps]: "rbind r f = Inr y \<longleftrightarrow> (\<exists>x. r = Inr x \<and> f x = Inr y)"
  by (cases r) auto

lemma rbind_pair_eq_Inr:
  "rbind r (\<lambda>(a, b). f a b) = Inr y \<longleftrightarrow> (\<exists>a b. r = Inr (a, b) \<and> f a b = Inr y)"
  by (cases r) auto

lemma rbind_eq_Inl [res_simps]:
  "rbind r f = Inl e \<longleftrightarrow> r = Inl e \<or> (\<exists>x. r = Inr x \<and> f x = Inl e)"
  by (cases r) auto

lemma asrt_True [simp, res_simps]: "asrt file line True k = k"
  by (simp add: asrt_def)

lemma asrt_False [simp, res_simps]: "asrt file line False k = Inl (AssertFail file line)"
  by (simp add: asrt_def)

lemma asrt_eq_Inr [res_simps]: "asrt file line P k = Inr y \<longleftrightarrow> P \<and> k = Inr y"
  by (simp add: asrt_def)

lemma asrt_eq_Inl [res_simps]:
  "asrt file line P k = Inl e \<longleftrightarrow> (\<not> P \<and> e = AssertFail file line) \<or> (P \<and> k = Inl e)"
  by (auto simp: asrt_def)

lemma asrt_run: "P \<Longrightarrow> k = r \<Longrightarrow> asrt file line P k = r"
  by simp

lemma rbind_cong [fundef_cong]:
  "r = r' \<Longrightarrow> (\<And>x. r' = Inr x \<Longrightarrow> f x = f' x) \<Longrightarrow> rbind r f = rbind r' f'"
  by (cases r') auto

lemma asrt_cong [fundef_cong]:
  "P = P' \<Longrightarrow> (P' \<Longrightarrow> k = k') \<Longrightarrow> asrt file line P k = asrt file line P' k'"
  by (simp add: asrt_def)

text \<open>A \<^verbatim>\<open>for\<close> loop whose body may fail.\<close>

fun rfold :: "('a \<Rightarrow> 's \<Rightarrow> 's res) \<Rightarrow> 'a list \<Rightarrow> 's \<Rightarrow> 's res" where
  "rfold f [] s = Inr s"
| "rfold f (x # xs) s = rbind (f x s) (rfold f xs)"

lemma rfold_append [simp]: "rfold f (xs @ ys) s = rbind (rfold f xs s) (rfold f ys)"
proof (induction xs arbitrary: s)
  case (Cons x xs)
  then show ?case by (cases "f x s") auto
qed simp

lemma rfold_invariant:
  assumes "rfold f xs s = Inr s'"
    and "\<And>x t t'. x \<in> set xs \<Longrightarrow> P t \<Longrightarrow> f x t = Inr t' \<Longrightarrow> P t'"
    and "P s"
  shows "P s'"
  using assms
proof (induction xs arbitrary: s)
  case (Cons x xs)
  then obtain t where "f x s = Inr t" and "rfold f xs t = Inr s'"
    by (auto simp: res_simps)
  with Cons show ?case by (metis list.set_intros)
qed simp

lemma rfold_total:
  assumes "\<And>x t. x \<in> set xs \<Longrightarrow> f x t = Inr (g x t)"
  shows "rfold f xs s = Inr (fold g xs s)"
  using assms by (induction xs arbitrary: s) auto

text \<open>
  \<^verbatim>\<open>v[i]\<close> on a \<^verbatim>\<open>std::vector\<close>, read and written; an index outside the vector is undefined.
\<close>

definition vread :: "srcfile \<Rightarrow> nat \<Rightarrow> 'a list \<Rightarrow> nat \<Rightarrow> ('a \<Rightarrow> 'b res) \<Rightarrow> 'b res" where
  "vread file line v i k = (if i < length v then k (v ! i) else Inl (UndefinedAt file line))"

lemma vread_eq_Inr [res_simps]: "vread file line v i k = Inr y \<longleftrightarrow> i < length v \<and> k (v ! i) = Inr y"
  by (simp add: vread_def)

lemma vread_in [simp]: "i < length v \<Longrightarrow> vread file line v i k = k (v ! i)"
  by (simp add: vread_def)

section \<open>Ordered maps\<close>

text \<open>
  \<^verbatim>\<open>std::map\<close> keeps its entries sorted by key and iterates in that order; an association list
  sorted by key is exactly what a traversal sees. \<open>smap_insert\<close> is \<^verbatim>\<open>insert\<close> (an existing
  entry stays), \<open>smap_assign\<close> is \<^verbatim>\<open>m[k] = v\<close>, \<open>smap_erase\<close> is \<^verbatim>\<open>erase(k)\<close> and
  \<open>smap_next\<close> is the key an iterator at \<open>k\<close> moves to.
\<close>

type_synonym ('k, 'v) smap = "('k \<times> 'v) list"

definition smap_ok :: "('k::linorder, 'v) smap \<Rightarrow> bool" where
  "smap_ok m \<longleftrightarrow> sorted (map fst m) \<and> distinct (map fst m)"

definition smap_find :: "('k, 'v) smap \<Rightarrow> 'k \<Rightarrow> 'v option" where
  "smap_find m k = map_of m k"

fun smap_assign :: "('k::linorder) \<Rightarrow> 'v \<Rightarrow> ('k, 'v) smap \<Rightarrow> ('k, 'v) smap" where
  "smap_assign k v [] = [(k, v)]"
| "smap_assign k v ((a, b) # m) =
     (if k < a then (k, v) # (a, b) # m
      else if k = a then (k, v) # m
      else (a, b) # smap_assign k v m)"

definition smap_insert :: "('k::linorder) \<Rightarrow> 'v \<Rightarrow> ('k, 'v) smap \<Rightarrow> ('k, 'v) smap" where
  "smap_insert k v m = (if smap_find m k = None then smap_assign k v m else m)"

definition smap_erase :: "'k \<Rightarrow> ('k, 'v) smap \<Rightarrow> ('k, 'v) smap" where
  "smap_erase k m = filter (\<lambda>e. fst e \<noteq> k) m"

definition smap_keys :: "('k, 'v) smap \<Rightarrow> 'k list" where
  "smap_keys m = map fst m"

definition smap_next :: "('k::linorder, 'v) smap \<Rightarrow> 'k \<Rightarrow> 'k option" where
  "smap_next m k = (case filter (\<lambda>a. k < a) (smap_keys m) of [] \<Rightarrow> None | a # _ \<Rightarrow> Some a)"

lemma smap_find_Nil [simp, smap_simps]: "smap_find [] k = None"
  by (simp add: smap_find_def)

lemma smap_find_Cons [simp, smap_simps]:
  "smap_find ((a, b) # m) k = (if k = a then Some b else smap_find m k)"
  by (simp add: smap_find_def)

lemma smap_find_assign [simp, smap_simps]:
  "smap_find (smap_assign k v m) x = (if x = k then Some v else smap_find m x)"
  by (induction k v m rule: smap_assign.induct) auto

lemma smap_find_insert [simp, smap_simps]:
  "smap_find (smap_insert k v m) x =
     (if x = k \<and> smap_find m k = None then Some v else smap_find m x)"
  by (auto simp: smap_insert_def)

lemma smap_find_erase [simp, smap_simps]:
  "smap_find (smap_erase k m) x = (if x = k then None else smap_find m x)"
  by (induction m) (auto simp: smap_erase_def)

lemma smap_keys_find [smap_simps]: "set (smap_keys m) = {k. smap_find m k \<noteq> None}"
  by (auto simp: smap_keys_def smap_find_def map_of_eq_None_iff)

lemma smap_find_None_iff: "smap_find m k = None \<longleftrightarrow> k \<notin> set (smap_keys m)"
  by (auto simp: smap_keys_find)

lemma smap_ok_Nil [simp]: "smap_ok []"
  by (simp add: smap_ok_def)

lemma smap_ok_Cons [simp]:
  "smap_ok ((a, b) # m) \<longleftrightarrow> smap_ok m \<and> (\<forall>k \<in> set (smap_keys m). a < k)"
  by (auto simp: smap_ok_def smap_keys_def order.strict_iff_order)

lemma smap_keys_assign: "set (smap_keys (smap_assign k v m)) = insert k (set (smap_keys m))"
  by (auto simp: smap_keys_find)

lemma smap_ok_assign [simp, intro]: "smap_ok m \<Longrightarrow> smap_ok (smap_assign k v m)"
proof (induction k v m rule: smap_assign.induct)
  case (1 k v)
  then show ?case by (simp add: smap_keys_def)
next
  case (2 k v a b m)
  have "smap_keys ((a, b) # m) = a # smap_keys m" by (simp add: smap_keys_def)
  with 2 show ?case by (auto simp: smap_keys_assign)
qed

lemma smap_ok_insert [simp, intro]: "smap_ok m \<Longrightarrow> smap_ok (smap_insert k v m)"
  by (simp add: smap_insert_def)

lemma smap_ok_erase [simp, intro]: "smap_ok m \<Longrightarrow> smap_ok (smap_erase k m)"
  by (auto simp: smap_ok_def smap_erase_def distinct_map_filter sorted_filter)

lemma smap_keys_distinct: "smap_ok m \<Longrightarrow> distinct (smap_keys m)"
  by (simp add: smap_ok_def smap_keys_def)

lemma smap_erase_absent: "smap_find m k = None \<Longrightarrow> smap_erase k m = m"
  by (induction m) (auto simp: smap_erase_def split: if_splits)

lemma smap_empty_iff: "m = [] \<longleftrightarrow> (\<forall>k. smap_find m k = None)"
  by (cases m) auto

text \<open>Two ordered maps with the same lookups are the same map.\<close>

lemma smap_ext:
  assumes "smap_ok m" and "smap_ok n" and "\<And>k. smap_find m k = smap_find n k"
  shows "m = n"
  using assms
proof (induction m arbitrary: n)
  case Nil
  then show ?case by (metis smap_empty_iff smap_find_Nil)
next
  case (Cons e m)
  obtain a b where e: "e = (a, b)" by (cases e)
  obtain c d n' where n: "n = (c, d) # n'"
    using Cons.prems(3) [of a] e by (cases n) auto
  have low: "\<And>k. k \<in> set (smap_keys m) \<Longrightarrow> a < k" "\<And>k. k \<in> set (smap_keys n') \<Longrightarrow> c < k"
    using Cons.prems(1,2) e n by auto
  have "c = a"
    using Cons.prems(3) [of a] Cons.prems(3) [of c] low [of a] low [of c] e n
    by (auto simp: smap_keys_find split: if_splits) (metis low less_asym smap_find_None_iff option.distinct(1))
  moreover have "smap_find m k = smap_find n' k" for k
    using Cons.prems(3) [of k] low [of k] e n \<open>c = a\<close>
    by (cases "k = a") (auto simp: smap_keys_find, metis not_None_eq)
  ultimately show ?case
    using Cons.IH [of n'] Cons.prems e n Cons.prems(3) [of a] by simp
qed

subsection \<open>The interface of ordered maps\<close>

text \<open>
  What a component that keeps its state in an ordered map relies on. The lemmas inside are the
  facts the read set, the write set, the write buffer and the checkers use.
\<close>

locale ordered_map =
  fixes empty :: 'm
    and find :: "'m \<Rightarrow> 'k \<Rightarrow> 'v option"
    and assign :: "'k \<Rightarrow> 'v \<Rightarrow> 'm \<Rightarrow> 'm"
    and insert_new :: "'k \<Rightarrow> 'v \<Rightarrow> 'm \<Rightarrow> 'm"
    and erase :: "'k \<Rightarrow> 'm \<Rightarrow> 'm"
    and keys :: "'m \<Rightarrow> 'k list"
    and ok :: "'m \<Rightarrow> bool"
  assumes find_empty: "find empty k = None"
    and find_assign: "find (assign k v m) x = (if x = k then Some v else find m x)"
    and find_insert: "find (insert_new k v m) x = (if x = k \<and> find m k = None then Some v else find m x)"
    and find_erase: "find (erase k m) x = (if x = k then None else find m x)"
    and keys_find: "set (keys m) = {k. find m k \<noteq> None}"
    and keys_distinct: "ok m \<Longrightarrow> distinct (keys m)"
    and ok_empty: "ok empty"
    and ok_assign: "ok m \<Longrightarrow> ok (assign k v m)"
    and ok_insert: "ok m \<Longrightarrow> ok (insert_new k v m)"
    and ok_erase: "ok m \<Longrightarrow> ok (erase k m)"
    and extensional: "ok m \<Longrightarrow> ok n \<Longrightarrow> (\<And>k. find m k = find n k) \<Longrightarrow> m = n"
begin

lemma keys_assign: "set (keys (assign k v m)) = insert k (set (keys m))"
  by (auto simp: keys_find find_assign)

lemma keys_erase: "set (keys (erase k m)) = set (keys m) - {k}"
  by (auto simp: keys_find find_erase)

lemma insert_present: "ok m \<Longrightarrow> find m k \<noteq> None \<Longrightarrow> insert_new k v m = m"
  by (rule extensional) (auto simp: ok_insert find_insert)

lemma assign_twice: "ok m \<Longrightarrow> assign k v (assign k w m) = assign k v m"
  by (rule extensional) (auto simp: ok_assign find_assign)

lemma assign_commute:
  "ok m \<Longrightarrow> j \<noteq> k \<Longrightarrow> assign j v (assign k w m) = assign k w (assign j v m)"
  by (rule extensional) (auto simp: ok_assign find_assign)

lemma erase_fresh: "ok m \<Longrightarrow> find m k = None \<Longrightarrow> erase k (assign k v m) = m"
  by (rule extensional) (auto simp: ok_assign ok_erase find_assign find_erase)

lemma keys_count: "ok m \<Longrightarrow> length (keys m) = card {k. find m k \<noteq> None}"
  by (metis keys_find keys_distinct distinct_card)

end

interpretation smap: ordered_map "[]" smap_find smap_assign smap_insert smap_erase smap_keys smap_ok
  by unfold_locales (auto simp: smap_keys_find smap_keys_distinct intro: smap_ext)

section \<open>Transition systems that finish\<close>

text \<open>
  A system whose steps keep an invariant and lower a measure, and that can always move until it
  is done. The commit of a write buffer and the unrolling of a log are of this kind.
\<close>

locale finishing_system =
  fixes step :: "'s \<Rightarrow> 's \<Rightarrow> bool"
    and good :: "'s \<Rightarrow> bool"
    and todo :: "'s \<Rightarrow> nat"
    and finished :: "'s \<Rightarrow> bool"
  assumes step_good: "good s \<Longrightarrow> step s t \<Longrightarrow> good t"
    and step_todo: "good s \<Longrightarrow> step s t \<Longrightarrow> todo t < todo s"
    and progress: "good s \<Longrightarrow> \<not> finished s \<Longrightarrow> \<exists>t. step s t"
begin

lemma reach_good: "step\<^sup>*\<^sup>* s t \<Longrightarrow> good s \<Longrightarrow> good t"
  by (induction rule: rtranclp_induct) (auto intro: step_good)

lemma run_bound: "(step ^^ n) s t \<Longrightarrow> good s \<Longrightarrow> n + todo t \<le> todo s"
proof (induction n arbitrary: t)
  case (Suc n)
  then obtain u where u: "(step ^^ n) s u" "step u t" by auto
  then have "good u" using Suc.prems by (meson reach_good relpowp_imp_rtranclp)
  with u Suc step_todo [of u t] show ?case by fastforce
qed simp

lemma reaches_finished: "good s \<Longrightarrow> \<exists>t. step\<^sup>*\<^sup>* s t \<and> finished t"
proof (induction "todo s" arbitrary: s rule: less_induct)
  case less
  show ?case
  proof (cases "finished s")
    case False
    then obtain t where "step s t" using progress less.prems by blast
    with less show ?thesis
      by (meson converse_rtranclp_into_rtranclp step_good step_todo)
  qed auto
qed

end

text \<open>Reachability under an invariant.\<close>

locale invariant_system =
  fixes start :: "'s \<Rightarrow> bool"
    and step :: "'s \<Rightarrow> 's \<Rightarrow> bool"
    and inv :: "'s \<Rightarrow> bool"
  assumes start_inv: "start s \<Longrightarrow> inv s"
    and step_inv: "inv s \<Longrightarrow> step s t \<Longrightarrow> inv t"
begin

lemma run_inv: "step\<^sup>*\<^sup>* s t \<Longrightarrow> inv s \<Longrightarrow> inv t"
  by (induction rule: rtranclp_induct) (auto intro: step_inv)

lemma reachable_inv: "start s \<Longrightarrow> step\<^sup>*\<^sup>* s t \<Longrightarrow> inv t"
  by (blast intro: start_inv run_inv)

end

end
