(* ===== verification/Htm_Policy.thy ===== *)
theory Htm_Policy
  imports HTM_Prelude
begin

text \<open>
  \<^verbatim>\<open>mem/htm.hh\<close> and \<^verbatim>\<open>mem/htm.cc\<close>: the failure causes of a transaction and how they are shown to
  the ISA, the configuration of the HTM system and how its strings are decoded, and the list
  of commit token requests, with the contract that the commit arbiter relies on.
\<close>

section \<open>Failure causes\<close>

datatype AbortCause =
  Conflict | L0Capacity | L1Capacity | L2Capacity | PageFault | Syscall | Interrupt | Explicit
| FallbackLock | ExplicitFallbackLock | WrongL0 | ConflictStale | SpecValidation
| SpecDepthOverflow | SpecMaxCapacityOverflow | SpecWriteInFlight | SpecReadConflict
| IllegalData | Undefined | ConflictPower | NumAbortCauses

datatype HtmFailureFaultCause =
  INVALID | EXPLICIT | NEST | SIZE | EXCEPTION | MEMORY | OTHER | DISABLED | INTERRUPT | LSQ
| SIZE_RSET | SIZE_WSET | SIZE_L1PRIV | SIZE_LLC | SIZE_WRONG_CACHE | EXPLICIT_FALLBACKLOCK
| MEMORY_FALLBACKLOCK | MEMORY_STALEDATA | MEMORY_FALSESHARING | MEMORY_POWER | SPEC_ILLEGAL
| SPEC_VALIDATION | SPEC_MAX_CAPACITY | SPEC_DEPTH | SPEC_WRITE_IN_FLIGHT | SPEC_READ_CONFLICT
| NUM_CAUSES

datatype HtmCacheFailure =
  NO_FAIL | FAIL_SELF | FAIL_REMOTE | FAIL_REMOTE_POWER | FAIL_SPEC | FAIL_OTHER

text \<open>The values of the enumerators, which give the order of the keys in the string tables.\<close>

primrec cause_code :: "HtmFailureFaultCause \<Rightarrow> int" where
  "cause_code INVALID = -1"
| "cause_code EXPLICIT = 0"
| "cause_code NEST = 1"
| "cause_code SIZE = 2"
| "cause_code EXCEPTION = 3"
| "cause_code MEMORY = 4"
| "cause_code OTHER = 5"
| "cause_code DISABLED = 6"
| "cause_code INTERRUPT = 7"
| "cause_code LSQ = 8"
| "cause_code SIZE_RSET = 9"
| "cause_code SIZE_WSET = 10"
| "cause_code SIZE_L1PRIV = 11"
| "cause_code SIZE_LLC = 12"
| "cause_code SIZE_WRONG_CACHE = 13"
| "cause_code EXPLICIT_FALLBACKLOCK = 14"
| "cause_code MEMORY_FALLBACKLOCK = 15"
| "cause_code MEMORY_STALEDATA = 16"
| "cause_code MEMORY_FALSESHARING = 17"
| "cause_code MEMORY_POWER = 18"
| "cause_code SPEC_ILLEGAL = 19"
| "cause_code SPEC_VALIDATION = 20"
| "cause_code SPEC_MAX_CAPACITY = 21"
| "cause_code SPEC_DEPTH = 22"
| "cause_code SPEC_WRITE_IN_FLIGHT = 23"
| "cause_code SPEC_READ_CONFLICT = 24"
| "cause_code NUM_CAUSES = 25"

primrec cache_failure_code :: "HtmCacheFailure \<Rightarrow> nat" where
  "cache_failure_code NO_FAIL = 0"
| "cache_failure_code FAIL_SELF = 1"
| "cache_failure_code FAIL_REMOTE = 2"
| "cache_failure_code FAIL_REMOTE_POWER = 3"
| "cache_failure_code FAIL_SPEC = 4"
| "cache_failure_code FAIL_OTHER = 5"

lemma cause_code_inject: "cause_code a = cause_code b \<Longrightarrow> a = b"
  by (cases a; cases b) simp_all

lemma cache_failure_code_inject: "cache_failure_code a = cache_failure_code b \<Longrightarrow> a = b"
  by (cases a; cases b) simp_all

instantiation HtmFailureFaultCause :: linorder
begin

definition less_eq_HtmFailureFaultCause :: "HtmFailureFaultCause \<Rightarrow> HtmFailureFaultCause \<Rightarrow> bool" where
  "less_eq_HtmFailureFaultCause a b \<longleftrightarrow> cause_code a \<le> cause_code b"

definition less_HtmFailureFaultCause :: "HtmFailureFaultCause \<Rightarrow> HtmFailureFaultCause \<Rightarrow> bool" where
  "less_HtmFailureFaultCause a b \<longleftrightarrow> cause_code a < cause_code b"

instance
  by standard
    (auto simp: less_eq_HtmFailureFaultCause_def less_HtmFailureFaultCause_def
       intro: cause_code_inject)

end

instantiation HtmCacheFailure :: linorder
begin

definition less_eq_HtmCacheFailure :: "HtmCacheFailure \<Rightarrow> HtmCacheFailure \<Rightarrow> bool" where
  "less_eq_HtmCacheFailure a b \<longleftrightarrow> cache_failure_code a \<le> cache_failure_code b"

definition less_HtmCacheFailure :: "HtmCacheFailure \<Rightarrow> HtmCacheFailure \<Rightarrow> bool" where
  "less_HtmCacheFailure a b \<longleftrightarrow> cache_failure_code a < cache_failure_code b"

instance
  by standard
    (auto simp: less_eq_HtmCacheFailure_def less_HtmCacheFailure_def
       intro: cache_failure_code_inject)

end

definition getIsaVisibleHtmFailureCause :: "HtmFailureFaultCause \<Rightarrow> HtmFailureFaultCause res" where
  "getIsaVisibleHtmFailureCause cause =
     (if cause \<in> {EXPLICIT, NEST, SIZE, EXCEPTION, MEMORY, OTHER, DISABLED} then Inr cause
      else if cause = INTERRUPT then Inr OTHER
      else if cause \<in> {LSQ, EXPLICIT_FALLBACKLOCK, MEMORY_FALLBACKLOCK, MEMORY_STALEDATA,
                       MEMORY_FALSESHARING, MEMORY_POWER, SPEC_VALIDATION, SPEC_DEPTH,
                       SPEC_MAX_CAPACITY, SPEC_WRITE_IN_FLIGHT, SPEC_READ_CONFLICT, SPEC_ILLEGAL}
        then Inr MEMORY
      else if cause \<in> {SIZE_RSET, SIZE_WSET, SIZE_L1PRIV, SIZE_LLC} then Inr SIZE
      else if cause = SIZE_WRONG_CACHE then Inr OTHER
      else Inl (PanicAt MemHtm_cc 110))"

primrec AbortCause_to_string :: "AbortCause \<Rightarrow> string res" where
  "AbortCause_to_string Conflict = Inr ''Conflict''"
| "AbortCause_to_string L0Capacity = Inr ''L0Capacity''"
| "AbortCause_to_string L1Capacity = Inr ''L1Capacity''"
| "AbortCause_to_string L2Capacity = Inr ''L2Capacity''"
| "AbortCause_to_string PageFault = Inr ''PageFault''"
| "AbortCause_to_string Syscall = Inr ''Syscall''"
| "AbortCause_to_string Interrupt = Inr ''Interrupt''"
| "AbortCause_to_string Explicit = Inr ''Explicit''"
| "AbortCause_to_string FallbackLock = Inr ''FallbackLock''"
| "AbortCause_to_string ExplicitFallbackLock = Inr ''ExplicitFallbackLock''"
| "AbortCause_to_string WrongL0 = Inr ''WrongL0''"
| "AbortCause_to_string ConflictStale = Inr ''ConflictStale''"
| "AbortCause_to_string ConflictPower = Inr ''ConflictPower''"
| "AbortCause_to_string SpecValidation = Inr ''SpecValidation''"
| "AbortCause_to_string SpecDepthOverflow = Inr ''SpecDepthOverflow''"
| "AbortCause_to_string SpecMaxCapacityOverflow = Inr ''SpecMaxCapacityOverflow''"
| "AbortCause_to_string SpecWriteInFlight = Inr ''SpecWriteInFlight''"
| "AbortCause_to_string SpecReadConflict = Inr ''SpecReadConflict''"
| "AbortCause_to_string IllegalData = Inr ''IllegalData''"
| "AbortCause_to_string Undefined = Inr ''Undefined''"
| "AbortCause_to_string NumAbortCauses = Inl (AssertFail MemHtm_hh 148)"

definition to_stats_xid :: "int \<Rightarrow> int \<Rightarrow> int" where
  "to_stats_xid MaxXidStats xid = (if xid < MaxXidStats then xid else MaxXidStats - 1)"

definition smap_of_list :: "('k::linorder \<times> 'v) list \<Rightarrow> ('k, 'v) smap" where
  "smap_of_list xs = fold (\<lambda>(k, v). smap_insert k v) xs []"

definition cause_to_str :: "(HtmFailureFaultCause, string) smap" where
  "cause_to_str = smap_of_list
     [(EXPLICIT, ''explicit''), (NEST, ''nesting_limit''), (SIZE, ''transaction_size''),
      (EXCEPTION, ''exception''), (INTERRUPT, ''interrupt''), (DISABLED, ''htm_disabled''),
      (MEMORY, ''memory_conflict''), (LSQ, ''lsq_conflict''),
      (SIZE_RSET, ''transaction_size_rset''), (SIZE_WSET, ''transaction_size_wset''),
      (SIZE_LLC, ''transaction_size_llc''), (SIZE_L1PRIV, ''transaction_size_l1priv''),
      (SIZE_WRONG_CACHE, ''transaction_size_wrongcache''),
      (EXPLICIT_FALLBACKLOCK, ''explicit_fallbacklock''),
      (MEMORY_FALLBACKLOCK, ''memory_conflict_fallbacklock''),
      (MEMORY_STALEDATA, ''memory_conflict_staledata''),
      (MEMORY_FALSESHARING, ''memory_conflict_falsesharing''),
      (SPEC_VALIDATION, ''spec_validation_failure''),
      (SPEC_DEPTH, ''spec_depth_failure''), (SPEC_MAX_CAPACITY, ''spec_max_capacity''),
      (SPEC_WRITE_IN_FLIGHT, ''spec_write_in_flight''),
      (SPEC_READ_CONFLICT, ''spec_read_conflict''), (SPEC_ILLEGAL, ''spec_illegal''),
      (MEMORY_POWER, ''memory_conflict_power''), (OTHER, ''other'')]"

definition htmFailureToStr :: "HtmFailureFaultCause \<Rightarrow> string" where
  "htmFailureToStr cause =
     (case smap_find cause_to_str cause of None \<Rightarrow> ''Unrecognized Failure'' | Some s \<Rightarrow> s)"

definition rc_to_str :: "(HtmCacheFailure, string) smap" where
  "rc_to_str = smap_of_list
     [(NO_FAIL, ''NO_FAIL''), (FAIL_SELF, ''FAIL_SELF''), (FAIL_REMOTE, ''FAIL_REMOTE''),
      (FAIL_SPEC, ''FAIL_SPEC''), (FAIL_OTHER, ''FAIL_OTHER'')]"

definition htmCacheFailureToStr :: "HtmCacheFailure \<Rightarrow> string" where
  "htmCacheFailureToStr rc =
     (case smap_find rc_to_str rc of None \<Rightarrow> ''Unrecognized Failure'' | Some s \<Rightarrow> s)"

section \<open>Configuration\<close>

text \<open>
  The parameters of the HTM object that the modelled code reads (\<^verbatim>\<open>mem/HTM.py\<close>) and the block size of
  the Ruby system.
\<close>

record htm_params =
  eager_cd :: bool
  lazy_vm :: bool
  conflict_resolution :: string
  lazy_arbitration :: string
  lazy_commit_width :: nat
  allow_read_set_l0_cache_evictions :: bool
  allow_read_set_l1_cache_evictions :: bool
  allow_write_set_l0_cache_evictions :: bool
  allow_write_set_l1_cache_evictions :: bool
  allow_read_set_l2_cache_evictions :: bool
  allow_write_set_l2_cache_evictions :: bool
  precise_read_set_tracking :: bool
  reload_if_stale :: bool
  max_consumed_blocks :: nat
  remove_false_sharing_forward :: bool
  cycles_to_validate :: int
  fwd_mechanism :: string
  prio_mechanism :: string
  fwd_cycle_solve_strategy :: string
  allowed_data_fwd :: string
  NC_not_producer :: bool
  n_val_fwd :: int
  max_prio_diff :: int
  max_consumers :: nat
  no_produce_on_retry :: bool
  value_checker :: bool
  isolation_checker :: bool
  block_size_bits :: nat

text \<open>The defaults of \<^verbatim>\<open>mem/HTM.py\<close>, with blocks of 64 bytes.\<close>

definition default_params :: htm_params where
  "default_params = \<lparr>
     eager_cd = False,
     lazy_vm = False,
     conflict_resolution = ''requester_wins'',
     lazy_arbitration = ''magic'',
     lazy_commit_width = 4,
     allow_read_set_l0_cache_evictions = False,
     allow_read_set_l1_cache_evictions = False,
     allow_write_set_l0_cache_evictions = False,
     allow_write_set_l1_cache_evictions = False,
     allow_read_set_l2_cache_evictions = False,
     allow_write_set_l2_cache_evictions = False,
     precise_read_set_tracking = False,
     reload_if_stale = False,
     max_consumed_blocks = 4,
     remove_false_sharing_forward = False,
     cycles_to_validate = 100,
     fwd_mechanism = ''no_fwd'',
     prio_mechanism = ''no_prio'',
     fwd_cycle_solve_strategy = ''no_strategy'',
     allowed_data_fwd = ''all_data'',
     NC_not_producer = False,
     n_val_fwd = 40,
     max_prio_diff = 1,
     max_consumers = 1,
     no_produce_on_retry = False,
     value_checker = False,
     isolation_checker = False,
     block_size_bits = 6\<rparr>"

lemma default_params_sel [simp]:
  "block_size_bits default_params = 6"
  "lazy_commit_width default_params = 4"
  "precise_read_set_tracking default_params = False"
  "lazy_vm default_params = False"
  "eager_cd default_params = False"
  by (simp_all add: default_params_def)

datatype ResolutionPolicy =
  RequesterWins | RequesterLoses | RequesterStalls | RequesterStallsPiCBased | UndefinedPolicy

datatype HtmFwdMechanism =
  no_fwd | naive | simple | W1_D1 | WN_D1 | W1_DN | WN_DM | WX_DX

datatype HtmHwPrioMechanism = no_prio | numeric

datatype HtmFwdCycleSolveStrategy = no_strategy | cycle_abort | cycle_retry

datatype HtmAllowedDataFwd = all_data | only_written | no_write_in_flight

definition requester_wins :: string where "requester_wins = ''requester_wins''"
definition requester_loses :: string where "requester_loses = ''requester_loses''"
definition power_tm :: string where "power_tm = ''requester_wins_power''"
definition woper_tm :: string where "woper_tm = ''requester_loses_power''"
definition power_tm_consumer_wins :: string where
  "power_tm_consumer_wins = ''requester_wins_power_consumer''"
definition woper_tm_consumer_wins :: string where
  "woper_tm_consumer_wins = ''requester_loses_power_consumer''"
definition committer_wins :: string where "committer_wins = ''committer_wins''"
definition requester_stalls :: string where "requester_stalls = ''requester_stalls''"
definition requester_stalls_pic_base :: string where
  "requester_stalls_pic_base = ''requester_stalls_pic_base''"
definition magic :: string where "magic = ''magic''"
definition token :: string where "token = ''token''"
definition requester_stalls_cda_base :: string where
  "requester_stalls_cda_base = ''requester_stalls_cda_base''"
definition requester_stalls_cda_base_ntx :: string where
  "requester_stalls_cda_base_ntx = ''requester_stalls_cda_base_ntx''"
definition requester_stalls_cda_hybrid :: string where
  "requester_stalls_cda_hybrid = ''requester_stalls_cda_hybrid''"
definition requester_stalls_cda_hybrid_ntx :: string where
  "requester_stalls_cda_hybrid_ntx = ''requester_stalls_cda_hybrid_ntx''"

lemmas policy_string_defs =
  requester_wins_def requester_loses_def power_tm_def woper_tm_def power_tm_consumer_wins_def
  woper_tm_consumer_wins_def committer_wins_def requester_stalls_def
  requester_stalls_pic_base_def magic_def token_def requester_stalls_cda_base_def
  requester_stalls_cda_base_ntx_def requester_stalls_cda_hybrid_def
  requester_stalls_cda_hybrid_ntx_def

text \<open>
  The conflict resolution policies the code names.
\<close>

definition policy_strings :: "string list" where
  "policy_strings =
     [requester_wins, requester_loses, power_tm, woper_tm, power_tm_consumer_wins,
      woper_tm_consumer_wins, committer_wins, requester_stalls, requester_stalls_pic_base,
      requester_stalls_cda_base, requester_stalls_cda_base_ntx, requester_stalls_cda_hybrid,
      requester_stalls_cda_hybrid_ntx]"

text \<open>
  \<^verbatim>\<open>std::string::find\<close> returns the position of the first occurrence; \<^verbatim>\<open>rfind(s, 0) == 0\<close> asks
  for an occurrence at position 0.
\<close>

definition starts_with :: "string \<Rightarrow> string \<Rightarrow> bool" where
  "starts_with pat s \<longleftrightarrow> take (length pat) s = pat"

fun str_find :: "string \<Rightarrow> string \<Rightarrow> nat option" where
  "str_find pat [] = (if pat = [] then Some 0 else None)"
| "str_find pat (c # s) =
     (if starts_with pat (c # s) then Some 0 else map_option Suc (str_find pat s))"

definition getResolutionPolicy :: "htm_params \<Rightarrow> ResolutionPolicy" where
  "getResolutionPolicy c =
     (let policy = conflict_resolution c in
      if starts_with ''requester_wins'' policy then RequesterWins
      else if starts_with ''requester_loses'' policy then RequesterLoses
      else if starts_with ''requester_stalls'' policy then RequesterStalls
      else UndefinedPolicy)"

definition getHwPrioMechanism :: "htm_params \<Rightarrow> HtmHwPrioMechanism" where
  "getHwPrioMechanism c =
     (if prio_mechanism c = ''no_prio'' then no_prio
      else if prio_mechanism c = ''numeric'' then numeric
      else no_prio)"

definition getFwdMechanism :: "htm_params \<Rightarrow> HtmFwdMechanism" where
  "getFwdMechanism c =
     (let mechanism = fwd_mechanism c in
      if mechanism = ''no_fwd'' then no_fwd
      else if mechanism = ''simple'' then simple
      else if mechanism = ''naive'' then naive
      else if mechanism = ''W1_D1'' then W1_D1
      else if mechanism = ''WN_D1'' then WN_D1
      else if mechanism = ''W1_DN'' then W1_DN
      else if mechanism = ''WN_DM'' then WN_DM
      else if mechanism = ''WX_DX'' then WX_DX
      else no_fwd)"

definition getFwdCycleSolveStrategy :: "htm_params \<Rightarrow> HtmFwdCycleSolveStrategy" where
  "getFwdCycleSolveStrategy c =
     (let strategy = fwd_cycle_solve_strategy c in
      if strategy = ''no_strategy'' then no_strategy
      else if strategy = ''abort'' then cycle_abort
      else if strategy = ''retry'' then cycle_retry
      else no_strategy)"

definition getAllowedDataFwd :: "htm_params \<Rightarrow> HtmAllowedDataFwd" where
  "getAllowedDataFwd c =
     (let strategy = allowed_data_fwd c in
      if strategy = ''all_data'' then all_data
      else if strategy = ''only_written'' then only_written
      else if strategy = ''no_write_in_flight'' then no_write_in_flight
      else all_data)"

text \<open>The physical address of the fallback lock is set once; every later report must agree.\<close>

definition setFallbackLockPAddr :: "64 word \<Rightarrow> 64 word \<Rightarrow> 64 word res" where
  "setFallbackLockPAddr current addr =
     (if current = 0 then Inr addr
      else asrt MemHtm_hh 249 (current = addr) (Inr current))"

section \<open>Commit token requests\<close>

text \<open>
  \<^verbatim>\<open>m_commitTokenRequestList\<close>: the processors that asked for the commit token, oldest first. The
  one at the front owns the token.
\<close>

type_synonym tokens = "int list"

definition requestCommitToken :: "int \<Rightarrow> tokens \<Rightarrow> tokens res" where
  "requestCommitToken proc_no ts =
     asrt MemHtm_cc 197 (list_all (\<lambda>p. p \<noteq> proc_no) ts) (Inr (ts @ [proc_no]))"

definition releaseCommitToken :: "int \<Rightarrow> tokens \<Rightarrow> tokens res" where
  "releaseCommitToken proc_no ts =
     asrt MemHtm_cc 204 (length ts > 0)
       (asrt MemHtm_cc 205 (proc_no = ts ! 0) (Inr (drop 1 ts)))"

definition getTokenOwner :: "tokens \<Rightarrow> int" where
  "getTokenOwner ts = (if length ts > 0 then ts ! 0 else -1)"

fun erase_first :: "int \<Rightarrow> tokens \<Rightarrow> tokens \<times> bool" where
  "erase_first proc_no [] = ([], False)"
| "erase_first proc_no (t # ts) =
     (if t = proc_no then (ts, True)
      else let (ts', found) = erase_first proc_no ts in (t # ts', found))"

definition removeCommitTokenRequest :: "int \<Rightarrow> tokens \<Rightarrow> tokens res" where
  "removeCommitTokenRequest proc_no ts =
     (if getTokenOwner ts = proc_no then releaseCommitToken proc_no ts
      else let (ts', found) = erase_first proc_no ts in
        asrt MemHtm_cc 225 found (Inr ts'))"

fun existCommitTokenRequest :: "int \<Rightarrow> tokens \<Rightarrow> bool" where
  "existCommitTokenRequest proc_no [] = False"
| "existCommitTokenRequest proc_no (t # ts) =
     (if t = proc_no then True else existCommitTokenRequest proc_no ts)"

definition getNumTokenRequests :: "tokens \<Rightarrow> nat" where
  "getNumTokenRequests ts = length ts"

definition tokens_ok :: "tokens \<Rightarrow> bool" where
  "tokens_ok ts \<longleftrightarrow> distinct ts \<and> (\<forall>p \<in> set ts. 0 \<le> p)"

subsection \<open>The contract of the commit token\<close>

text \<open>
  The arbiter sees the token through these operations. \<open>waiting\<close> is the order of service it
  promises; the lemmas inside hold for every implementation that keeps the promise.
\<close>

locale commit_token =
  fixes request :: "int \<Rightarrow> 'q \<Rightarrow> 'q res"
    and release :: "int \<Rightarrow> 'q \<Rightarrow> 'q res"
    and withdraw :: "int \<Rightarrow> 'q \<Rightarrow> 'q res"
    and requested :: "int \<Rightarrow> 'q \<Rightarrow> bool"
    and owner :: "'q \<Rightarrow> int"
    and waiting :: "'q \<Rightarrow> int list"
    and ok :: "'q \<Rightarrow> bool"
  assumes request_law: "ok q \<Longrightarrow> 0 \<le> p \<Longrightarrow> \<not> requested p q \<Longrightarrow>
      \<exists>q'. request p q = Inr q' \<and> ok q' \<and> waiting q' = waiting q @ [p]"
    and release_law: "ok q \<Longrightarrow> 0 \<le> p \<Longrightarrow> owner q = p \<Longrightarrow>
      \<exists>q'. release p q = Inr q' \<and> ok q' \<and> waiting q = p # waiting q'"
    and withdraw_law: "ok q \<Longrightarrow> requested p q \<Longrightarrow>
      \<exists>q'. withdraw p q = Inr q' \<and> ok q' \<and> waiting q' = remove1 p (waiting q)"
    and requested_law: "requested p q \<longleftrightarrow> p \<in> set (waiting q)"
    and owner_law: "owner q = (case waiting q of [] \<Rightarrow> -1 | p # _ \<Rightarrow> p)"
    and ok_law: "ok q \<Longrightarrow> distinct (waiting q) \<and> (\<forall>p \<in> set (waiting q). 0 \<le> p)"
begin

lemma handover:
  assumes "ok q" and "waiting q = ahead @ p # behind"
  shows "\<exists>q'. rfold release ahead q = Inr q' \<and> ok q' \<and> owner q' = p \<and> waiting q' = p # behind"
  using assms
proof (induction ahead arbitrary: q)
  case Nil
  then show ?case by (auto simp: owner_law)
next
  case (Cons a ahead)
  then have "owner q = a" and "0 \<le> a"
    using ok_law [of q] by (auto simp: owner_law)
  then obtain r where "release a q = Inr r" "ok r" "waiting q = a # waiting r"
    using release_law Cons.prems by blast
  with Cons show ?case by auto
qed

lemma request_keeps_owner:
  assumes "ok q" and "0 \<le> p" and "\<not> requested p q" and "owner q \<noteq> -1"
  shows "\<exists>q'. request p q = Inr q' \<and> owner q' = owner q"
proof -
  obtain q' where "request p q = Inr q'" "waiting q' = waiting q @ [p]"
    using request_law [OF assms(1-3)] by blast
  with assms(4) show ?thesis by (cases "waiting q") (auto simp: owner_law)
qed

lemma withdraw_gone:
  assumes "ok q" and "requested p q"
  shows "\<exists>q'. withdraw p q = Inr q' \<and> \<not> requested p q' \<and>
           (\<forall>r. r \<noteq> p \<longrightarrow> requested r q' = requested r q)"
  using withdraw_law [OF assms] ok_law [OF assms(1)] by (auto simp: requested_law)

lemma withdraw_other_keeps_owner:
  assumes "ok q" and "requested p q" and "owner q \<noteq> p"
  shows "\<exists>q'. withdraw p q = Inr q' \<and> owner q' = owner q"
proof -
  obtain q' where "withdraw p q = Inr q'" "waiting q' = remove1 p (waiting q)"
    using withdraw_law [OF assms(1,2)] by blast
  with assms(2,3) show ?thesis by (cases "waiting q") (auto simp: owner_law requested_law)
qed

end

lemma exist_iff: "existCommitTokenRequest p ts \<longleftrightarrow> p \<in> set ts"
  by (induction ts) auto

lemma getTokenOwner_case: "getTokenOwner ts = (case ts of [] \<Rightarrow> -1 | p # _ \<Rightarrow> p)"
  by (cases ts) (auto simp: getTokenOwner_def)

lemma erase_first_remove1: "erase_first p ts = (remove1 p ts, p \<in> set ts)"
  by (induction ts) auto

lemma requestCommitToken_ok:
  "tokens_ok ts \<Longrightarrow> 0 \<le> p \<Longrightarrow> p \<notin> set ts \<Longrightarrow>
     requestCommitToken p ts = Inr (ts @ [p]) \<and> tokens_ok (ts @ [p])"
  by (auto simp: requestCommitToken_def tokens_ok_def list_all_iff asrt_def)

lemma releaseCommitToken_ok:
  "tokens_ok (p # ts) \<Longrightarrow> releaseCommitToken p (p # ts) = Inr ts \<and> tokens_ok ts"
  by (auto simp: releaseCommitToken_def tokens_ok_def)

lemma removeCommitTokenRequest_ok:
  "tokens_ok ts \<Longrightarrow> p \<in> set ts \<Longrightarrow>
     removeCommitTokenRequest p ts = Inr (remove1 p ts) \<and> tokens_ok (remove1 p ts)"
  by (cases ts)
    (auto simp: removeCommitTokenRequest_def getTokenOwner_case erase_first_remove1
       releaseCommitToken_def tokens_ok_def dest: in_set_remove1 notin_set_remove1)

interpretation tok: commit_token requestCommitToken releaseCommitToken removeCommitTokenRequest
  existCommitTokenRequest getTokenOwner "\<lambda>ts. ts" tokens_ok
proof unfold_locales
  fix q :: tokens and p :: int
  assume "tokens_ok q" "0 \<le> p" "getTokenOwner q = p"
  then obtain r where "q = p # r" by (cases q) (auto simp: getTokenOwner_case)
  with \<open>tokens_ok q\<close> show "\<exists>q'. releaseCommitToken p q = Inr q' \<and> tokens_ok q' \<and> q = p # q'"
    using releaseCommitToken_ok by auto
qed (auto simp: exist_iff requestCommitToken_ok removeCommitTokenRequest_ok getTokenOwner_case
       tokens_ok_def)

section \<open>Properties\<close>

text \<open>
  The cause shown to the ISA is always one of the seven architectural causes and is itself
  shown unchanged, and the translation panics exactly on the two marker values.
\<close>

theorem isa_visible_cause:
  "case getIsaVisibleHtmFailureCause cause of
     Inl e \<Rightarrow> cause \<in> {INVALID, NUM_CAUSES} \<and> e = PanicAt MemHtm_cc 110
   | Inr v \<Rightarrow> cause \<notin> {INVALID, NUM_CAUSES}
       \<and> v \<in> {EXPLICIT, NEST, SIZE, EXCEPTION, MEMORY, OTHER, DISABLED}
       \<and> getIsaVisibleHtmFailureCause v = Inr v"
  by (cases cause) (simp_all add: getIsaVisibleHtmFailureCause_def)



end
