(* ===== verification/Ruby_Address.thy ===== *)
theory Ruby_Address
  imports HTM_Prelude
begin

text \<open>
  \<^verbatim>\<open>base/bitfield.hh\<close> and \<^verbatim>\<open>mem/ruby/common/Address.cc\<close>: physical addresses as 64-bit words, their line
  address and their offset in the line, and the lemmas on lines that every component shares.
  The number of offset bits is an argument, the way \<^verbatim>\<open>RubySystem::getBlockSizeBits\<close> gives it.
\<close>

unbundle bit_operations_syntax

type_synonym addr = "64 word"
type_synonym byte = "8 word"

named_theorems addr_simps "line addresses and offsets"

definition mask64 :: "nat \<Rightarrow> addr" where
  "mask64 nbits = (if nbits \<ge> 64 then -1 else push_bit nbits 1 - 1)"

text \<open>
  The number of bits is computed in \<^verbatim>\<open>unsigned\<close> arithmetic; a shift by 64 or more is undefined.
\<close>

definition bits :: "addr \<Rightarrow> nat \<Rightarrow> nat \<Rightarrow> addr res" where
  "bits val first lst =
     asrt Bitfield_hh 78 (first \<ge> lst)
       (let nbits = (first - lst + 1) mod 2 ^ 32 in
        if lst \<ge> 64 then Inl (UndefinedAt Bitfield_hh 80)
        else Inr (drop_bit lst val AND mask64 nbits))"

definition mbits :: "addr \<Rightarrow> nat \<Rightarrow> nat \<Rightarrow> addr" where
  "mbits val first lst = val AND (mask64 (first + 1) AND NOT (mask64 lst))"

definition bitSelect :: "addr \<Rightarrow> nat \<Rightarrow> nat \<Rightarrow> addr res" where
  "bitSelect addr small big = asrt Addr_cc 43 (big \<ge> small) (bits addr big small)"

definition maskLowOrderBits :: "addr \<Rightarrow> nat \<Rightarrow> addr" where
  "maskLowOrderBits addr number = mbits addr 63 number"

definition getBlockSizeBytes :: "nat \<Rightarrow> nat" where
  "getBlockSizeBytes blockBits = 2 ^ blockBits"

definition getOffset :: "nat \<Rightarrow> addr \<Rightarrow> addr res" where
  "getOffset blockBits addr = bitSelect addr 0 ((blockBits + 2 ^ 32 - 1) mod 2 ^ 32)"

definition makeLineAddress :: "nat \<Rightarrow> addr \<Rightarrow> addr" where
  "makeLineAddress blockBits addr = mbits addr 63 blockBits"

definition makeLineAddressBits :: "addr \<Rightarrow> nat \<Rightarrow> addr" where
  "makeLineAddressBits addr cacheLineBits = maskLowOrderBits addr cacheLineBits"

definition makeNextStrideAddress :: "nat \<Rightarrow> addr \<Rightarrow> int \<Rightarrow> addr" where
  "makeNextStrideAddress blockBits addr stride =
     makeLineAddress blockBits addr + word_of_int (int (getBlockSizeBytes blockBits) * stride)"

section \<open>Lines\<close>

lemma mask64_mask: "mask64 n = mask n"
proof (cases "n \<ge> 64")
  case True
  then show ?thesis
    by (intro bit_word_eqI) (simp add: mask64_def bit_mask_iff)
next
  case False
  then show ?thesis by (simp add: mask64_def mask_eq_decr_exp)
qed

lemma mask64_full [simp]: "mask64 64 = -1"
  by (simp add: mask64_def)

lemma makeLineAddress_alt: "makeLineAddress b a = a AND NOT (mask b)"
proof -
  have "mask64 (63 + 1) = -1" by (simp add: mask64_def)
  then show ?thesis unfolding makeLineAddress_def mbits_def mask64_mask by simp
qed

definition offset_of :: "nat \<Rightarrow> addr \<Rightarrow> nat" where
  "offset_of b a = unat (a AND mask b)"

lemma getOffset_eq [addr_simps]:
  assumes "b \<le> 64"
  shows "getOffset b a = Inr (a AND mask b)"
proof (cases "b = 0")
  case True
  then show ?thesis by (simp add: getOffset_def bitSelect_def bits_def mask64_def)
next
  case False
  then have "(b + 2 ^ 32 - 1) mod 2 ^ 32 = b - 1"
    using assms by (simp add: mod_if)
  with False assms show ?thesis
    by (simp add: getOffset_def bitSelect_def bits_def mask64_mask)
qed

lemma line_idem [simp, addr_simps]: "makeLineAddress b (makeLineAddress b a) = makeLineAddress b a"
  by (simp add: makeLineAddress_alt and.assoc)

lemma line_push: "makeLineAddress b a = push_bit b (drop_bit b a)"
  by (rule bit_word_eqI) (auto simp: makeLineAddress_alt bit_simps)

lemma line_plus_offset: "makeLineAddress b a + (a AND mask b) = a"
  by (simp add: line_push take_bit_eq_mask [symmetric] bits_ident)

lemma offset_take_bit: "offset_of b a = unat (take_bit b a)"
  by (simp add: offset_of_def take_bit_eq_mask)

lemma line_offset_zero [simp, addr_simps]: "offset_of b (makeLineAddress b a) = 0"
  by (simp add: offset_take_bit line_push take_bit_push_bit)

lemma offset_bound: "b < 64 \<Longrightarrow> offset_of b a < 2 ^ b"
  unfolding offset_take_bit unsigned_take_bit_eq by (rule take_bit_nat_less_exp)

text \<open>An address of a block is its line plus an offset, in exactly one way.\<close>

lemma line_add_offset:
  assumes "makeLineAddress b a = a" and "b < 64" and "i < 2 ^ b"
  shows "makeLineAddress b (a + of_nat i) = a" and "offset_of b (a + of_nat i) = i"
proof -
  have low: "take_bit b a = 0"
    by (subst assms(1) [symmetric]) (simp add: line_push take_bit_push_bit)
  have i: "take_bit b (of_nat i :: addr) = of_nat i"
    using assms(2,3) by (simp add: take_bit_of_nat take_bit_nat_eq_self)
  have off: "take_bit b (a + of_nat i) = of_nat i"
  proof -
    have "a AND of_nat i = 0"
      using low i by (intro bit_word_eqI) (auto simp: bit_eq_iff bit_simps)
    then have "a + of_nat i = a OR of_nat i" by (rule disjunctive_add_eq_or)
    then show ?thesis using low i by simp
  qed
  have "(2::nat) ^ b \<le> 2 ^ 64"
    by (rule power_increasing) (use assms(2) in simp_all)
  with assms(3) have "i < 2 ^ 64" by (rule less_le_trans)
  then have "unat (of_nat i :: addr) = i" by (simp add: unsigned_of_nat take_bit_nat_eq_self)
  then show "offset_of b (a + of_nat i) = i"
    using off by (simp only: offset_take_bit)
  show "makeLineAddress b (a + of_nat i) = a"
    using line_plus_offset [of b "a + of_nat i"] off by (simp add: take_bit_eq_mask)
qed

lemma line_of_same_offset:
  assumes "makeLineAddress b x = makeLineAddress b y" and "offset_of b x = offset_of b y"
  shows "x = y"
proof -
  have "x AND mask b = y AND mask b"
    using assms(2) unfolding offset_of_def by (rule unsigned_word_eqI)
  then have "makeLineAddress b x + (x AND mask b) = makeLineAddress b y + (y AND mask b)"
    using assms(1) by (rule arg_cong2 [where f = "(+)", rotated])
  then show ?thesis by (simp only: line_plus_offset)
qed

end
