(* ===== verification/Isolation.thy ===== *)
theory Isolation
  imports Htm_Policy Ruby_Address
begin

text \<open>
  \<^verbatim>\<open>mem/ruby/htm/TransactionIsolationManager.cc\<close>: the read set and the write set of a transaction, kept
  per cache line. The lemmas show that the two maps are a perfect filter: they refine the sets of
  lines that were added since the last clear. The operations that ask the interface manager
  for the transaction level or the configuration take them as arguments.
\<close>

section \<open>State and operations\<close>

definition EXECUTED_LOAD :: char where "EXECUTED_LOAD = CHR ''x''"
definition RETIRED_LOAD :: char where "RETIRED_LOAD = CHR ''r''"
definition OVERTAKING_LOAD :: char where "OVERTAKING_LOAD = CHR ''o''"
definition RETIRED_STORE :: char where "RETIRED_STORE = CHR ''w''"

lemmas tag_defs = EXECUTED_LOAD_def RETIRED_LOAD_def OVERTAKING_LOAD_def RETIRED_STORE_def

lemma tags_distinct [simp]:
  "EXECUTED_LOAD \<noteq> RETIRED_LOAD" "RETIRED_LOAD \<noteq> EXECUTED_LOAD"
  "OVERTAKING_LOAD \<noteq> RETIRED_LOAD" "RETIRED_LOAD \<noteq> OVERTAKING_LOAD"
  "EXECUTED_LOAD \<noteq> OVERTAKING_LOAD" "OVERTAKING_LOAD \<noteq> EXECUTED_LOAD"
  by (simp_all add: tag_defs)

record isolation =
  m_readSet :: "(addr, char) smap"
  m_writeSet :: "(addr, char) smap"
  m_writeSetInWriteBuffer :: "(addr, char) smap"

abbreviation line :: "htm_params \<Rightarrow> addr \<Rightarrow> addr" where
  "line c \<equiv> makeLineAddress (block_size_bits c)"

definition iso_init :: isolation where
  "iso_init = \<lparr>m_readSet = [], m_writeSet = [], m_writeSetInWriteBuffer = []\<rparr>"

definition iso_begin :: "isolation \<Rightarrow> isolation" where
  "iso_begin s = s\<lparr>m_writeSet := []\<rparr>"

definition clearReadSetPerfectFilter :: "isolation \<Rightarrow> isolation" where
  "clearReadSetPerfectFilter s = s\<lparr>m_readSet := []\<rparr>"

definition clearWriteSetPerfectFilter :: "isolation \<Rightarrow> isolation" where
  "clearWriteSetPerfectFilter s = s\<lparr>m_writeSet := [], m_writeSetInWriteBuffer := []\<rparr>"

definition iso_commit :: "htm_params \<Rightarrow> isolation \<Rightarrow> isolation res" where
  "iso_commit c s =
     rbind (rfold (\<lambda>(key, tag) u.
         if precise_read_set_tracking c then asrt TISM_cc 75 (tag = RETIRED_LOAD) (Inr u) else Inr u)
       (m_readSet s) ())
     (\<lambda>_. Inr (clearWriteSetPerfectFilter (clearReadSetPerfectFilter s)))"

definition iso_abort :: "isolation \<Rightarrow> isolation" where
  "iso_abort s = clearWriteSetPerfectFilter (clearReadSetPerfectFilter s)"

definition releaseIsolation :: "isolation \<Rightarrow> isolation" where
  "releaseIsolation s = clearWriteSetPerfectFilter (clearReadSetPerfectFilter s)"

definition releaseReadIsolation :: "isolation \<Rightarrow> isolation" where
  "releaseReadIsolation s = clearReadSetPerfectFilter s"

definition isInReadSetPerfectFilter :: "htm_params \<Rightarrow> nat \<Rightarrow> isolation \<Rightarrow> addr \<Rightarrow> bool res" where
  "isInReadSetPerfectFilter c level s addr =
     (case smap_find (m_readSet s) (line c addr) of
        Some tag \<Rightarrow>
          asrt TISM_cc 119 (level = 0 \<longrightarrow> tag \<noteq> RETIRED_LOAD)
            (asrt TISM_cc 122 (precise_read_set_tracking c \<longrightarrow> tag = RETIRED_LOAD) (Inr True))
      | None \<Rightarrow> Inr False)"

definition isInWriteSetPerfectFilter :: "htm_params \<Rightarrow> isolation \<Rightarrow> addr \<Rightarrow> bool res" where
  "isInWriteSetPerfectFilter c s addr =
     (case smap_find (m_writeSet s) (line c addr) of
        Some tag \<Rightarrow> asrt TISM_cc 135 (tag = RETIRED_STORE) (Inr True)
      | None \<Rightarrow> Inr False)"

definition addToReadSetPerfectFilter :: "htm_params \<Rightarrow> nat \<Rightarrow> addr \<Rightarrow> isolation \<Rightarrow> isolation res" where
  "addToReadSetPerfectFilter c level address s =
     (let addr = line c address;
          tag = (if level = 0 then OVERTAKING_LOAD else EXECUTED_LOAD);
          s' = (if smap_find (m_readSet s) addr = None
                then s\<lparr>m_readSet := smap_insert addr tag (m_readSet s)\<rparr> else s)
      in asrt TISM_cc 157 (smap_find (m_readSet s') addr \<noteq> None) (Inr s'))"

definition iso_addToRetiredReadSet :: "htm_params \<Rightarrow> addr \<Rightarrow> isolation \<Rightarrow> isolation res" where
  "iso_addToRetiredReadSet c addr s =
     (case smap_find (m_readSet s) (line c addr) of
        None \<Rightarrow> Inl (AssertFail TISM_cc 167)
      | Some tag \<Rightarrow>
          asrt TISM_cc 175 (tag = OVERTAKING_LOAD \<or> tag = EXECUTED_LOAD)
            (Inr (s\<lparr>m_readSet := smap_assign (line c addr) RETIRED_LOAD (m_readSet s)\<rparr>)))"

definition inRetiredReadSet :: "htm_params \<Rightarrow> isolation \<Rightarrow> addr \<Rightarrow> bool res" where
  "inRetiredReadSet c s addr =
     (case smap_find (m_readSet s) (line c addr) of
        None \<Rightarrow> Inl (AssertFail TISM_cc 184)
      | Some tag \<Rightarrow> Inr (tag = RETIRED_LOAD))"

definition wasOvertakingRead :: "isolation \<Rightarrow> addr \<Rightarrow> bool res" where
  "wasOvertakingRead s addr =
     (case smap_find (m_readSet s) addr of
        None \<Rightarrow> Inl (AssertFail TISM_cc 193)
      | Some tag \<Rightarrow> Inr (tag = OVERTAKING_LOAD))"

definition removeFromReadSetPerfectFilter :: "htm_params \<Rightarrow> addr \<Rightarrow> isolation \<Rightarrow> isolation res" where
  "removeFromReadSetPerfectFilter c address s =
     (let addr = line c address in
      asrt TISM_cc 207 (smap_find (m_readSet s) addr \<noteq> None)
        (let s' = s\<lparr>m_readSet := smap_erase addr (m_readSet s)\<rparr> in
         asrt TISM_cc 209 (smap_find (m_readSet s') addr = None) (Inr s')))"

definition removeFromWriteSetPerfectFilter :: "htm_params \<Rightarrow> addr \<Rightarrow> isolation \<Rightarrow> isolation res" where
  "removeFromWriteSetPerfectFilter c address s =
     (let addr = line c address in
      asrt TISM_cc 223 (smap_find (m_writeSet s) addr \<noteq> None)
        (let s' = s\<lparr>m_writeSet := smap_erase addr (m_writeSet s)\<rparr> in
         asrt TISM_cc 225 (smap_find (m_writeSet s') addr = None) (Inr s')))"

definition addToWriteSetPerfectFilter :: "htm_params \<Rightarrow> addr \<Rightarrow> isolation \<Rightarrow> isolation res" where
  "addToWriteSetPerfectFilter c address s =
     (let addr = line c address;
          s' = (if smap_find (m_writeSet s) addr = None
                then s\<lparr>m_writeSet := smap_insert addr RETIRED_STORE (m_writeSet s)\<rparr> else s)
      in asrt TISM_cc 239 (smap_find (m_writeSet s') addr \<noteq> None) (Inr s'))"

definition getReadSetSize :: "isolation \<Rightarrow> nat" where
  "getReadSetSize s = length (m_readSet s)"

definition getWriteSetSize :: "isolation \<Rightarrow> nat" where
  "getWriteSetSize s = length (m_writeSet s)"

definition getWriteSet :: "isolation \<Rightarrow> addr list" where
  "getWriteSet s = smap_keys (m_writeSet s)"

definition getReadSet :: "isolation \<Rightarrow> addr list" where
  "getReadSet s = smap_keys (m_readSet s)"

definition redirectedStoreToWriteBuffer :: "addr \<Rightarrow> isolation \<Rightarrow> isolation" where
  "redirectedStoreToWriteBuffer addr s =
     s\<lparr>m_writeSetInWriteBuffer := smap_insert addr RETIRED_STORE (m_writeSetInWriteBuffer s)\<rparr>"

definition isRedirectedStoreToWriteBuffer :: "isolation \<Rightarrow> addr \<Rightarrow> bool" where
  "isRedirectedStoreToWriteBuffer s addr \<longleftrightarrow> smap_find (m_writeSetInWriteBuffer s) addr \<noteq> None"

fun conflict_scan :: "htm_params \<Rightarrow> nat \<Rightarrow> isolation \<Rightarrow> (addr, char) smap \<Rightarrow> bool res" where
  "conflict_scan c level new_committer [] = Inr False"
| "conflict_scan c level new_committer ((waddr, tag) # m) =
     rbind (isInReadSetPerfectFilter c level new_committer waddr) (\<lambda>rd.
       if rd then Inr True
       else if isRedirectedStoreToWriteBuffer new_committer waddr then Inr True
       else conflict_scan c level new_committer m)"

definition hasConflictWith :: "htm_params \<Rightarrow> nat \<Rightarrow> isolation \<Rightarrow> isolation \<Rightarrow> bool res" where
  "hasConflictWith c level s new_committer =
     conflict_scan c level new_committer (m_writeSetInWriteBuffer s)"

section \<open>Refinement to sets of lines\<close>

definition reads :: "isolation \<Rightarrow> addr set" where
  "reads s = set (smap_keys (m_readSet s))"

definition writes :: "isolation \<Rightarrow> addr set" where
  "writes s = set (smap_keys (m_writeSet s))"

definition redirected :: "isolation \<Rightarrow> addr set" where
  "redirected s = set (smap_keys (m_writeSetInWriteBuffer s))"

definition iso_ok :: "htm_params \<Rightarrow> isolation \<Rightarrow> bool" where
  "iso_ok c s \<longleftrightarrow>
     smap_ok (m_readSet s) \<and> smap_ok (m_writeSet s) \<and> smap_ok (m_writeSetInWriteBuffer s)
     \<and> (\<forall>a \<in> reads s \<union> writes s. line c a = a)
     \<and> (\<forall>(k, t) \<in> set (m_writeSet s). t = RETIRED_STORE)"

datatype iso_event =
  IsoBegin | IsoLoad nat addr | IsoRetire addr | IsoStore addr | IsoDropRead addr | IsoDropWrite addr
| IsoRedirect addr | IsoCommit | IsoAbort | IsoReleaseRead

primrec iso_step :: "htm_params \<Rightarrow> iso_event \<Rightarrow> isolation \<Rightarrow> isolation res" where
  "iso_step c IsoBegin s = Inr (iso_begin s)"
| "iso_step c (IsoLoad level a) s = addToReadSetPerfectFilter c level a s"
| "iso_step c (IsoRetire a) s = iso_addToRetiredReadSet c a s"
| "iso_step c (IsoStore a) s = addToWriteSetPerfectFilter c a s"
| "iso_step c (IsoDropRead a) s = removeFromReadSetPerfectFilter c a s"
| "iso_step c (IsoDropWrite a) s = removeFromWriteSetPerfectFilter c a s"
| "iso_step c (IsoRedirect a) s = Inr (redirectedStoreToWriteBuffer a s)"
| "iso_step c IsoCommit s = iso_commit c s"
| "iso_step c IsoAbort s = Inr (iso_abort s)"
| "iso_step c IsoReleaseRead s = Inr (releaseReadIsolation s)"

text \<open>The specification: a pair of sets of lines.\<close>

primrec spec_step :: "htm_params \<Rightarrow> iso_event \<Rightarrow> addr set \<times> addr set \<Rightarrow> addr set \<times> addr set" where
  "spec_step c IsoBegin RW = (fst RW, {})"
| "spec_step c (IsoLoad level a) RW = (insert (line c a) (fst RW), snd RW)"
| "spec_step c (IsoRetire a) RW = RW"
| "spec_step c (IsoStore a) RW = (fst RW, insert (line c a) (snd RW))"
| "spec_step c (IsoDropRead a) RW = (fst RW - {line c a}, snd RW)"
| "spec_step c (IsoDropWrite a) RW = (fst RW, snd RW - {line c a})"
| "spec_step c (IsoRedirect a) RW = RW"
| "spec_step c IsoCommit RW = ({}, {})"
| "spec_step c IsoAbort RW = ({}, {})"
| "spec_step c IsoReleaseRead RW = ({}, snd RW)"

lemmas iso_op_defs =
  iso_begin_def clearReadSetPerfectFilter_def clearWriteSetPerfectFilter_def iso_commit_def
  iso_abort_def releaseIsolation_def releaseReadIsolation_def addToReadSetPerfectFilter_def
  iso_addToRetiredReadSet_def removeFromReadSetPerfectFilter_def
  removeFromWriteSetPerfectFilter_def addToWriteSetPerfectFilter_def
  redirectedStoreToWriteBuffer_def

lemma reads_find: "a \<in> reads s \<longleftrightarrow> smap_find (m_readSet s) a \<noteq> None"
  by (simp add: reads_def smap_keys_find)

lemma writes_find: "a \<in> writes s \<longleftrightarrow> smap_find (m_writeSet s) a \<noteq> None"
  by (simp add: writes_def smap_keys_find)

lemma redirected_find: "a \<in> redirected s \<longleftrightarrow> smap_find (m_writeSetInWriteBuffer s) a \<noteq> None"
  by (simp add: redirected_def smap_keys_find)

lemmas iso_finds = reads_find writes_find redirected_find

lemma write_tags:
  "smap_ok m \<Longrightarrow> (\<forall>(k, t) \<in> set m. t = w) \<longleftrightarrow> (\<forall>k t. smap_find m k = Some t \<longrightarrow> t = w)"
  by (force simp: smap_find_def smap_ok_def)

lemma iso_ok_alt:
  "iso_ok c s \<longleftrightarrow>
     smap_ok (m_readSet s) \<and> smap_ok (m_writeSet s) \<and> smap_ok (m_writeSetInWriteBuffer s)
     \<and> (\<forall>a. smap_find (m_readSet s) a \<noteq> None \<longrightarrow> line c a = a)
     \<and> (\<forall>a t. smap_find (m_writeSet s) a = Some t \<longrightarrow> line c a = a \<and> t = RETIRED_STORE)"
proof (cases "smap_ok (m_writeSet s)")
  case True
  from write_tags [OF this, of RETIRED_STORE] show ?thesis
    unfolding iso_ok_def by (auto simp: iso_finds)
qed (simp add: iso_ok_def)

lemma iso_init_ok [simp]: "iso_ok c iso_init" "reads iso_init = {}" "writes iso_init = {}"
  by (simp_all add: iso_ok_def iso_init_def reads_def writes_def smap_keys_def)

lemma iso_step_ok: "iso_ok c s \<Longrightarrow> iso_step c e s = Inr s' \<Longrightarrow> iso_ok c s'"
  by (cases e)
    (auto simp: iso_ok_alt iso_op_defs res_simps Let_def split: option.splits if_splits)

lemma iso_step_refines:
  "iso_step c e s = Inr s' \<Longrightarrow> (reads s', writes s') = spec_step c e (reads s, writes s)"
  by (cases e)
    (auto simp: set_eq_iff iso_finds iso_op_defs res_simps Let_def split: option.splits if_splits)

lemma isInWriteSet_eq:
  "iso_ok c s \<Longrightarrow> isInWriteSetPerfectFilter c s a = Inr (line c a \<in> writes s)"
  by (auto simp: isInWriteSetPerfectFilter_def iso_ok_alt iso_finds split: option.splits)

lemma isInReadSet_partial:
  "isInReadSetPerfectFilter c level s a = Inr b \<Longrightarrow> b = (line c a \<in> reads s)"
  by (auto simp: isInReadSetPerfectFilter_def iso_finds res_simps split: option.splits)

lemma isInReadSet_eq:
  "0 < level \<Longrightarrow> \<not> precise_read_set_tracking c \<Longrightarrow>
     isInReadSetPerfectFilter c level s a = Inr (line c a \<in> reads s)"
  by (auto simp: isInReadSetPerfectFilter_def iso_finds split: option.splits)

lemma isInReadSet_precise:
  assumes "0 < level" and "\<forall>(k, t) \<in> set (m_readSet s). t = RETIRED_LOAD"
  shows "isInReadSetPerfectFilter c level s a = Inr (line c a \<in> reads s)"
  using assms
  by (auto simp: isInReadSetPerfectFilter_def iso_finds smap_find_def dest!: map_of_SomeD
      split: option.splits)

lemma getWriteSet_eq: "iso_ok c s \<Longrightarrow> set (getWriteSet s) = writes s \<and> distinct (getWriteSet s)"
  by (auto simp: getWriteSet_def writes_def iso_ok_def intro: smap_keys_distinct)

lemma set_sizes:
  "iso_ok c s \<Longrightarrow> getReadSetSize s = card (reads s) \<and> getWriteSetSize s = card (writes s)"
  by (metis getReadSetSize_def getWriteSetSize_def reads_def writes_def iso_ok_def
      smap_keys_distinct distinct_card smap_keys_def length_map)

lemma iso_run_ok:
  assumes "rfold (iso_step c) evs iso_init = Inr s"
  shows "iso_ok c s \<and> (reads s, writes s) = fold (spec_step c) evs ({}, {})"
proof -
  have "iso_ok c s' \<and> (reads s', writes s') = fold (spec_step c) evs (reads t, writes t)"
    if "rfold (iso_step c) evs t = Inr s'" "iso_ok c t" for t s'
    using that
  proof (induction evs arbitrary: t)
    case (Cons e evs)
    then obtain u where "iso_step c e t = Inr u" "rfold (iso_step c) evs u = Inr s'"
      by (auto simp: res_simps)
    with Cons iso_step_ok iso_step_refines show ?case by (metis fold_simps(2))
  qed simp
  from this [OF assms] show ?thesis by simp
qed

lemma hasConflictWith_eq:
  assumes "0 < level" and "\<not> precise_read_set_tracking c" and "\<forall>a \<in> redirected s. line c a = a"
  shows "hasConflictWith c level s n = Inr (redirected s \<inter> (reads n \<union> redirected n) \<noteq> {})"
proof -
  have "conflict_scan c level n m = Inr (set (smap_keys m) \<inter> (reads n \<union> redirected n) \<noteq> {})"
    if "\<forall>a \<in> set (smap_keys m). line c a = a" for m :: "(addr, char) smap"
    using that
  proof (induction m)
    case (Cons e m)
    then show ?case
      by (cases e) (auto simp: smap_keys_def isInReadSet_eq [OF assms(1,2)]
          isRedirectedStoreToWriteBuffer_def redirected_find)
  qed (simp add: smap_keys_def)
  then show ?thesis using assms by (auto simp: hasConflictWith_def redirected_def)
qed

section \<open>Properties\<close>

text \<open>
  C18. The filters are perfect. After any sequence of isolation events that runs without a failed
  assertion, the read set and the write set are the sets of lines the specification computes, the
  write set query is exact, and so is the read set query inside a transaction.
\<close>

theorem perfect_filter:
  assumes "rfold (iso_step c) evs iso_init = Inr s"
    and "0 < level" and "\<not> precise_read_set_tracking c"
  shows "(reads s, writes s) = fold (spec_step c) evs ({}, {})
    \<and> isInWriteSetPerfectFilter c s a = Inr (line c a \<in> snd (fold (spec_step c) evs ({}, {})))
    \<and> isInReadSetPerfectFilter c level s a = Inr (line c a \<in> fst (fold (spec_step c) evs ({}, {})))"
proof -
  have ok: "iso_ok c s" and eq: "(reads s, writes s) = fold (spec_step c) evs ({}, {})"
    using iso_run_ok [OF assms(1)] by auto
  show ?thesis
    unfolding eq [symmetric]
    using isInWriteSet_eq [OF ok] isInReadSet_eq [OF assms(2,3)] by simp
qed

theorem perfect_filter_witness:
  "\<exists>s. rfold (iso_step default_params) [IsoLoad 1 0x1008, IsoStore 0x1078, IsoDropRead 0x103f] iso_init = Inr s
     \<and> isInWriteSetPerfectFilter default_params s 0x1040 = Inr True
     \<and> isInReadSetPerfectFilter default_params 1 s 0x1000 = Inr False"
proof -
  let ?evs = "[IsoLoad 1 0x1008, IsoStore 0x1078, IsoDropRead 0x103f]"
  let ?s = "\<lparr>m_readSet = [], m_writeSet = [(0x1040, CHR ''w'')], m_writeSetInWriteBuffer = []\<rparr>"
  have run: "rfold (iso_step default_params) ?evs iso_init = Inr ?s"
    by code_simp
  have "snd (fold (spec_step default_params) ?evs ({}, {})) = {0x1040}"
    and "fst (fold (spec_step default_params) ?evs ({}, {})) = {}"
    and "line default_params 0x1040 = 0x1040"
    by code_simp+
  then show ?thesis
    using run perfect_filter [OF run, of 1 "0x1040"] perfect_filter [OF run, of 1 "0x1000"]
    by (simp add: default_params_def)
qed

text \<open>
  The check of a new committer against an ongoing one answers whether a line that the ongoing
  committer has in its write buffer was read or written by the new one.
\<close>

theorem hasConflictWith_correct:
  assumes "0 < level" and "\<not> precise_read_set_tracking c" and "\<forall>a \<in> redirected s. line c a = a"
  shows "hasConflictWith c level s n =
    Inr (\<exists>a \<in> redirected s. a \<in> reads n \<or> a \<in> redirected n)"
  unfolding hasConflictWith_eq [OF assms] by auto

theorem hasConflictWith_correct_witness:
  "hasConflictWith default_params 1 (redirectedStoreToWriteBuffer 0x40 iso_init)
     (iso_init\<lparr>m_readSet := [(0x40, CHR ''x'')]\<rparr>) = Inr True"
proof -
  have "\<forall>a \<in> redirected (redirectedStoreToWriteBuffer 0x40 iso_init). line default_params a = a"
    by code_simp
  from hasConflictWith_correct [OF _ _ this, of 1] show ?thesis
    by (simp add: default_params_def redirectedStoreToWriteBuffer_def redirected_def reads_def
        iso_init_def smap_insert_def smap_keys_def)
qed

end
