(* ===== verification/Ruby_Data.thy ===== *)
theory Ruby_Data
  imports Ruby_Address
begin

text \<open>
  \<^verbatim>\<open>mem/ruby/common/WriteMask.hh\<close> and \<^verbatim>\<open>mem/ruby/common/DataBlock.cc\<close>: the byte mask of a block and
  the data of a block, with masked copy and comparison. A mask refines the set of the offsets
  it selects.
\<close>

section \<open>Byte masks\<close>

text \<open>
  An atomic operation is an external functor object that rewrites memory from a pointer on; it is
  a function on the bytes from that position.
\<close>

type_synonym atomic_op = "byte list \<Rightarrow> byte list"

record WriteMask =
  mSize :: nat
  mMask :: "bool list"
  mAtomic :: bool
  mAtomicOp :: "(nat \<times> atomic_op) list"

text \<open>
  \<^verbatim>\<open>vector::at\<close> throws out of range, \<^verbatim>\<open>operator[]\<close> is undefined there.
\<close>

definition vec_at :: "nat \<Rightarrow> bool list \<Rightarrow> nat \<Rightarrow> bool res" where
  "vec_at line v i = (if i < length v then Inr (v ! i) else Inl (PanicAt WriteMask_hh line))"

definition vec_get :: "nat \<Rightarrow> bool list \<Rightarrow> nat \<Rightarrow> bool res" where
  "vec_get line v i = (if i < length v then Inr (v ! i) else Inl (UndefinedAt WriteMask_hh line))"

definition vec_set :: "nat \<Rightarrow> nat \<Rightarrow> bool \<Rightarrow> bool list \<Rightarrow> bool list res" where
  "vec_set line i b v = (if i < length v then Inr (v[i := b]) else Inl (UndefinedAt WriteMask_hh line))"

definition WriteMask_block :: "nat \<Rightarrow> WriteMask" where
  "WriteMask_block blockBytes =
     \<lparr>mSize = blockBytes, mMask = replicate blockBytes False, mAtomic = False, mAtomicOp = []\<rparr>"

definition WriteMask_size :: "nat \<Rightarrow> WriteMask" where
  "WriteMask_size sz =
     \<lparr>mSize = sz, mMask = replicate sz False, mAtomic = False, mAtomicOp = []\<rparr>"

definition WriteMask_vec :: "nat \<Rightarrow> bool list \<Rightarrow> WriteMask" where
  "WriteMask_vec sz m = \<lparr>mSize = sz, mMask = m, mAtomic = False, mAtomicOp = []\<rparr>"

definition WriteMask_atomic :: "nat \<Rightarrow> bool list \<Rightarrow> (nat \<times> atomic_op) list \<Rightarrow> WriteMask" where
  "WriteMask_atomic sz m ops = \<lparr>mSize = sz, mMask = m, mAtomic = True, mAtomicOp = ops\<rparr>"

definition wm_clear :: "WriteMask \<Rightarrow> WriteMask" where
  "wm_clear w = w\<lparr>mMask := replicate (mSize w) False\<rparr>"

definition wm_test :: "WriteMask \<Rightarrow> nat \<Rightarrow> bool res" where
  "wm_test w offset = asrt WriteMask_hh 90 (offset < mSize w) (vec_get 91 (mMask w) offset)"

definition setMask :: "nat \<Rightarrow> nat \<Rightarrow> bool \<Rightarrow> WriteMask \<Rightarrow> WriteMask res" where
  "setMask offset len val w =
     asrt WriteMask_hh 97 (mSize w \<ge> offset + len)
       (rbind (rfold (\<lambda>i. vec_set 99 (offset + i) val) [0..<len] (mMask w))
         (\<lambda>m. Inr (w\<lparr>mMask := m\<rparr>)))"

definition fillMask :: "WriteMask \<Rightarrow> WriteMask res" where
  "fillMask w =
     rbind (rfold (\<lambda>i. vec_set 106 i True) [0..<mSize w] (mMask w)) (\<lambda>m. Inr (w\<lparr>mMask := m\<rparr>))"

definition getMask :: "WriteMask \<Rightarrow> nat \<Rightarrow> nat \<Rightarrow> bool res" where
  "getMask w offset len =
     asrt WriteMask_hh 114 (mSize w \<ge> offset + len)
       (rfold (\<lambda>i tmp. rbind (vec_at 116 (mMask w) (offset + i)) (\<lambda>b. Inr (tmp \<and> b))) [0..<len] True)"

definition isOverlap :: "WriteMask \<Rightarrow> WriteMask \<Rightarrow> bool res" where
  "isOverlap w readMask =
     asrt WriteMask_hh 125 (mSize w = mSize readMask)
       (rfold (\<lambda>i tmp. rbind (vec_at 127 (mMask readMask) i)
          (\<lambda>r. if r then rbind (vec_at 128 (mMask w) i) (\<lambda>b. Inr (tmp \<or> b)) else Inr tmp))
         [0..<mSize w] False)"

definition containsMask :: "WriteMask \<Rightarrow> WriteMask \<Rightarrow> bool res" where
  "containsMask w readMask =
     asrt WriteMask_hh 138 (mSize w = mSize readMask)
       (rfold (\<lambda>i tmp. rbind (vec_at 140 (mMask readMask) i)
          (\<lambda>r. if r then rbind (vec_at 141 (mMask w) i) (\<lambda>b. Inr (tmp \<and> b)) else Inr tmp))
         [0..<mSize w] True)"

text \<open>The scans of \<^verbatim>\<open>isEmpty\<close> and \<^verbatim>\<open>isFull\<close> stop at the first bit of the other value.\<close>

fun scan_all :: "nat \<Rightarrow> bool \<Rightarrow> bool list \<Rightarrow> nat list \<Rightarrow> bool res" where
  "scan_all line val m [] = Inr True"
| "scan_all line val m (i # is) =
     rbind (vec_at line m i) (\<lambda>b. if b \<noteq> val then Inr False else scan_all line val m is)"

definition isEmpty :: "WriteMask \<Rightarrow> bool res" where
  "isEmpty w = scan_all 150 False (mMask w) [0..<mSize w]"

definition isFull :: "WriteMask \<Rightarrow> bool res" where
  "isFull w = scan_all 161 True (mMask w) [0..<mSize w]"

definition take_atomic :: "WriteMask \<Rightarrow> WriteMask \<Rightarrow> WriteMask" where
  "take_atomic writeMask w =
     (if mAtomic writeMask then w\<lparr>mAtomic := True, mAtomicOp := mAtomicOp writeMask\<rparr> else w)"

definition zip_mask :: "nat \<Rightarrow> (bool \<Rightarrow> bool \<Rightarrow> bool) \<Rightarrow> nat \<Rightarrow> bool list \<Rightarrow> bool list \<Rightarrow> bool list res" where
  "zip_mask line f n other m =
     rfold (\<lambda>i m. rbind (vec_at line m i) (\<lambda>a. rbind (vec_at line other i)
       (\<lambda>b. vec_set line i (f a b) m))) [0..<n] m"

definition andMask :: "WriteMask \<Rightarrow> WriteMask \<Rightarrow> WriteMask res" where
  "andMask w writeMask =
     asrt WriteMask_hh 171 (mSize w = mSize writeMask)
       (rbind (zip_mask 173 (\<and>) (mSize w) (mMask writeMask) (mMask w))
         (\<lambda>m. Inr (take_atomic writeMask (w\<lparr>mMask := m\<rparr>))))"

definition orMask :: "WriteMask \<Rightarrow> WriteMask \<Rightarrow> WriteMask res" where
  "orMask w writeMask =
     asrt WriteMask_hh 185 (mSize w = mSize writeMask)
       (rbind (zip_mask 187 (\<or>) (mSize w) (mMask writeMask) (mMask w))
         (\<lambda>m. Inr (take_atomic writeMask (w\<lparr>mMask := m\<rparr>))))"

definition setInvertedMask :: "WriteMask \<Rightarrow> WriteMask \<Rightarrow> WriteMask res" where
  "setInvertedMask w writeMask =
     asrt WriteMask_hh 199 (mSize w = mSize writeMask)
       (rbind (rfold (\<lambda>i m. rbind (vec_at 201 (mMask writeMask) i) (\<lambda>b. vec_set 201 i (\<not> b) m))
            [0..<mSize w] (mMask w))
         (\<lambda>m. Inr (w\<lparr>mMask := m\<rparr>)))"

fun scan_first :: "bool \<Rightarrow> bool list \<Rightarrow> nat \<Rightarrow> nat list \<Rightarrow> nat res" where
  "scan_first val m dflt [] = Inr dflt"
| "scan_first val m dflt (i # is) =
     rbind (vec_get 209 m i) (\<lambda>b. if b = val then Inr i else scan_first val m dflt is)"

definition firstBitSet :: "WriteMask \<Rightarrow> bool \<Rightarrow> nat \<Rightarrow> nat res" where
  "firstBitSet w val offset = scan_first val (mMask w) (mSize w) [offset..<mSize w]"

definition wm_count :: "WriteMask \<Rightarrow> nat \<Rightarrow> nat res" where
  "wm_count w offset =
     rfold (\<lambda>i count. rbind (vec_get 219 (mMask w) i) (\<lambda>b. Inr (count + of_bool b)))
       [offset..<mSize w] 0"

definition apply_at :: "nat \<Rightarrow> atomic_op \<Rightarrow> byte list \<Rightarrow> byte list" where
  "apply_at offset f p = take offset p @ f (drop offset p)"

definition performAtomic :: "WriteMask \<Rightarrow> byte list \<Rightarrow> byte list" where
  "performAtomic w p = fold (\<lambda>(offset, f). apply_at offset f) (mAtomicOp w) p"

definition setAtomicOps :: "(nat \<times> atomic_op) list \<Rightarrow> WriteMask \<Rightarrow> WriteMask" where
  "setAtomicOps ops w = w\<lparr>mAtomic := True, mAtomicOp := ops\<rparr>"

section \<open>Data blocks\<close>

text \<open>
  A block is the list of its bytes. Reads and writes beyond it are undefined in C++.
\<close>

type_synonym DataBlock = "byte list"

definition db_alloc :: "nat \<Rightarrow> DataBlock" where
  "db_alloc blockBytes = replicate blockBytes 0"

definition db_clear :: "nat \<Rightarrow> DataBlock \<Rightarrow> DataBlock" where
  "db_clear blockBytes d = replicate blockBytes 0 @ drop blockBytes d"

definition db_equal :: "nat \<Rightarrow> DataBlock \<Rightarrow> DataBlock \<Rightarrow> bool" where
  "db_equal blockBytes d obj = (take blockBytes d = take blockBytes obj)"

definition db_assign :: "nat \<Rightarrow> DataBlock \<Rightarrow> DataBlock \<Rightarrow> DataBlock" where
  "db_assign blockBytes d obj = take blockBytes obj @ drop blockBytes d"

definition getByte :: "DataBlock \<Rightarrow> nat \<Rightarrow> byte res" where
  "getByte d whichByte =
     (if whichByte < length d then Inr (d ! whichByte) else Inl (UndefinedAt DataBlock_hh 117))"

definition setByte :: "nat \<Rightarrow> byte \<Rightarrow> DataBlock \<Rightarrow> DataBlock res" where
  "setByte whichByte b d =
     (if whichByte < length d then Inr (d[whichByte := b]) else Inl (UndefinedAt DataBlock_hh 123))"

definition getData :: "nat \<Rightarrow> DataBlock \<Rightarrow> nat \<Rightarrow> nat \<Rightarrow> byte list res" where
  "getData blockBytes d offset len =
     asrt DataBlock_cc 170 (offset + len \<le> blockBytes) (Inr (take len (drop offset d)))"

definition setData :: "byte list \<Rightarrow> nat \<Rightarrow> nat \<Rightarrow> DataBlock \<Rightarrow> DataBlock res" where
  "setData src offset len d =
     (if offset + len \<le> length d \<and> len \<le> length src
      then Inr (take offset d @ take len src @ drop (offset + len) d)
      else Inl (UndefinedAt DataBlock_cc 183))"

definition copyPartial_range :: "DataBlock \<Rightarrow> nat \<Rightarrow> nat \<Rightarrow> DataBlock \<Rightarrow> DataBlock res" where
  "copyPartial_range dblk offset len d = setData (drop offset dblk) offset len d"

fun comparePartial_from :: "DataBlock \<Rightarrow> DataBlock \<Rightarrow> WriteMask \<Rightarrow> nat list \<Rightarrow> bool res" where
  "comparePartial_from d dblk w [] = Inr True"
| "comparePartial_from d dblk w (i # is) =
     rbind (getMask w i 1) (\<lambda>sel.
       if sel then rbind (getByte d i) (\<lambda>a. rbind (getByte dblk i) (\<lambda>b.
         if a \<noteq> b then Inr False else comparePartial_from d dblk w is))
       else comparePartial_from d dblk w is)"

definition comparePartial :: "nat \<Rightarrow> DataBlock \<Rightarrow> DataBlock \<Rightarrow> WriteMask \<Rightarrow> bool res" where
  "comparePartial blockBytes d dblk w = comparePartial_from d dblk w [0..<blockBytes]"

definition copyPartial :: "nat \<Rightarrow> DataBlock \<Rightarrow> WriteMask \<Rightarrow> DataBlock \<Rightarrow> DataBlock res" where
  "copyPartial blockBytes dblk w d =
     rfold (\<lambda>i d. rbind (getMask w i 1) (\<lambda>sel.
       if sel then rbind (getByte dblk i) (\<lambda>b. setByte i b d) else Inr d)) [0..<blockBytes] d"

definition atomicPartial :: "nat \<Rightarrow> DataBlock \<Rightarrow> WriteMask \<Rightarrow> DataBlock \<Rightarrow> DataBlock res" where
  "atomicPartial blockBytes dblk w d =
     rbind (rfold (\<lambda>i d. rbind (getByte dblk i) (\<lambda>b. setByte i b d)) [0..<blockBytes] d)
       (\<lambda>d. Inr (performAtomic w d))"

section \<open>Masks as sets of offsets\<close>

definition mask_ok :: "WriteMask \<Rightarrow> bool" where
  "mask_ok w \<longleftrightarrow> length (mMask w) = mSize w"

definition mask_set :: "WriteMask \<Rightarrow> nat set" where
  "mask_set w = {i. i < mSize w \<and> mMask w ! i}"

lemma rfold_upt_update:
  assumes "\<And>i v. i < n \<Longrightarrow> length v = l \<Longrightarrow> f i v = Inr (if P i (v ! i) then v[i := g i (v ! i)] else v)"
    and "length v = l" and "n \<le> l"
  shows "rfold f [0..<n] v =
    Inr (map (\<lambda>i. if i < n \<and> P i (v ! i) then g i (v ! i) else v ! i) [0..<l])"
  using assms
proof (induction n)
  case 0
  then show ?case by (auto intro: nth_equalityI)
next
  case (Suc n)
  let ?u = "map (\<lambda>i. if i < n \<and> P i (v ! i) then g i (v ! i) else v ! i) [0..<l]"
  let ?w = "map (\<lambda>i. if i < Suc n \<and> P i (v ! i) then g i (v ! i) else v ! i) [0..<l]"
  have "rfold f [0..<n] v = Inr ?u" using Suc by simp
  moreover have "f n ?u = Inr ?w"
  proof -
    have n: "?u ! n = v ! n" using Suc.prems(3) by simp
    have "(if P n (v ! n) then ?u[n := g n (v ! n)] else ?u) = ?w"
      using Suc.prems(3)
      by (cases "P n (v ! n)") (auto intro!: nth_equalityI simp: nth_list_update less_Suc_eq)
    then show ?thesis using Suc.prems(1) [of n ?u] unfolding n by simp
  qed
  ultimately show ?case by simp
qed


lemma vec_simps:
  "i < length v \<Longrightarrow> vec_at line v i = Inr (v ! i)"
  "i < length v \<Longrightarrow> vec_get line v i = Inr (v ! i)"
  "i < length v \<Longrightarrow> vec_set line i b v = Inr (v[i := b])"
  by (simp_all add: vec_at_def vec_get_def vec_set_def)

lemma rfold_conj:
  "(\<And>i. i \<in> set xs \<Longrightarrow> \<forall>tmp. f i tmp = Inr (tmp \<and> Q i)) \<Longrightarrow>
     rfold f xs t = Inr (t \<and> (\<forall>i \<in> set xs. Q i))"
  by (induction xs arbitrary: t) auto

lemma rfold_disj:
  "(\<And>i. i \<in> set xs \<Longrightarrow> \<forall>tmp. f i tmp = Inr (tmp \<or> Q i)) \<Longrightarrow>
     rfold f xs t = Inr (t \<or> (\<exists>i \<in> set xs. Q i))"
  by (induction xs arbitrary: t) auto

lemma ball_shift: "(\<forall>j \<in> {k..<k + n}. P j) \<longleftrightarrow> (\<forall>i < n. P (k + i))" for k n :: nat
proof safe
  fix j assume all: "\<forall>i < n. P (k + i)" and j: "j \<in> {k..<k + n}"
  have "j - k < n" using j by auto
  with all have "P (k + (j - k))" by blast
  with j show "P j" by simp
qed simp

lemma getMask_eq:
  assumes "mask_ok w" and "offset + len \<le> mSize w"
  shows "getMask w offset len = Inr ({offset..<offset + len} \<subseteq> mask_set w)"
proof -
  have "getMask w offset len = Inr (True \<and> (\<forall>i \<in> set [0..<len]. mMask w ! (offset + i)))"
    unfolding getMask_def using assms
    by (intro asrt_run rfold_conj) (auto simp: mask_ok_def vec_simps)
  moreover have "{offset..<offset + len} \<subseteq> mask_set w \<longleftrightarrow> (\<forall>i \<in> set [0..<len]. mMask w ! (offset + i))"
    using assms(2) by (auto simp: mask_set_def subset_eq ball_shift)
  ultimately show ?thesis by simp
qed

lemma getMask_byte:
  "mask_ok w \<Longrightarrow> i < mSize w \<Longrightarrow> getMask w i 1 = Inr (i \<in> mask_set w)"
  by (subst getMask_eq) auto

lemma isOverlap_eq:
  assumes "mask_ok w" and "mask_ok r" and "mSize w = mSize r"
  shows "isOverlap w r = Inr (mask_set w \<inter> mask_set r \<noteq> {})"
proof -
  have "isOverlap w r = Inr (False \<or> (\<exists>i \<in> set [0..<mSize w]. mMask r ! i \<and> mMask w ! i))"
    unfolding isOverlap_def using assms
    by (intro asrt_run rfold_disj) (auto simp: mask_ok_def vec_simps)
  then show ?thesis using assms(3) by (auto simp: mask_set_def)
qed

lemma containsMask_eq:
  assumes "mask_ok w" and "mask_ok r" and "mSize w = mSize r"
  shows "containsMask w r = Inr (mask_set r \<subseteq> mask_set w)"
proof -
  have "containsMask w r = Inr (True \<and> (\<forall>i \<in> set [0..<mSize w]. mMask r ! i \<longrightarrow> mMask w ! i))"
    unfolding containsMask_def using assms
    by (intro asrt_run rfold_conj) (auto simp: mask_ok_def vec_simps)
  then show ?thesis using assms(3) by (auto simp: mask_set_def)
qed

lemma setMask_eq:
  assumes "mask_ok w" and "offset + len \<le> mSize w"
  shows "\<exists>w'. setMask offset len val w = Inr w' \<and> mask_ok w' \<and> mSize w' = mSize w \<and>
    mask_set w' = (if val then mask_set w \<union> {offset..<offset + len} else mask_set w - {offset..<offset + len})"
proof -
  have run: "rfold (\<lambda>i. vec_set 99 (offset + i) val) [0..<len] v =
      Inr (map (\<lambda>i. if offset \<le> i \<and> i < offset + len then val else v ! i) [0..<length v])"
    if "offset + len \<le> length v" for v :: "bool list"
    using that
  proof (induction len)
    case 0
    show ?case by (simp, rule nth_equalityI) auto
  next
    case (Suc n)
    then show ?case
      by (auto simp: vec_simps less_Suc_eq nth_list_update intro!: nth_equalityI)
  qed
  show ?thesis
    using assms run [of "mMask w"]
    by (auto simp: setMask_def asrt_def mask_ok_def mask_set_def)
qed

lemma zip_mask_eq:
  assumes "length m = n" and "length other = n"
  shows "zip_mask line f n other m = Inr (map (\<lambda>i. f (m ! i) (other ! i)) [0..<n])"
proof -
  have "zip_mask line f n other m =
      Inr (map (\<lambda>i. if i < n \<and> True then f (m ! i) (other ! i) else m ! i) [0..<n])"
    unfolding zip_mask_def
    by (rule rfold_upt_update) (use assms in \<open>auto simp: vec_simps\<close>)
  then show ?thesis by (auto intro!: nth_equalityI)
qed

lemma andMask_eq:
  assumes "mask_ok w" and "mask_ok o'" and "mSize w = mSize o'"
  shows "\<exists>w'. andMask w o' = Inr w' \<and> mask_ok w' \<and> mSize w' = mSize w \<and>
    mask_set w' = mask_set w \<inter> mask_set o'"
  using assms zip_mask_eq [of "mMask w" "mSize w" "mMask o'"]
  by (auto simp: andMask_def asrt_def mask_ok_def mask_set_def take_atomic_def)

lemma orMask_eq:
  assumes "mask_ok w" and "mask_ok o'" and "mSize w = mSize o'"
  shows "\<exists>w'. orMask w o' = Inr w' \<and> mask_ok w' \<and> mSize w' = mSize w \<and>
    mask_set w' = mask_set w \<union> mask_set o'"
  using assms zip_mask_eq [of "mMask w" "mSize w" "mMask o'"]
  by (auto simp: orMask_def asrt_def mask_ok_def mask_set_def take_atomic_def)

lemma setInvertedMask_eq:
  assumes "mask_ok w" and "mask_ok o'" and "mSize w = mSize o'"
  shows "\<exists>w'. setInvertedMask w o' = Inr w' \<and> mask_ok w' \<and> mask_set w' = {..<mSize w} - mask_set o'"
proof -
  have "rfold (\<lambda>i m. rbind (vec_at 201 (mMask o') i) (\<lambda>b. vec_set 201 i (\<not> b) m)) [0..<mSize w] (mMask w)
    = Inr (map (\<lambda>i. if i < mSize w \<and> True then \<not> mMask o' ! i else mMask w ! i) [0..<mSize w])"
    by (rule rfold_upt_update) (use assms in \<open>auto simp: vec_simps mask_ok_def\<close>)
  then show ?thesis
    using assms by (auto simp: setInvertedMask_def asrt_def mask_ok_def mask_set_def)
qed

lemma scan_all_eq:
  "\<forall>i \<in> set is. i < length m \<Longrightarrow> scan_all line val m is = Inr (\<forall>i \<in> set is. m ! i = val)"
  by (induction "is") (auto simp: vec_simps)

lemma isEmpty_eq: "mask_ok w \<Longrightarrow> isEmpty w = Inr (mask_set w = {})"
  using scan_all_eq [of "[0..<mSize w]" "mMask w"]
  by (simp add: isEmpty_def mask_ok_def mask_set_def Ball_def)

lemma isFull_eq: "mask_ok w \<Longrightarrow> isFull w = Inr (mask_set w = {..<mSize w})"
  using scan_all_eq [of "[0..<mSize w]" "mMask w"]
  by (simp add: isFull_def mask_ok_def mask_set_def Ball_def set_eq_iff) blast

lemma scan_first_upt:
  assumes "n \<le> length m"
  shows "\<exists>r. scan_first val m n [k..<n] = Inr r \<and> r \<le> n
    \<and> (\<forall>i \<in> {k..<r}. m ! i \<noteq> val) \<and> (r < n \<longrightarrow> k \<le> r \<and> m ! r = val)"
proof (induction "n - k" arbitrary: k)
  case 0
  then show ?case by auto
next
  case (Suc d)
  then have k: "[k..<n] = k # [Suc k..<n]" "k < length m" "k < n"
    using assms by (auto simp: upt_conv_Cons)
  show ?case
  proof (cases "m ! k = val")
    case True
    with k show ?thesis by (intro exI [of _ k]) (simp add: vec_simps)
  next
    case False
    have "d = n - Suc k" using Suc.hyps(2) by simp
    from Suc.hyps(1) [OF this] obtain r where r: "scan_first val m n [Suc k..<n] = Inr r" "r \<le> n"
      "\<forall>i \<in> {Suc k..<r}. m ! i \<noteq> val" "r < n \<longrightarrow> Suc k \<le> r \<and> m ! r = val" by blast
    have "\<forall>i \<in> {k..<r}. m ! i \<noteq> val"
      using r(3) False by (metis atLeastLessThan_iff le_neq_implies_less Suc_leI)
    moreover have "r < n \<longrightarrow> k \<le> r" using r(4) by linarith
    ultimately show ?thesis using r k False by (intro exI [of _ r]) (simp add: vec_simps)
  qed
qed

lemma firstBitSet_first:
  assumes "mask_ok w"
  shows "\<exists>r. firstBitSet w val offset = Inr r \<and> r \<le> mSize w
    \<and> (\<forall>i \<in> {offset..<r}. mMask w ! i \<noteq> val) \<and> (r < mSize w \<longrightarrow> offset \<le> r \<and> mMask w ! r = val)"
  using assms scan_first_upt [of "mSize w" "mMask w" val offset]
  by (simp add: mask_ok_def firstBitSet_def)

lemma copyPartial_eq:
  assumes "mask_ok w" and "mSize w = n" and "length d = n" and "length dblk = n"
  shows "copyPartial n dblk w d = Inr (map (\<lambda>i. if i \<in> mask_set w then dblk ! i else d ! i) [0..<n])"
proof -
  have "copyPartial n dblk w d =
      Inr (map (\<lambda>i. if i < n \<and> i \<in> mask_set w then dblk ! i else d ! i) [0..<n])"
    unfolding copyPartial_def
    by (rule rfold_upt_update [where P = "\<lambda>i _. i \<in> mask_set w"])
      (use assms in \<open>auto simp: getMask_byte [OF assms(1), unfolded One_nat_def] getByte_def setByte_def\<close>)
  then show ?thesis by (auto intro!: nth_equalityI)
qed

lemma comparePartial_eq:
  assumes "mask_ok w" and "mSize w = n" and "length d = n" and "length dblk = n"
  shows "comparePartial n d dblk w = Inr (\<forall>i \<in> mask_set w. d ! i = dblk ! i)"
proof -
  have run: "comparePartial_from d dblk w is = Inr (\<forall>i \<in> set is \<inter> mask_set w. d ! i = dblk ! i)"
    if "set is \<subseteq> {..<n}" for "is"
    using that assms
    by (induction "is") (auto simp: getMask_byte [OF assms(1), unfolded One_nat_def] getByte_def)
  have "{0..<n} \<inter> mask_set w = mask_set w"
    using assms(2) by (auto simp: mask_set_def)
  then show ?thesis
    using run [of "[0..<n]"] by (simp add: comparePartial_def atLeast0LessThan)
qed

lemma setData_nth:
  assumes "offset + len \<le> length d" and "len \<le> length src"
  shows "\<exists>d'. setData src offset len d = Inr d' \<and> length d' = length d
    \<and> (\<forall>i < length d. d' ! i = (if offset \<le> i \<and> i < offset + len then src ! (i - offset) else d ! i))"
  using assms by (auto simp: setData_def nth_append min_def)

section \<open>Properties of masks and blocks\<close>

text \<open>
  C26. The mask operations compute on sets of byte offsets: setting a range is union or difference
  with the interval, conjunction and disjunction of masks are intersection and union, and the
  queries are disjointness, inclusion and the test of a whole interval.
\<close>

theorem WriteMask_refines_sets:
  assumes "mask_ok w" and "mask_ok r" and "mSize w = mSize r" and "offset + len \<le> mSize w"
  shows "\<exists>s a b. setMask offset len val w = Inr s \<and> andMask w r = Inr a \<and> orMask w r = Inr b
    \<and> mask_set s = (if val then mask_set w \<union> {offset..<offset + len}
                    else mask_set w - {offset..<offset + len})
    \<and> mask_set a = mask_set w \<inter> mask_set r \<and> mask_set b = mask_set w \<union> mask_set r
    \<and> isOverlap w r = Inr (mask_set w \<inter> mask_set r \<noteq> {})
    \<and> containsMask w r = Inr (mask_set r \<subseteq> mask_set w)
    \<and> getMask w offset len = Inr ({offset..<offset + len} \<subseteq> mask_set w)"
  using setMask_eq [OF assms(1,4), of val] andMask_eq [OF assms(1-3)] orMask_eq [OF assms(1-3)]
    isOverlap_eq [OF assms(1-3)] containsMask_eq [OF assms(1-3)] getMask_eq [OF assms(1,4)]
  by auto

theorem WriteMask_refines_sets_witness:
  "let w = WriteMask_vec 4 [True, False, True, False]; r = WriteMask_vec 4 [False, False, True, True]
   in mask_ok w \<and> mask_ok r \<and>
      (\<exists>s a b. setMask 1 2 True w = Inr s \<and> andMask w r = Inr a \<and> orMask w r = Inr b
         \<and> mask_set s = mask_set w \<union> {1..<1 + 2} \<and> mask_set a = mask_set w \<inter> mask_set r
         \<and> mask_set b = mask_set w \<union> mask_set r)"
  using WriteMask_refines_sets [of "WriteMask_vec 4 [True, False, True, False]"
      "WriteMask_vec 4 [False, False, True, True]" 1 2 True]
  by (auto simp: mask_ok_def WriteMask_vec_def)

text \<open>
  C27. A masked copy makes the two blocks agree on the mask, as the masked comparison confirms,
  and leaves every byte outside the mask as it was.
\<close>

theorem copyPartial_comparePartial:
  assumes "mask_ok w" and "mSize w = n" and "length d = n" and "length dblk = n"
  shows "\<exists>d'. copyPartial n dblk w d = Inr d' \<and> length d' = n \<and> comparePartial n d' dblk w = Inr True
    \<and> (\<forall>i < n. i \<notin> mask_set w \<longrightarrow> d' ! i = d ! i)"
proof -
  let ?d = "map (\<lambda>i. if i \<in> mask_set w then dblk ! i else d ! i) [0..<n]"
  have "comparePartial n ?d dblk w = Inr True"
    using comparePartial_eq [OF assms(1,2), of ?d dblk] assms(2,4) by (auto simp: mask_set_def)
  then show ?thesis using copyPartial_eq [OF assms] by simp
qed

theorem copyPartial_comparePartial_witness:
  "\<exists>d'. copyPartial 3 [7, 8, 9] (WriteMask_vec 3 [True, False, True]) [1, 2, 3] = Inr d' \<and> length d' = 3
    \<and> comparePartial 3 d' [7, 8, 9] (WriteMask_vec 3 [True, False, True]) = Inr True"
  using copyPartial_comparePartial [of "WriteMask_vec 3 [True, False, True]" 3 "[1, 2, 3]" "[7, 8, 9]"]
  by (auto simp: mask_ok_def WriteMask_vec_def)

end
