(* ===== verification/Lazy_Version.thy ===== *)
theory Lazy_Version
  imports Htm_Policy Ruby_Data
begin

text \<open>
  \<^verbatim>\<open>mem/ruby/htm/LazyTransactionVersionManager.cc\<close>: the write buffer of a transaction with lazy
  version management. Stores are kept byte by byte until commit, loads see them on top of the
  cache, and commit writes the buffered blocks to the cache with a bounded number of
  outstanding requests. Whether the sequencer accepts the request for a block
  (\<^verbatim>\<open>makeRequest\<close> returning \<^verbatim>\<open>RequestStatus_Issued\<close>) is an argument of the flush.
\<close>

section \<open>State and operations\<close>

datatype WriteBufferBlockStatus = Pending | Issued | Cancelled

record lazyvm =
  m_readBytes :: "(addr, bool) smap"
  m_writtenBytes :: "(addr, bool) smap"
  m_numReadBytesWrittenRemotely :: int
  m_numWrittenBytesWrittenRemotely :: int
  m_writeBuffer :: "(addr, byte) smap"
  m_writeBufferBlocks :: "(addr, WriteBufferBlockStatus) smap"
  m_committed :: bool
  m_committing :: bool
  m_flushPending :: bool
  m_lazyAborting :: bool
  m_issuedWriteBufferRequest :: nat
  m_requestorID :: "nat option"
  m_currentHtmUid :: nat

text \<open>
  The constructor leaves the two profiling counters unset: they are arguments. An invalid
  requestor is \<open>None\<close>.
\<close>

definition lazyvm_init :: "int \<Rightarrow> int \<Rightarrow> lazyvm" where
  "lazyvm_init r w = \<lparr>m_readBytes = [], m_writtenBytes = [], m_numReadBytesWrittenRemotely = r,
     m_numWrittenBytesWrittenRemotely = w, m_writeBuffer = [], m_writeBufferBlocks = [],
     m_committed = False, m_committing = False, m_flushPending = False, m_lazyAborting = False,
     m_issuedWriteBufferRequest = 0, m_requestorID = None, m_currentHtmUid = 0\<rparr>"

definition lazy_begin :: "nat \<Rightarrow> nat \<Rightarrow> lazyvm \<Rightarrow> lazyvm res" where
  "lazy_begin requestorId uid s =
     asrt LVM_cc 53 (uid > m_currentHtmUid s)
       (asrt LVM_cc 55 (\<not> m_lazyAborting s)
         (Inr (s\<lparr>m_committed := False, m_committing := False, m_requestorID := Some requestorId,
                 m_currentHtmUid := uid\<rparr>)))"

definition discardWriteBuffer :: "nat \<Rightarrow> lazyvm \<Rightarrow> lazyvm res" where
  "discardWriteBuffer level s =
     asrt LVM_cc 426 (level = 1) (Inr (s\<lparr>m_writeBuffer := [], m_writeBufferBlocks := []\<rparr>))"

definition lazy_restart :: "nat \<Rightarrow> lazyvm \<Rightarrow> lazyvm res" where
  "lazy_restart level s =
     asrt LVM_cc 61 (level = 1)
       (asrt LVM_cc (if m_committing s then 64 else 67) (m_lazyAborting s = m_committing s)
         (let s1 = s\<lparr>m_committing := False, m_committed := False, m_lazyAborting := False\<rparr> in
          asrt LVM_cc 72 (m_issuedWriteBufferRequest s1 = 0)
            (rbind (discardWriteBuffer level s1) (\<lambda>s2.
              Inr (s2\<lparr>m_readBytes := [], m_writtenBytes := [],
                      m_numReadBytesWrittenRemotely := 0, m_numWrittenBytesWrittenRemotely := 0\<rparr>)))))"

definition notifyCommittedTransaction :: "nat \<Rightarrow> lazyvm \<Rightarrow> lazyvm res" where
  "notifyCommittedTransaction level s =
     asrt LVM_cc 84 (level = 1) (asrt LVM_cc 86 (m_committed s) (asrt LVM_cc 87 (m_committing s)
       (asrt LVM_cc 88 (\<not> m_lazyAborting s)
         (let s1 = s\<lparr>m_committing := False, m_committed := False\<rparr> in
          asrt LVM_cc 91 (m_issuedWriteBufferRequest s1 = 0)
            (asrt LVM_cc 92 (m_writeBufferBlocks s1 = []) (asrt LVM_cc 93 (m_writeBuffer s1 = [])
              (Inr (s1\<lparr>m_readBytes := [], m_writtenBytes := [],
                      m_numReadBytesWrittenRemotely := 0, m_numWrittenBytesWrittenRemotely := 0\<rparr>))))))))"

definition existInWriteBuffer :: "nat \<Rightarrow> lazyvm \<Rightarrow> addr \<Rightarrow> bool res" where
  "existInWriteBuffer level s addr =
     asrt LVM_cc 138 (level = 1) (Inr (smap_find (m_writeBuffer s) addr \<noteq> None))"

definition getDataFromWriteBuffer :: "nat \<Rightarrow> lazyvm \<Rightarrow> addr \<Rightarrow> byte res" where
  "getDataFromWriteBuffer level s addr =
     asrt LVM_cc 147 (level = 1)
       (case smap_find (m_writeBuffer s) addr of
          None \<Rightarrow> Inl (AssertFail LVM_cc 148) | Some b \<Rightarrow> Inr b)"

fun write_bytes :: "addr \<Rightarrow> byte list \<Rightarrow> (addr, byte) smap \<Rightarrow> (addr, byte) smap" where
  "write_bytes a [] m = m"
| "write_bytes a (b # bs) m = write_bytes (a + 1) bs (smap_assign a b m)"

text \<open>
  The size of the store is the number of bytes handed over. The switch on the size only
  feeds a trace message, but panics on a size that is not 1, 2, 4 or 8.
\<close>

definition addToWriteBuffer :: "htm_params \<Rightarrow> nat \<Rightarrow> addr \<Rightarrow> byte list \<Rightarrow> lazyvm \<Rightarrow> lazyvm res" where
  "addToWriteBuffer c level addr bs s =
     (let bb = block_size_bits c; sz = length bs in
      asrt LVM_cc 157 (level = 1)
        (let s1 = s\<lparr>m_writeBuffer := write_bytes addr bs (m_writeBuffer s)\<rparr> in
         asrt LVM_cc 163 (makeLineAddress bb addr = makeLineAddress bb (addr + of_nat sz - 1))
           (let s2 = s1\<lparr>m_writeBufferBlocks :=
                          smap_assign (makeLineAddress bb addr) Pending (m_writeBufferBlocks s1)\<rparr> in
            if sz \<in> {1, 2, 4, 8} then Inr s2 else Inl (PanicAt LVM_cc 182))))"

text \<open>
  \<open>forwardData\<close> returns the bytes, whether any came from the write buffer, and the state with the
  bytes read recorded. The local array \<^verbatim>\<open>buffer\<close> has 64 entries.
\<close>

fun forward_bytes :: "htm_params \<Rightarrow> nat \<Rightarrow> addr \<Rightarrow> nat \<Rightarrow> nat \<Rightarrow> DataBlock \<Rightarrow> lazyvm
    \<Rightarrow> byte list \<Rightarrow> bool \<Rightarrow> (byte list \<times> bool \<times> lazyvm) res" where
  "forward_bytes c level addr i 0 blk s acc fwd = Inr (acc, fwd, s)"
| "forward_bytes c level addr i (Suc n) blk s acc fwd =
     (let a = addr + of_nat i; bb = block_size_bits c in
      rbind (existInWriteBuffer level s a) (\<lambda>present.
        rbind (if present then getDataFromWriteBuffer level s a
               else rbind (getOffset bb a) (\<lambda>off.
                 rbind (getData (getBlockSizeBytes bb) blk (unat off) 1) (\<lambda>p.
                   case p of [] \<Rightarrow> Inl (UndefinedAt LVM_cc 214) | b # _ \<Rightarrow> Inr b)))
          (\<lambda>b. if i \<ge> 64 then Inl (UndefinedAt LVM_cc 216)
               else forward_bytes c level addr (Suc i) n blk
                 (s\<lparr>m_readBytes := smap_assign a False (m_readBytes s)\<rparr>) (acc @ [b]) (fwd \<or> present))))"

definition lazy_forwardData :: "htm_params \<Rightarrow> nat \<Rightarrow> addr \<Rightarrow> nat \<Rightarrow> DataBlock \<Rightarrow> lazyvm
    \<Rightarrow> (byte list \<times> bool \<times> lazyvm) res" where
  "lazy_forwardData c level addr sz cacheBlock s =
     (if level = 0 then Inr ([], False, s)
      else forward_bytes c level addr 0 sz cacheBlock s [] False)"

text \<open>
  The loop of \<open>flushWriteBuffer\<close> walks the blocks in address order. It stops once the commit width
  is reached, and goes on to the next block when the sequencer refuses one.
\<close>

fun flush_blocks :: "htm_params \<Rightarrow> (addr \<Rightarrow> bool) \<Rightarrow> (addr, WriteBufferBlockStatus) smap \<Rightarrow> lazyvm \<Rightarrow> lazyvm res" where
  "flush_blocks c issue [] s = Inr s"
| "flush_blocks c issue ((addr, status) # rest) s =
     (if m_issuedWriteBufferRequest s = lazy_commit_width c then Inr (s\<lparr>m_flushPending := True\<rparr>)
      else if status = Pending then
        asrt LVM_cc 286 (m_requestorID s \<noteq> None)
          (if \<not> issue addr then flush_blocks c issue rest (s\<lparr>m_flushPending := True\<rparr>)
           else flush_blocks c issue rest
             (s\<lparr>m_writeBufferBlocks := smap_assign addr Issued (m_writeBufferBlocks s),
                m_issuedWriteBufferRequest := m_issuedWriteBufferRequest s + 1\<rparr>))
      else flush_blocks c issue rest s)"

text \<open>The final loop of the source only looks for an issued block and returns either way.\<close>

definition flushWriteBuffer :: "htm_params \<Rightarrow> nat \<Rightarrow> (addr \<Rightarrow> bool) \<Rightarrow> lazyvm \<Rightarrow> lazyvm res" where
  "flushWriteBuffer c level issue s =
     asrt LVM_cc 263 (level = 1)
       (asrt LVM_cc 264 (\<not> m_lazyAborting s)
         (if m_writeBufferBlocks s = [] then
            asrt LVM_cc 268 (m_issuedWriteBufferRequest s = 0) (Inr (s\<lparr>m_committed := True\<rparr>))
          else flush_blocks c issue (m_writeBufferBlocks s) s))"

definition merge_bytes :: "htm_params \<Rightarrow> addr \<Rightarrow> (addr, byte) smap \<Rightarrow> DataBlock \<Rightarrow> DataBlock res" where
  "merge_bytes c address wb d =
     rfold (\<lambda>i d. case smap_find wb (address + of_nat i) of
         None \<Rightarrow> Inr d
       | Some val \<Rightarrow> rbind (getOffset (block_size_bits c) (address + of_nat i))
           (\<lambda>offset. setData [val] (unat offset) 1 d))
       [0..<getBlockSizeBytes (block_size_bits c)] d"

definition mergeDataFromWriteBuffer ::
    "htm_params \<Rightarrow> nat \<Rightarrow> (addr \<Rightarrow> bool) \<Rightarrow> addr \<Rightarrow> DataBlock \<Rightarrow> lazyvm \<Rightarrow> (DataBlock \<times> lazyvm) res" where
  "mergeDataFromWriteBuffer c level issue address d s =
     asrt LVM_cc 329 (level = 1)
       (asrt LVM_cc 332 (smap_find (m_writeBufferBlocks s) address \<noteq> None)
         (asrt LVM_cc 336 (smap_find (m_writeBufferBlocks s) address = Some Issued)
           (asrt LVM_cc 341 (address = makeLineAddress (block_size_bits c) address)
             (rbind (merge_bytes c address (m_writeBuffer s) d) (\<lambda>d'.
               let s1 = s\<lparr>m_writeBufferBlocks := smap_erase address (m_writeBufferBlocks s),
                          m_issuedWriteBufferRequest := m_issuedWriteBufferRequest s - 1\<rparr> in
               if m_writeBufferBlocks s1 = [] then
                 Inr (d', s1\<lparr>m_committed := True, m_writeBuffer := []\<rparr>)
               else if m_lazyAborting s1 then Inr (d', s1)
               else if m_flushPending s1 then
                 rbind (flushWriteBuffer c level issue (s1\<lparr>m_flushPending := False\<rparr>))
                   (\<lambda>s2. Inr (d', s2))
               else Inr (d', s1))))))"

definition cancelWriteBufferFlush :: "nat \<Rightarrow> lazyvm \<Rightarrow> lazyvm res" where
  "cancelWriteBufferFlush level s =
     asrt LVM_cc 401 (m_committing s)
       (asrt LVM_cc 402 (\<not> m_lazyAborting s)
         (let s1 = s\<lparr>m_lazyAborting := True\<rparr> in
          asrt LVM_cc 405 (level = 1)
            (Inr (s1\<lparr>m_writeBufferBlocks := filter (\<lambda>e. snd e \<noteq> Pending) (m_writeBufferBlocks s1)\<rparr>))))"

definition profileRemotelyWrittenByte :: "addr \<Rightarrow> lazyvm \<Rightarrow> lazyvm" where
  "profileRemotelyWrittenByte addr s =
     (let s1 = (if smap_find (m_readBytes s) addr = Some False
                then s\<lparr>m_numReadBytesWrittenRemotely := m_numReadBytesWrittenRemotely s + 1,
                       m_readBytes := smap_assign addr True (m_readBytes s)\<rparr>
                else s)
      in if smap_find (m_writeBuffer s1) addr \<noteq> None \<and> smap_find (m_writtenBytes s1) addr \<noteq> Some True
         then s1\<lparr>m_numWrittenBytesWrittenRemotely := m_numWrittenBytesWrittenRemotely s1 + 1,
                 m_writtenBytes := smap_assign addr True (m_writtenBytes s1)\<rparr>
         else s1)"

text \<open>
  \<open>commitTransaction\<close> marks the buffered bytes in the managers of the other processors, the first
  time it is called, and flushes. The remote managers come in and go out as a list.
\<close>

definition lazy_commit :: "htm_params \<Rightarrow> nat \<Rightarrow> (addr \<Rightarrow> bool) \<Rightarrow> lazyvm list \<Rightarrow> lazyvm \<Rightarrow> (lazyvm list \<times> lazyvm) res" where
  "lazy_commit c level issue remotes s =
     asrt LVM_cc 104 (level = 1)
       (asrt LVM_cc 106 (\<not> m_committed s)
         (let remotes' = (if \<not> m_committing s
                          then map (fold profileRemotelyWrittenByte (smap_keys (m_writeBuffer s))) remotes
                          else remotes)
          in rbind (flushWriteBuffer c level issue (s\<lparr>m_committing := True, m_flushPending := False\<rparr>))
               (\<lambda>s'. Inr (remotes', s'))))"

section \<open>Contents of the write buffer\<close>

definition overlay :: "(addr, byte) smap \<Rightarrow> addr \<Rightarrow> byte \<Rightarrow> byte" where
  "overlay wb a old = (case smap_find wb a of None \<Rightarrow> old | Some v \<Rightarrow> v)"

definition merged :: "nat \<Rightarrow> (addr, byte) smap \<Rightarrow> addr \<Rightarrow> DataBlock \<Rightarrow> DataBlock" where
  "merged bb wb l d = map (\<lambda>i. overlay wb (l + of_nat i) (d ! i)) [0..<2 ^ bb]"

lemma merged_nth [simp]:
  "i < 2 ^ bb \<Longrightarrow> merged bb wb l d ! i = overlay wb (l + of_nat i) (d ! i)"
  "length (merged bb wb l d) = 2 ^ bb"
  by (simp_all add: merged_def)

lemma merged_idem: "merged bb wb l (merged bb wb l d) = merged bb wb l d"
  by (rule nth_equalityI) (auto simp: overlay_def split: option.splits)

lemma write_bytes_ok [simp, intro]: "smap_ok m \<Longrightarrow> smap_ok (write_bytes a bs m)"
  by (induction a bs m rule: write_bytes.induct) auto

lemma unat_minus_Suc: "x \<noteq> a \<Longrightarrow> unat (x - a) = Suc (unat (x - (a + 1)))" for x a :: addr
proof -
  assume "x \<noteq> a"
  then have "x - a \<noteq> 0" by simp
  then have "unat (x - a) = Suc (unat (x - a - 1))"
    by (metis Suc_pred' unat_gt_0 unat_minus_one)
  then show ?thesis by (simp add: algebra_simps)
qed

lemma find_write_bytes:
  assumes "length bs \<le> 2 ^ 64"
  shows "smap_find (write_bytes a bs m) x =
    (if unat (x - a) < length bs then Some (bs ! unat (x - a)) else smap_find m x)"
  using assms
proof (induction a bs m rule: write_bytes.induct)
  case (2 a b bs m)
  show ?case
  proof (cases "x = a")
    case True
    have "unat (- 1 :: addr) = 2 ^ 64 - 1" by (simp add: unsigned_minus_1_eq_mask mask_eq_exp_minus_1)
    then show ?thesis using 2 True by simp
  next
    case False
    then show ?thesis using 2 unat_minus_Suc [OF False] by simp
  qed
qed simp

lemma merge_bytes_eq:
  assumes "block_size_bits c = bb" and "bb < 64" and "makeLineAddress bb l = l" and "length d = 2 ^ bb"
  shows "merge_bytes c l wb d = Inr (merged bb wb l d)"
proof -
  have step: "(case smap_find wb (l + of_nat i) of None \<Rightarrow> Inr v
      | Some val \<Rightarrow> rbind (getOffset (block_size_bits c) (l + of_nat i)) (\<lambda>offset. setData [val] (unat offset) 1 v))
    = Inr (if smap_find wb (l + of_nat i) \<noteq> None then v[i := overlay wb (l + of_nat i) (v ! i)] else v)"
    if "i < 2 ^ bb" "length v = 2 ^ bb" for i and v :: DataBlock
    using that assms(1-3) line_add_offset(2) [OF assms(3,2) that(1)]
    by (auto simp: getOffset_eq offset_of_def setData_def overlay_def upd_conv_take_nth_drop
        split: option.splits)
  have "merge_bytes c l wb d = Inr (map (\<lambda>i. if i < 2 ^ bb \<and> smap_find wb (l + of_nat i) \<noteq> None
      then overlay wb (l + of_nat i) (d ! i) else d ! i) [0..<2 ^ bb])"
    unfolding merge_bytes_def getBlockSizeBytes_def assms(1)
    by (rule rfold_upt_update [where P = "\<lambda>i _. smap_find wb (l + of_nat i) \<noteq> None"])
      (use assms(4) step [unfolded assms(1)] in auto)
  then show ?thesis by (auto simp: merged_def overlay_def split: option.splits intro!: nth_equalityI)
qed

lemma forward_bytes_eq:
  assumes "bb < 64" and "block_size_bits c = bb" and "length blk = 2 ^ bb" and "i + n \<le> 64"
  shows "\<exists>rb. forward_bytes c 1 a i n blk s acc fwd =
    Inr (acc @ map (\<lambda>j. overlay (m_writeBuffer s) (a + of_nat j) (blk ! offset_of bb (a + of_nat j))) [i..<i + n],
         fwd \<or> (\<exists>j \<in> {i..<i + n}. smap_find (m_writeBuffer s) (a + of_nat j) \<noteq> None),
         s\<lparr>m_readBytes := rb\<rparr>)"
  using assms(4)
proof (induction n arbitrary: i s acc fwd)
  case 0
  then show ?case by (auto intro!: exI [of _ "m_readBytes s"])
next
  case (Suc n)
  let ?x = "a + of_nat i"
  let ?s = "s\<lparr>m_readBytes := smap_assign ?x False (m_readBytes s)\<rparr>"
  let ?b = "overlay (m_writeBuffer s) ?x (blk ! offset_of bb ?x)"
  have off: "offset_of bb ?x < 2 ^ bb" using assms(1) by (rule offset_bound)
  then have "take 1 (drop (offset_of bb ?x) blk) = [blk ! offset_of bb ?x]"
    using assms(3) by (simp add: take_Suc hd_drop_conv_nth)
  then have "forward_bytes c 1 a i (Suc n) blk s acc fwd =
      forward_bytes c 1 a (Suc i) n blk ?s (acc @ [?b]) (fwd \<or> smap_find (m_writeBuffer s) ?x \<noteq> None)"
    using Suc.prems off assms(1,2)
    by (auto simp: Let_def existInWriteBuffer_def getDataFromWriteBuffer_def getOffset_eq getData_def
        getBlockSizeBytes_def overlay_def offset_of_def asrt_def split: option.splits)
  moreover have "[i..<i + Suc n] = i # [Suc i..<Suc i + n]" by (simp add: upt_conv_Cons)
  moreover have "{i..<i + Suc n} = insert i {Suc i..<Suc i + n}" by auto
  ultimately show ?case
    using Suc.IH [of "Suc i" ?s "acc @ [?b]" "fwd \<or> smap_find (m_writeBuffer s) ?x \<noteq> None"] Suc.prems
    by (auto simp del: forward_bytes.simps)
qed

section \<open>Outstanding requests\<close>

definition issued_count :: "(addr, WriteBufferBlockStatus) smap \<Rightarrow> nat" where
  "issued_count m = length (filter (\<lambda>e. snd e = Issued) m)"

lemma issued_count_simps [simp]:
  "issued_count [] = 0"
  "issued_count ((a, st) # m) = (if st = Issued then 1 else 0) + issued_count m"
  by (simp_all add: issued_count_def)

lemma issued_count_assign:
  "smap_ok m \<Longrightarrow> smap_find m a = Some Pending \<Longrightarrow>
     issued_count (smap_assign a Issued m) = Suc (issued_count m)"
proof (induction a Issued m rule: smap_assign.induct)
  case (2 k a b m)
  then show ?case by (auto simp: smap_keys_find)
qed simp

lemma issued_count_erase:
  "smap_ok m \<Longrightarrow> smap_find m a = Some Issued \<Longrightarrow>
     issued_count (smap_erase a m) = issued_count m - 1 \<and> 0 < issued_count m"
proof (induction m)
  case (Cons e m)
  obtain k st where e: "e = (k, st)" by (cases e)
  show ?case
  proof (cases "a = k")
    case True
    then have "smap_find m a = None"
      using Cons.prems e by (auto simp: smap_find_None_iff)
    then have "smap_erase a m = m" by (rule smap_erase_absent)
    with True Cons.prems e show ?thesis by (simp add: smap_erase_def)
  next
    case False
    with Cons e show ?thesis by (auto simp: smap_erase_def)
  qed
qed simp

lemma issued_count_pos: "smap_find m a = Some Issued \<Longrightarrow> 0 < issued_count m"
  by (induction m) (auto split: if_splits)

lemma issued_exists: "0 < issued_count m \<Longrightarrow> smap_ok m \<Longrightarrow> \<exists>a. smap_find m a = Some Issued"
proof (induction m)
  case (Cons e m)
  obtain k st where e: "e = (k, st)" by (cases e)
  show ?case
  proof (cases "st = Issued")
    case True with e show ?thesis by auto
  next
    case False
    with Cons e obtain a where "smap_find m a = Some Issued" by auto
    then show ?thesis using e Cons.prems by (intro exI [of _ a]) (auto simp: smap_keys_find)
  qed
qed simp

text \<open>
  What a flush does to the blocks: some pending ones become issued, never more than the commit
  width are outstanding, and if a pending block remains the flush is marked to be resumed.
\<close>

definition flush_result :: "htm_params \<Rightarrow> (addr \<Rightarrow> bool) \<Rightarrow> addr set \<Rightarrow> lazyvm
    \<Rightarrow> (addr, WriteBufferBlockStatus) smap \<Rightarrow> bool \<Rightarrow> bool" where
  "flush_result c issue A s B f \<longleftrightarrow>
     smap_ok B \<and> issued_count B \<le> lazy_commit_width c
     \<and> (\<forall>a. smap_find B a = smap_find (m_writeBufferBlocks s) a
            \<or> (smap_find (m_writeBufferBlocks s) a = Some Pending \<and> smap_find B a = Some Issued))
     \<and> (m_flushPending s \<longrightarrow> f)
     \<and> (f \<or> (\<forall>a \<in> A. smap_find B a \<noteq> Some Pending))
     \<and> ((\<forall>a. issue a) \<longrightarrow> issued_count B = lazy_commit_width c \<or> (\<forall>a \<in> A. smap_find B a \<noteq> Some Pending))"

abbreviation flushed :: "lazyvm \<Rightarrow> (addr, WriteBufferBlockStatus) smap \<Rightarrow> bool \<Rightarrow> lazyvm" where
  "flushed s B f \<equiv> s\<lparr>m_writeBufferBlocks := B, m_issuedWriteBufferRequest := issued_count B, m_flushPending := f\<rparr>"

lemma flush_result_skip:
  "flush_result c issue A s B f \<Longrightarrow> smap_find (m_writeBufferBlocks s) a \<noteq> Some Pending \<Longrightarrow>
     flush_result c issue (insert a A) s B f"
  unfolding flush_result_def by (metis insert_iff option.inject WriteBufferBlockStatus.distinct(1))

lemma flush_result_refuse:
  "flush_result c issue A (s\<lparr>m_flushPending := True\<rparr>) B f \<Longrightarrow> \<not> issue a \<Longrightarrow>
     flush_result c issue (insert a A) s B f"
  unfolding flush_result_def by auto

lemma flush_result_issue:
  assumes "flush_result c issue A (s\<lparr>m_writeBufferBlocks := smap_assign a Issued (m_writeBufferBlocks s),
      m_issuedWriteBufferRequest := n\<rparr>) B f" and "smap_find (m_writeBufferBlocks s) a = Some Pending"
  shows "flush_result c issue (insert a A) s B f"
proof -
  have "smap_find B a = Some Issued"
    using assms(1) unfolding flush_result_def by (elim conjE allE [of _ a]) simp
  then show ?thesis
    using assms unfolding flush_result_def by (auto split: if_splits)
qed

lemma flush_blocks_result:
  assumes "smap_ok (m_writeBufferBlocks s)"
    and "\<forall>(a, st) \<in> set rest. smap_find (m_writeBufferBlocks s) a = Some st"
    and "distinct (map fst rest)"
    and "m_issuedWriteBufferRequest s = issued_count (m_writeBufferBlocks s)"
    and "issued_count (m_writeBufferBlocks s) \<le> lazy_commit_width c"
    and "m_requestorID s \<noteq> None"
  shows "\<exists>B f. flush_blocks c issue rest s = Inr (flushed s B f) \<and> flush_result c issue (fst ` set rest) s B f"
  using assms
proof (induction c issue rest s rule: flush_blocks.induct)
  case (1 c issue s)
  then show ?case
    by (auto simp: flush_result_def intro!: exI [of _ "m_writeBufferBlocks s"] exI [of _ "m_flushPending s"])
next
  case (2 c issue addr status rest s)
  let ?w = "m_issuedWriteBufferRequest s = lazy_commit_width c"
  consider (full) "?w" | (skip) "\<not> ?w" "status \<noteq> Pending" | (refuse) "\<not> ?w" "status = Pending" "\<not> issue addr"
    | (issue) "\<not> ?w" "status = Pending" "issue addr" by blast
  then show ?case
  proof cases
    case full
    with 2 show ?thesis
      by (intro exI [of _ "m_writeBufferBlocks s"] exI [of _ True]) (simp add: flush_result_def)
  next
    case skip
    with 2 obtain B f where "flush_blocks c issue rest s = Inr (flushed s B f)"
      and "flush_result c issue (fst ` set rest) s B f" by auto
    then show ?thesis using skip 2(5) flush_result_skip
      by (intro exI [of _ B] exI [of _ f]) auto
  next
    case refuse
    let ?s = "s\<lparr>m_flushPending := True\<rparr>"
    obtain B f where "flush_blocks c issue rest ?s = Inr (flushed ?s B f)"
      and "flush_result c issue (fst ` set rest) ?s B f"
      using 2(1) 2(4-) refuse by auto
    then show ?thesis using refuse 2(9) flush_result_refuse
      by (intro exI [of _ B] exI [of _ f]) auto
  next
    case issue
    let ?s = "s\<lparr>m_writeBufferBlocks := smap_assign addr Issued (m_writeBufferBlocks s),
               m_issuedWriteBufferRequest := m_issuedWriteBufferRequest s + 1\<rparr>"
    have pend: "smap_find (m_writeBufferBlocks s) addr = Some Pending" using 2(5) issue by auto
    have "\<exists>B f. flush_blocks c issue rest ?s = Inr (flushed ?s B f) \<and> flush_result c issue (fst ` set rest) ?s B f"
      by (rule 2(2)) (use 2(4-) issue issued_count_assign [OF 2(4) pend] in \<open>auto simp: image_iff, fastforce+\<close>)
    then obtain B f where "flush_blocks c issue rest ?s = Inr (flushed ?s B f)"
      and "flush_result c issue (fst ` set rest) ?s B f" by blast
    then show ?thesis using issue 2(9) flush_result_issue [OF _ pend]
      by (intro exI [of _ B] exI [of _ f]) auto
  qed
qed

text \<open>
  The state of a commit: the number of outstanding requests is the number of issued blocks, and a
  block that is still pending will be picked up again.
\<close>

definition commit_ok :: "htm_params \<Rightarrow> lazyvm \<Rightarrow> bool" where
  "commit_ok c s \<longleftrightarrow>
     m_committing s \<and> \<not> m_lazyAborting s \<and> m_requestorID s \<noteq> None
     \<and> smap_ok (m_writeBufferBlocks s) \<and> (\<forall>a \<in> set (smap_keys (m_writeBufferBlocks s)). makeLineAddress (block_size_bits c) a = a)
     \<and> (\<forall>a. smap_find (m_writeBufferBlocks s) a \<noteq> Some Cancelled)
     \<and> m_issuedWriteBufferRequest s = issued_count (m_writeBufferBlocks s)
     \<and> issued_count (m_writeBufferBlocks s) \<le> lazy_commit_width c
     \<and> (m_flushPending s \<or> (\<forall>a. smap_find (m_writeBufferBlocks s) a \<noteq> Some Pending))"

lemma flush_point:
  assumes "flush_result c issue A s B f"
  shows "smap_find B a = smap_find (m_writeBufferBlocks s) a
    \<or> (smap_find (m_writeBufferBlocks s) a = Some Pending \<and> smap_find B a = Some Issued)"
  using assms unfolding flush_result_def by blast

lemma flush_keeps_keys:
  assumes "flush_result c issue A s B f"
  shows "set (smap_keys B) = set (smap_keys (m_writeBufferBlocks s))"
proof -
  have "smap_find B k \<noteq> None \<longleftrightarrow> smap_find (m_writeBufferBlocks s) k \<noteq> None" for k
    using flush_point [OF assms, of k] by (elim disjE) simp_all
  then show ?thesis by (simp add: smap_keys_find)
qed

lemma flush_not_cancelled:
  "flush_result c issue A s B f \<Longrightarrow> smap_find (m_writeBufferBlocks s) a \<noteq> Some Cancelled \<Longrightarrow>
     smap_find B a \<noteq> Some Cancelled"
  using flush_point [of c issue A s B f a] by auto

lemma flush_result_commit_ok:
  assumes r: "flush_result c issue (set (smap_keys (m_writeBufferBlocks s))) s B f"
    and "m_committing s" "\<not> m_lazyAborting s" "m_requestorID s \<noteq> None"
    and "\<forall>a \<in> set (smap_keys (m_writeBufferBlocks s)). makeLineAddress (block_size_bits c) a = a"
    and nc: "\<forall>a. smap_find (m_writeBufferBlocks s) a \<noteq> Some Cancelled"
  shows "commit_ok c (flushed s B f)"
proof -
  have "f \<or> (\<forall>a \<in> set (smap_keys B). smap_find B a \<noteq> Some Pending)"
    using r unfolding flush_keeps_keys [OF r] flush_result_def by blast
  then have "f \<or> (\<forall>a. smap_find B a \<noteq> Some Pending)"
    unfolding smap_keys_find by fastforce
  moreover have "smap_ok B" "issued_count B \<le> lazy_commit_width c"
    using r unfolding flush_result_def by blast+
  ultimately show ?thesis
    using assms(2-5) nc flush_not_cancelled [OF r] flush_keeps_keys [OF r] unfolding commit_ok_def by simp
qed

lemma flush_snapshot:
  "smap_ok m \<Longrightarrow> (\<forall>(a, st) \<in> set m. smap_find m a = Some st) \<and> distinct (map fst m)"
  by (auto simp: smap_find_def smap_ok_def)

lemma flush_ok:
  assumes "smap_ok (m_writeBufferBlocks s)" and "m_requestorID s \<noteq> None" and "\<not> m_lazyAborting s"
    and "m_issuedWriteBufferRequest s = issued_count (m_writeBufferBlocks s)"
    and "issued_count (m_writeBufferBlocks s) \<le> lazy_commit_width c"
    and "m_writeBufferBlocks s \<noteq> []"
  shows "\<exists>B f. flushWriteBuffer c 1 issue s = Inr (flushed s B f)
    \<and> flush_result c issue (set (smap_keys (m_writeBufferBlocks s))) s B f"
  using flush_blocks_result [of s "m_writeBufferBlocks s" c issue] flush_snapshot [OF assms(1)] assms
  by (simp add: flushWriteBuffer_def smap_keys_def)

text \<open>If every request is accepted, a commit always has a request outstanding until it is done.\<close>

definition has_issued :: "lazyvm \<Rightarrow> bool" where
  "has_issued s \<longleftrightarrow> (\<exists>a. smap_find (m_writeBufferBlocks s) a = Some Issued)"

lemma flush_has_issued:
  assumes r: "flush_result c issue (set (smap_keys (m_writeBufferBlocks s))) s B f"
    and "\<forall>a. issue a" and "0 < lazy_commit_width c" and "m_writeBufferBlocks s \<noteq> []"
    and nc: "\<forall>a. smap_find (m_writeBufferBlocks s) a \<noteq> Some Cancelled"
  shows "\<exists>a. smap_find B a = Some Issued"
proof -
  have ok: "smap_ok B" using r by (simp add: flush_result_def)
  consider "issued_count B = lazy_commit_width c"
    | "\<forall>a \<in> set (smap_keys (m_writeBufferBlocks s)). smap_find B a \<noteq> Some Pending"
    using r assms(2) unfolding flush_result_def by blast
  then show ?thesis
  proof cases
    case 1
    then show ?thesis using assms(3) issued_exists ok by simp
  next
    case 2
    obtain a where a: "a \<in> set (smap_keys (m_writeBufferBlocks s))"
      using assms(4) by (cases "m_writeBufferBlocks s") (auto simp: smap_keys_def)
    then have "a \<in> set (smap_keys B)" using flush_keeps_keys [OF r] by simp
    then obtain st where st: "smap_find B a = Some st" by (auto simp: smap_keys_find)
    moreover have "st \<noteq> Pending" using 2 a st by auto
    moreover have "st \<noteq> Cancelled"
      using flush_not_cancelled [OF r] nc st by blast
    ultimately show ?thesis by (cases st) auto
  qed
qed

lemma keys_empty_iff: "set (smap_keys m) = {} \<longleftrightarrow> m = []"
  by (simp add: smap_keys_def)

lemma merge_ok:
  assumes ok: "commit_ok c s" and iss: "smap_find (m_writeBufferBlocks s) a = Some Issued"
    and len: "length d = 2 ^ block_size_bits c" and bits: "block_size_bits c < 64"
  shows "\<exists>s'. mergeDataFromWriteBuffer c 1 issue a d s
        = Inr (merged (block_size_bits c) (m_writeBuffer s) a d, s')
    \<and> commit_ok c s'
    \<and> set (smap_keys (m_writeBufferBlocks s')) = set (smap_keys (m_writeBufferBlocks s)) - {a}
    \<and> (if m_writeBufferBlocks s' = [] then m_committed s' \<and> m_writeBuffer s' = []
       else m_writeBuffer s' = m_writeBuffer s \<and> m_committed s' = m_committed s
         \<and> ((\<forall>a. issue a) \<and> 0 < lazy_commit_width c \<longrightarrow> has_issued s'))"
proof -
  let ?B = "smap_erase a (m_writeBufferBlocks s)"
  let ?s1 = "s\<lparr>m_writeBufferBlocks := ?B, m_issuedWriteBufferRequest := m_issuedWriteBufferRequest s - 1\<rparr>"
  have al: "makeLineAddress (block_size_bits c) a = a"
    using ok iss by (auto simp: commit_ok_def smap_keys_find)
  have cnt: "issued_count ?B = issued_count (m_writeBufferBlocks s) - 1"
    using issued_count_erase [of "m_writeBufferBlocks s" a] ok iss by (simp add: commit_ok_def)
  have keys: "set (smap_keys ?B) = set (smap_keys (m_writeBufferBlocks s)) - {a}"
    by (rule smap.keys_erase)
  have ok1: "commit_ok c ?s1"
    using ok cnt keys by (auto simp: commit_ok_def)
  have run: "mergeDataFromWriteBuffer c 1 issue a d s =
    (if ?B = [] then Inr (merged (block_size_bits c) (m_writeBuffer s) a d, ?s1\<lparr>m_committed := True, m_writeBuffer := []\<rparr>)
     else if m_flushPending s then rbind (flushWriteBuffer c 1 issue (?s1\<lparr>m_flushPending := False\<rparr>))
       (\<lambda>s2. Inr (merged (block_size_bits c) (m_writeBuffer s) a d, s2))
     else Inr (merged (block_size_bits c) (m_writeBuffer s) a d, ?s1))"
    using ok iss al merge_bytes_eq [OF refl bits al len]
    by (simp add: mergeDataFromWriteBuffer_def commit_ok_def)
  consider (finished) "?B = []" | (resume) "?B \<noteq> []" "m_flushPending s" | (wait) "?B \<noteq> []" "\<not> m_flushPending s"
    by blast
  then show ?thesis
  proof cases
    case finished
    then show ?thesis using run ok1 keys by (auto simp: commit_ok_def)
  next
    case resume
    let ?s2 = "?s1\<lparr>m_flushPending := False\<rparr>"
    obtain B f where fl: "flushWriteBuffer c 1 issue ?s2 = Inr (flushed ?s2 B f)"
      and r: "flush_result c issue (set (smap_keys (m_writeBufferBlocks ?s2))) ?s2 B f"
      using flush_ok [of ?s2 c issue] ok1 resume by (auto simp: commit_ok_def)
    have "commit_ok c (flushed ?s2 B f)"
      by (rule flush_result_commit_ok [OF r]) (use ok1 in \<open>auto simp: commit_ok_def\<close>)
    moreover have "set (smap_keys B) = set (smap_keys ?B)" using flush_keeps_keys [OF r] by simp
    moreover have "has_issued (flushed ?s2 B f)" if "\<forall>a. issue a" "0 < lazy_commit_width c"
      unfolding has_issued_def
      using flush_has_issued [OF r that] resume ok1 by (simp add: commit_ok_def)
    ultimately show ?thesis
      using run resume fl keys keys_empty_iff [of B] keys_empty_iff [of ?B] by auto
  next
    case wait
    obtain k where "k \<in> set (smap_keys ?B)" using wait by (cases ?B) (auto simp: smap_keys_def)
    then obtain st where st: "smap_find ?B k = Some st" by (auto simp: smap_keys_find)
    have "st = Issued" using ok1 st wait by (cases st) (auto simp: commit_ok_def split: if_splits)
    then have "has_issued ?s1"
      unfolding has_issued_def using st by (intro exI [of _ k]) simp
    then show ?thesis using run wait ok1 keys by auto
  qed
qed

section \<open>The commit as a transition system\<close>

text \<open>
  Once the flush has begun, the requests complete in any order: a step takes a block of memory
  through \<open>mergeDataFromWriteBuffer\<close>.
\<close>

type_synonym mem = "addr \<Rightarrow> DataBlock"

inductive drain :: "htm_params \<Rightarrow> (addr \<Rightarrow> bool) \<Rightarrow> mem \<times> lazyvm \<Rightarrow> mem \<times> lazyvm \<Rightarrow> bool"
  for c issue where
  drainI: "mergeDataFromWriteBuffer c 1 issue a (mem a) s = Inr (d, s') \<Longrightarrow>
    drain c issue (mem, s) (mem(a := d), s')"

inductive_cases drainE: "drain c issue (mem, s) (mem', s')"

text \<open>Before the commit: every buffered byte belongs to a pending block.\<close>

definition buffer_ok :: "htm_params \<Rightarrow> lazyvm \<Rightarrow> bool" where
  "buffer_ok c s \<longleftrightarrow>
     smap_ok (m_writeBuffer s) \<and> smap_ok (m_writeBufferBlocks s)
     \<and> (\<forall>a. smap_find (m_writeBufferBlocks s) a \<in> {None, Some Pending})
     \<and> (\<forall>a \<in> set (smap_keys (m_writeBufferBlocks s)). makeLineAddress (block_size_bits c) a = a)
     \<and> (\<forall>x \<in> set (smap_keys (m_writeBuffer s)).
          makeLineAddress (block_size_bits c) x \<in> set (smap_keys (m_writeBufferBlocks s)))
     \<and> m_issuedWriteBufferRequest s = 0"

definition drain_inv :: "htm_params \<Rightarrow> mem \<Rightarrow> (addr, byte) smap \<Rightarrow> mem \<times> lazyvm \<Rightarrow> bool" where
  "drain_inv c mem0 wb ms \<longleftrightarrow> (case ms of (mem, s) \<Rightarrow>
     commit_ok c s \<and> (\<forall>l. length (mem l) = 2 ^ block_size_bits c)
     \<and> (\<forall>l. makeLineAddress (block_size_bits c) l = l \<longrightarrow>
          mem l = (if l \<in> set (smap_keys (m_writeBufferBlocks s)) then mem0 l
                   else merged (block_size_bits c) wb l (mem0 l)))
     \<and> (if m_writeBufferBlocks s = [] then m_committed s \<and> m_writeBuffer s = []
        else m_writeBuffer s = wb))"

lemma pending_count: "\<forall>e \<in> set m. snd e \<noteq> Issued \<Longrightarrow> issued_count m = 0"
  by (simp add: issued_count_def)

lemma buffer_ok_count: "buffer_ok c s \<Longrightarrow> issued_count (m_writeBufferBlocks s) = 0"
  unfolding buffer_ok_def
  by (rule ccontr) (metis issued_exists empty_iff insert_iff neq0_conv option.distinct(1)
      option.inject WriteBufferBlockStatus.distinct(1))

lemma merged_untouched:
  assumes "length d = 2 ^ b" and "b < 64" and "makeLineAddress b l = l"
    and "\<forall>x. smap_find wb x \<noteq> None \<longrightarrow> makeLineAddress b x \<noteq> l"
  shows "merged b wb l d = d"
proof (rule nth_equalityI)
  fix i assume "i < length (merged b wb l d)"
  then have i: "i < 2 ^ b" by simp
  have "makeLineAddress b (l + of_nat i) = l" by (rule line_add_offset(1) [OF assms(3,2) i])
  then have "smap_find wb (l + of_nat i) = None" using assms(4) by blast
  then show "merged b wb l d ! i = d ! i" using i by (simp add: overlay_def)
qed (use assms(1) in simp)

lemma drain_issued:
  assumes "drain c issue (mem, s) (mem', s')"
  obtains a where "smap_find (m_writeBufferBlocks s) a = Some Issued"
    and "mergeDataFromWriteBuffer c 1 issue a (mem a) s = Inr (mem' a, s')" and "mem' = mem(a := mem' a)"
proof -
  from assms obtain a d where run: "mergeDataFromWriteBuffer c 1 issue a (mem a) s = Inr (d, s')"
    and "mem' = mem(a := d)" by (auto elim: drainE)
  moreover have "smap_find (m_writeBufferBlocks s) a = Some Issued"
    using run by (auto simp: mergeDataFromWriteBuffer_def res_simps)
  ultimately show ?thesis using that [of a] by simp
qed

lemma drain_inv_step:
  assumes inv: "drain_inv c mem0 wb (mem, s)" and st: "drain c issue (mem, s) (mem', s')"
    and bits: "block_size_bits c < 64"
  shows "drain_inv c mem0 wb (mem', s')
    \<and> length (m_writeBufferBlocks s') < length (m_writeBufferBlocks s)"
proof -
  let ?b = "block_size_bits c"
  obtain a where a: "smap_find (m_writeBufferBlocks s) a = Some Issued"
    and run: "mergeDataFromWriteBuffer c 1 issue a (mem a) s = Inr (mem' a, s')"
    and mem': "mem' = mem(a := mem' a)"
    using drain_issued [OF st] by metis
  have ok: "commit_ok c s" and len: "\<forall>l. length (mem l) = 2 ^ ?b"
    using inv by (auto simp: drain_inv_def)
  have ne: "m_writeBufferBlocks s \<noteq> []" and ka: "a \<in> set (smap_keys (m_writeBufferBlocks s))"
    using a by (auto simp: smap_keys_find)
  then have wb: "m_writeBuffer s = wb" using inv by (simp add: drain_inv_def)
  have al: "makeLineAddress ?b a = a" using ok ka by (simp add: commit_ok_def)
  from merge_ok [OF ok a, of "mem a" issue] len bits run wb
  have d: "mem' a = merged ?b wb a (mem a)" and ok': "commit_ok c s'"
    and keys: "set (smap_keys (m_writeBufferBlocks s')) = set (smap_keys (m_writeBufferBlocks s)) - {a}"
    and fin: "if m_writeBufferBlocks s' = [] then m_committed s' \<and> m_writeBuffer s' = [] else m_writeBuffer s' = wb"
    by (auto split: if_splits)
  have "mem a = mem0 a" using inv ka al by (simp add: drain_inv_def)
  then have "drain_inv c mem0 wb (mem', s')"
    unfolding drain_inv_def prod.case
    using ok' keys fin len d inv mem' by (auto simp: drain_inv_def)
  moreover have "card (set (smap_keys (m_writeBufferBlocks s'))) < card (set (smap_keys (m_writeBufferBlocks s)))"
    using keys ka by (intro psubset_card_mono) auto
  ultimately show ?thesis
    using ok ok' distinct_card [of "smap_keys (m_writeBufferBlocks s)"]
      distinct_card [of "smap_keys (m_writeBufferBlocks s')"]
    by (simp add: commit_ok_def smap_keys_distinct) (simp add: smap_keys_def)
qed

definition drain_good :: "htm_params \<Rightarrow> (addr \<Rightarrow> bool) \<Rightarrow> mem \<Rightarrow> (addr, byte) smap \<Rightarrow> mem \<times> lazyvm \<Rightarrow> bool" where
  "drain_good c issue mem0 wb ms \<longleftrightarrow>
     drain_inv c mem0 wb ms \<and> block_size_bits c < 64 \<and> 0 < lazy_commit_width c \<and> (\<forall>a. issue a)
     \<and> (m_writeBufferBlocks (snd ms) = [] \<or> has_issued (snd ms))"

lemma drain_good_step:
  assumes "drain_good c issue mem0 wb (mem, s)" and "drain c issue (mem, s) (mem', s')"
  shows "drain_good c issue mem0 wb (mem', s')"
proof -
  obtain a where a: "smap_find (m_writeBufferBlocks s) a = Some Issued"
    and run: "mergeDataFromWriteBuffer c 1 issue a (mem a) s = Inr (mem' a, s')"
    using drain_issued [OF assms(2)] by metis
  have "commit_ok c s" "length (mem a) = 2 ^ block_size_bits c" "block_size_bits c < 64"
    using assms(1) by (auto simp: drain_good_def drain_inv_def)
  from merge_ok [OF this(1) a this(2,3), of issue] run assms(1)
  have "m_writeBufferBlocks s' = [] \<or> has_issued s'" by (auto simp: drain_good_def split: if_splits)
  then show ?thesis
    using assms drain_inv_step [of c mem0 wb mem s issue mem' s'] by (simp add: drain_good_def)
qed

interpretation drains: finishing_system "drain c issue" "drain_good c issue mem0 wb"
  "\<lambda>ms. length (m_writeBufferBlocks (snd ms))" "\<lambda>ms. m_writeBufferBlocks (snd ms) = []"
  for c issue mem0 wb
proof
  fix ms assume good: "drain_good c issue mem0 wb ms" and ne: "m_writeBufferBlocks (snd ms) \<noteq> []"
  obtain mem s where ms: "ms = (mem, s)" by (cases ms)
  obtain a where a: "smap_find (m_writeBufferBlocks s) a = Some Issued"
    using good ne ms by (auto simp: drain_good_def has_issued_def)
  have "commit_ok c s" "length (mem a) = 2 ^ block_size_bits c" "block_size_bits c < 64"
    using good ms by (auto simp: drain_good_def drain_inv_def)
  from merge_ok [OF this(1) a this(2,3), of issue] obtain s' where
    "mergeDataFromWriteBuffer c 1 issue a (mem a) s = Inr (merged (block_size_bits c) (m_writeBuffer s) a (mem a), s')"
    by blast
  then show "\<exists>t. drain c issue ms t" unfolding ms by (blast intro: drainI)
next
  fix ms ms' assume good: "drain_good c issue mem0 wb ms" and st: "drain c issue ms ms'"
  obtain mem s mem' s' where ms: "ms = (mem, s)" "ms' = (mem', s')" by (cases ms; cases ms')
  show "drain_good c issue mem0 wb ms'"
    using drain_good_step good st unfolding ms by blast
  have "drain_inv c mem0 wb (mem, s)" "block_size_bits c < 64"
    using good unfolding ms drain_good_def by blast+
  then show "length (m_writeBufferBlocks (snd ms')) < length (m_writeBufferBlocks (snd ms))"
    using drain_inv_step st unfolding ms snd_conv by blast
qed

lemma lazy_commit_starts:
  assumes buf: "buffer_ok c s" and "\<not> m_committed s" and "\<not> m_committing s" and "\<not> m_lazyAborting s"
    and "m_requestorID s \<noteq> None" and ne: "m_writeBufferBlocks s \<noteq> []"
    and "\<forall>l. length (mem0 l) = 2 ^ block_size_bits c" and bits: "block_size_bits c < 64"
    and width: "0 < lazy_commit_width c" and iss: "\<forall>a. issue a"
  shows "\<exists>rs s1. lazy_commit c 1 issue remotes s = Inr (rs, s1)
    \<and> drain_good c issue mem0 (m_writeBuffer s) (mem0, s1)
    \<and> length (m_writeBufferBlocks s1) = length (m_writeBufferBlocks s)"
proof -
  let ?s = "s\<lparr>m_committing := True, m_flushPending := False\<rparr>"
  have ok: "smap_ok (m_writeBufferBlocks s)" using buf by (simp add: buffer_ok_def)
  obtain B f where fl: "flushWriteBuffer c 1 issue ?s = Inr (flushed ?s B f)"
    and r: "flush_result c issue (set (smap_keys (m_writeBufferBlocks ?s))) ?s B f"
    using flush_ok [of ?s c issue] assms buffer_ok_count [OF buf] by (auto simp: buffer_ok_def)
  have "smap_find (m_writeBufferBlocks s) a \<noteq> Some Cancelled" for a
  proof -
    have "smap_find (m_writeBufferBlocks s) a \<in> {None, Some Pending}"
      using buf by (simp add: buffer_ok_def)
    then show ?thesis by auto
  qed
  then have nc: "\<forall>a. smap_find (m_writeBufferBlocks ?s) a \<noteq> Some Cancelled" by simp
  have "commit_ok c (flushed ?s B f)"
    by (rule flush_result_commit_ok [OF r]) (use assms nc in \<open>auto simp: buffer_ok_def\<close>)
  moreover have "has_issued (flushed ?s B f)"
    using flush_has_issued [OF r iss width _ nc] ne by (simp add: has_issued_def)
  moreover have keys: "set (smap_keys B) = set (smap_keys (m_writeBufferBlocks s))"
    using flush_keeps_keys [OF r] by simp
  moreover have "merged (block_size_bits c) (m_writeBuffer s) l (mem0 l) = mem0 l"
    if "makeLineAddress (block_size_bits c) l = l" "l \<notin> set (smap_keys (m_writeBufferBlocks s))" for l
    by (rule merged_untouched) (use assms that in \<open>auto simp: buffer_ok_def smap_keys_find\<close>)
  moreover have "B \<noteq> []" using keys ne by (metis keys_empty_iff)
  moreover have "length B = length (m_writeBufferBlocks s)"
    using keys ok r distinct_card [of "smap_keys B"] distinct_card [of "smap_keys (m_writeBufferBlocks s)"]
    by (simp add: flush_result_def smap_keys_distinct) (simp add: smap_keys_def)
  ultimately show ?thesis
    using assms fl by (auto simp: lazy_commit_def drain_good_def drain_inv_def)
qed

lemma drain_good_reached:
  assumes "drain_good c issue mem0 wb (mem', s')"
  shows "m_issuedWriteBufferRequest s' \<le> lazy_commit_width c
    \<and> (m_writeBufferBlocks s' = [] \<longrightarrow> m_committed s' \<and> m_writeBuffer s' = []
         \<and> (\<forall>l. makeLineAddress (block_size_bits c) l = l \<longrightarrow>
              mem' l = merged (block_size_bits c) wb l (mem0 l)))"
  using assms by (auto simp: drain_good_def drain_inv_def commit_ok_def smap_keys_def)

lemma addToWriteBuffer_ok:
  assumes "buffer_ok c s" and "addToWriteBuffer c 1 a bs s = Inr s'" and "block_size_bits c < 64"
    and "\<forall>i < length bs. makeLineAddress (block_size_bits c) (a + of_nat i) = makeLineAddress (block_size_bits c) a"
  shows "buffer_ok c s'"
proof -
  let ?b = "block_size_bits c"
  have len: "length bs \<le> 2 ^ 64" and s': "s' = s\<lparr>m_writeBuffer := write_bytes a bs (m_writeBuffer s),
      m_writeBufferBlocks := smap_assign (makeLineAddress ?b a) Pending (m_writeBufferBlocks s)\<rparr>"
    using assms(2) by (auto simp: addToWriteBuffer_def Let_def res_simps split: if_splits)
  have "makeLineAddress ?b x \<in> set (smap_keys (m_writeBufferBlocks s'))"
    if "x \<in> set (smap_keys (m_writeBuffer s'))" for x
  proof (cases "unat (x - a) < length bs")
    case True
    then have "makeLineAddress ?b (a + of_nat (unat (x - a))) = makeLineAddress ?b a"
      using assms(4) by blast
    then show ?thesis by (simp add: s' smap_keys_assign)
  next
    case False
    then show ?thesis
      using that assms(1) by (auto simp: s' smap_keys_find find_write_bytes [OF len] buffer_ok_def)
  qed
  then show ?thesis
    using assms(1) unfolding buffer_ok_def by (auto simp: s' smap_keys_assign)
qed

section \<open>Properties\<close>


definition two_blocks :: lazyvm where
  "two_blocks = (lazyvm_init 0 0)\<lparr>m_requestorID := Some 3, m_currentHtmUid := 1,
     m_writeBuffer := [(0x41, 7), (0x83, 9)],
     m_writeBufferBlocks := [(0x40, Pending), (0x80, Pending)]\<rparr>"

lemma two_blocks_ok: "buffer_ok default_params two_blocks"
  by (auto simp: buffer_ok_def two_blocks_def lazyvm_init_def smap_keys_def smap_find_def
      makeLineAddress_def mbits_def mask64_def)


text \<open>
  C22. A transaction sees its own stores: loading the bytes just stored returns them, whatever the
  cache holds, and reports that they were forwarded.
\<close>

theorem forward_own_store:
  assumes "addToWriteBuffer c 1 a bs s = Inr s'" and "block_size_bits c < 64"
    and "length blk = 2 ^ block_size_bits c"
  shows "\<exists>rb. lazy_forwardData c 1 a (length bs) blk s' = Inr (bs, True, s'\<lparr>m_readBytes := rb\<rparr>)"
proof -
  have len: "length bs \<in> {1, 2, 4, 8}" and wb: "m_writeBuffer s' = write_bytes a bs (m_writeBuffer s)"
    using assms(1) by (auto simp: addToWriteBuffer_def Let_def res_simps split: if_splits)
  have small: "0 < length bs" "length bs \<le> 64" "length bs \<le> 2 ^ 64" using len by auto
  have found: "smap_find (m_writeBuffer s') (a + of_nat j) = Some (bs ! j)" if "j < length bs" for j
  proof -
    have "unat (of_nat j :: addr) = j" using that small(2) by (simp add: unsigned_of_nat take_bit_nat_eq_self)
    then show ?thesis using that by (simp add: wb find_write_bytes [OF small(3)])
  qed
  then have bytes: "map (\<lambda>j. overlay (m_writeBuffer s') (a + of_nat j) (g j)) [0..<length bs] = bs" for g
    by (auto intro!: nth_equalityI simp: overlay_def)
  obtain rb where "forward_bytes c 1 a 0 (length bs) blk s' [] False =
      Inr (bs, \<exists>j \<in> {0..<length bs}. smap_find (m_writeBuffer s') (a + of_nat j) \<noteq> None, s'\<lparr>m_readBytes := rb\<rparr>)"
    using forward_bytes_eq [OF assms(2) refl assms(3), of 0 "length bs" a s' "[]" False] small(2) bytes
    by auto
  moreover have "\<exists>j \<in> {0..<length bs}. smap_find (m_writeBuffer s') (a + of_nat j) \<noteq> None"
    using found [OF small(1)] small(1) by (intro bexI [of _ 0]) auto
  ultimately show ?thesis by (intro exI [of _ rb]) (simp add: lazy_forwardData_def)
qed

theorem forward_own_store_witness:
  "\<exists>s' rb. addToWriteBuffer default_params 1 0x40 [1, 2] (lazyvm_init 0 0) = Inr s'
     \<and> lazy_forwardData default_params 1 0x40 2 (replicate 64 0) s' = Inr ([1, 2], True, s'\<lparr>m_readBytes := rb\<rparr>)"
proof -
  obtain s' where run: "addToWriteBuffer default_params 1 0x40 [1, 2] (lazyvm_init 0 0) = Inr s'"
    by (auto simp: addToWriteBuffer_def makeLineAddress_def mbits_def mask64_def asrt_def)
  have "length [1, 2 :: byte] = 2" by simp
  then show ?thesis
    using run forward_own_store [OF run, of "replicate 64 0"] by (auto simp del: list.size)
qed

text \<open>
  C23. The block that commit makes visible is the one the transaction saw: merging the write
  buffer into a block and then reading it gives the bytes a load of the
  transaction was forwarded before.
\<close>

theorem merge_matches_forward:
  assumes "mergeDataFromWriteBuffer c 1 issue l d s = Inr (d', s')" and "block_size_bits c < 64"
    and "length d = 2 ^ block_size_bits c" and "k + n \<le> 2 ^ block_size_bits c" and "n \<le> 64"
  shows "\<exists>fwd t. lazy_forwardData c 1 (l + of_nat k) n d s = Inr (take n (drop k d'), fwd, t)"
proof -
  let ?b = "block_size_bits c"
  have al: "makeLineAddress ?b l = l" using assms(1) by (auto simp: mergeDataFromWriteBuffer_def res_simps)
  have d': "d' = merged ?b (m_writeBuffer s) l d"
    using assms(1) merge_bytes_eq [OF refl assms(2) al assms(3)]
    by (auto simp: mergeDataFromWriteBuffer_def res_simps Let_def split: if_splits)
  have off: "offset_of ?b (l + of_nat k + of_nat j) = k + j" if "j < n" for j
    using line_add_offset(2) [OF al assms(2), of "k + j"] that assms(4) by (simp add: add.assoc)
  have "map (\<lambda>j. overlay (m_writeBuffer s) (l + of_nat k + of_nat j)
      (d ! offset_of ?b (l + of_nat k + of_nat j))) [0..<n] = take n (drop k d')"
    using assms(4) by (intro nth_equalityI) (simp_all add: d' off, simp add: add.assoc)
  then show ?thesis
    using forward_bytes_eq [OF assms(2) refl assms(3), of 0 n "l + of_nat k" s "[]" False] assms(5)
    by (auto simp: lazy_forwardData_def)
qed

theorem merge_matches_forward_witness:
  "\<exists>d' s' fwd t. mergeDataFromWriteBuffer default_params 1 (\<lambda>_. True) 0x40 (replicate 64 0)
      (two_blocks\<lparr>m_writeBufferBlocks := [(0x40, Issued)], m_issuedWriteBufferRequest := 1\<rparr>) = Inr (d', s')
    \<and> lazy_forwardData default_params 1 (0x40 + of_nat 1) 2 (replicate 64 0)
      (two_blocks\<lparr>m_writeBufferBlocks := [(0x40, Issued)], m_issuedWriteBufferRequest := 1\<rparr>)
      = Inr (take 2 (drop 1 d'), fwd, t)"
proof -
  let ?s = "two_blocks\<lparr>m_writeBufferBlocks := [(0x40, Issued)], m_issuedWriteBufferRequest := 1\<rparr>"
  have al: "makeLineAddress (block_size_bits default_params) 0x40 = 0x40" by code_simp
  have "\<exists>d' s'. mergeDataFromWriteBuffer default_params 1 (\<lambda>_. True) 0x40 (replicate 64 0) ?s = Inr (d', s')"
    using merge_bytes_eq [OF refl _ al, of "replicate 64 0"] al
    by (auto simp: mergeDataFromWriteBuffer_def smap_erase_def asrt_def)
  then obtain d' s' where
    run: "mergeDataFromWriteBuffer default_params 1 (\<lambda>_. True) 0x40 (replicate 64 0) ?s = Inr (d', s')" by blast
  then show ?thesis
    using merge_matches_forward [OF run, of 1 2] by auto
qed

end
