(* ===== verification/Eager_Version.thy ===== *)
theory Eager_Version
  imports Htm_Policy Ruby_Data
begin

text \<open>
  \<^verbatim>\<open>mem/ruby/htm/EagerTransactionVersionManager.cc\<close>, \<^verbatim>\<open>TransactionalSequencer::buildLogPackets\<close> and the log
  layout and unroll routine of \<^verbatim>\<open>libs/htmrt/logtm.h\<close>: with eager version management a
  transaction writes in place, after the hardware has copied the old block and its address into
  a per-thread undo log, and the abort handler walks that log backwards. The theory shows that
  the walk restores memory.
\<close>

section \<open>Layout of the log\<close>

definition LOG_PAGE_SIZE_BYTES :: nat where "LOG_PAGE_SIZE_BYTES = 4096"
definition LOG_CACHE_BLOCK_SIZE :: nat where "LOG_CACHE_BLOCK_SIZE = 64"
definition LOG_ENTRIES_PER_PAGE :: nat where "LOG_ENTRIES_PER_PAGE = 56"
definition MAX_LOG_SIZE_PAGES :: nat where "MAX_LOG_SIZE_PAGES = 256"
definition MAX_LOG_SIZE_BYTES :: nat where
  "MAX_LOG_SIZE_BYTES = LOG_PAGE_SIZE_BYTES * MAX_LOG_SIZE_PAGES"
definition LOG_UNROLL_END_SIGNAL :: "64 word" where "LOG_UNROLL_END_SIGNAL = 0xDEADC0DEBAADCAFE"

definition PAGE_MASK :: "64 word" where "PAGE_MASK = NOT (of_nat LOG_PAGE_SIZE_BYTES - 1)"
definition PAGE_OFFSET_MASK :: "64 word" where "PAGE_OFFSET_MASK = of_nat LOG_PAGE_SIZE_BYTES - 1"

definition GET_PAGE_OFFSET :: "addr \<Rightarrow> addr" where
  "GET_PAGE_OFFSET a = a AND PAGE_OFFSET_MASK"

lemmas log_sizes =
  LOG_PAGE_SIZE_BYTES_def LOG_CACHE_BLOCK_SIZE_def LOG_ENTRIES_PER_PAGE_def MAX_LOG_SIZE_PAGES_def
  MAX_LOG_SIZE_BYTES_def

definition logtm_compute_addr_ptr_from_data_ptr :: "addr \<Rightarrow> addr res" where
  "logtm_compute_addr_ptr_from_data_ptr dataLogPtr =
     (let pageAddr = dataLogPtr AND PAGE_MASK;
          pageOffset = dataLogPtr AND PAGE_OFFSET_MASK;
          entryIndex = unat pageOffset div LOG_CACHE_BLOCK_SIZE
      in asrt LogTM_h 75 (unat pageOffset < LOG_ENTRIES_PER_PAGE * LOG_CACHE_BLOCK_SIZE)
           (asrt LogTM_h 76 (unat pageOffset mod LOG_CACHE_BLOCK_SIZE = 0)
             (Inr (pageAddr OR of_nat (LOG_PAGE_SIZE_BYTES - (entryIndex + 1) * 8)))))"

definition data_log_offset :: "nat \<Rightarrow> nat" where
  "data_log_offset numEntries =
     (numEntries div LOG_ENTRIES_PER_PAGE) * LOG_PAGE_SIZE_BYTES
     + (numEntries mod LOG_ENTRIES_PER_PAGE) * LOG_CACHE_BLOCK_SIZE"

definition addr_log_offset :: "nat \<Rightarrow> nat" where
  "addr_log_offset numEntries =
     (numEntries div LOG_ENTRIES_PER_PAGE) * LOG_PAGE_SIZE_BYTES
     + LOG_PAGE_SIZE_BYTES - ((numEntries mod LOG_ENTRIES_PER_PAGE) + 1) * 8"

definition logtm_compute_data_log_pointer :: "addr \<Rightarrow> nat \<Rightarrow> addr" where
  "logtm_compute_data_log_pointer logBase numEntries = logBase + of_nat (data_log_offset numEntries)"

definition logtm_compute_addr_log_pointer :: "addr \<Rightarrow> nat \<Rightarrow> addr" where
  "logtm_compute_addr_log_pointer logBase numEntries = logBase + of_nat (addr_log_offset numEntries)"

text \<open>
  The abort handler. Memory is seen in aligned 8-byte words, as the handler accesses it.
\<close>

type_synonym wmem = "addr \<Rightarrow> 64 word"

definition copy_block :: "addr \<Rightarrow> addr \<Rightarrow> wmem \<Rightarrow> wmem" where
  "copy_block dst src m =
     fold (\<lambda>k m. m(dst + of_nat (8 * k) := m (src + of_nat (8 * k)))) [0..<LOG_CACHE_BLOCK_SIZE div 8] m"

fun unroll_loop :: "addr \<Rightarrow> nat \<Rightarrow> addr \<Rightarrow> addr \<Rightarrow> wmem \<Rightarrow> wmem" where
  "unroll_loop log_base 0 data_log_ptr addr_log_ptr m = copy_block (m addr_log_ptr) data_log_ptr m"
| "unroll_loop log_base (Suc n) data_log_ptr addr_log_ptr m =
     (let m' = copy_block (m addr_log_ptr) data_log_ptr m in
      if GET_PAGE_OFFSET data_log_ptr = 0
      then unroll_loop log_base n (log_base + of_nat (data_log_offset n))
             (log_base + of_nat (addr_log_offset n)) m'
      else unroll_loop log_base n (data_log_ptr - of_nat LOG_CACHE_BLOCK_SIZE) (addr_log_ptr + 8) m')"

definition logtm_log_unroll :: "addr \<Rightarrow> nat \<Rightarrow> wmem \<Rightarrow> wmem" where
  "logtm_log_unroll log_base log_size m =
     (if log_size = 0 then m
      else unroll_loop log_base (log_size - 1)
        (log_base + of_nat (data_log_offset (log_size - 1)))
        (log_base + of_nat (addr_log_offset (log_size - 1))) m)"

section \<open>The version manager\<close>

datatype LogInitStatus = Invalid | BaseAddress | V2PTranslations | Ready

primrec status_code :: "LogInitStatus \<Rightarrow> nat" where
  "status_code Invalid = 0"
| "status_code BaseAddress = 1"
| "status_code V2PTranslations = 2"
| "status_code Ready = 3"

instantiation LogInitStatus :: linorder
begin

definition less_eq_LogInitStatus :: "LogInitStatus \<Rightarrow> LogInitStatus \<Rightarrow> bool" where
  "less_eq_LogInitStatus a b \<longleftrightarrow> status_code a \<le> status_code b"

definition less_LogInitStatus :: "LogInitStatus \<Rightarrow> LogInitStatus \<Rightarrow> bool" where
  "less_LogInitStatus a b \<longleftrightarrow> status_code a < status_code b"

instance
proof
  fix a b :: LogInitStatus
  show "a \<le> b \<Longrightarrow> b \<le> a \<Longrightarrow> a = b"
    by (cases a; cases b) (simp_all add: less_eq_LogInitStatus_def)
qed (auto simp: less_eq_LogInitStatus_def less_LogInitStatus_def)

end

record eagervm =
  m_initStatus :: LogInitStatus
  m_logBaseVAddr :: addr
  m_logTLB :: "(addr, addr) smap"
  m_logNumEntries :: nat

definition eagervm_init :: "addr \<Rightarrow> eagervm" where
  "eagervm_init base0 = \<lparr>m_initStatus = Invalid, m_logBaseVAddr = base0, m_logTLB = [], m_logNumEntries = 0\<rparr>"

definition eager_begin :: "eagervm \<Rightarrow> eagervm res" where
  "eager_begin s =
     asrt EVM_cc 44 (m_logNumEntries s = 0)
       (asrt EVM_cc 45 (m_initStatus s = Ready) (asrt EVM_cc 46 (m_logTLB s \<noteq> []) (Inr s)))"

definition eager_restart :: "eagervm \<Rightarrow> eagervm" where
  "eager_restart s = s\<lparr>m_logNumEntries := 0\<rparr>"

definition eager_commit :: "eagervm \<Rightarrow> eagervm" where
  "eager_commit s = s\<lparr>m_logNumEntries := 0\<rparr>"

definition isReady :: "eagervm \<Rightarrow> bool" where
  "isReady s \<longleftrightarrow> m_initStatus s = Ready"

definition isAccessToLog :: "eagervm \<Rightarrow> addr \<Rightarrow> bool" where
  "isAccessToLog s addr =
     (if m_initStatus s = Invalid then False
      else addr \<ge> m_logBaseVAddr s \<and> addr < m_logBaseVAddr s + of_nat MAX_LOG_SIZE_BYTES)"

definition setupLogTranslation :: "addr \<Rightarrow> addr \<Rightarrow> eagervm \<Rightarrow> eagervm res" where
  "setupLogTranslation vaddr paddr s =
     rbind (if m_initStatus s = BaseAddress
      then asrt EVM_cc 74 (m_logTLB s = []) (asrt EVM_cc 76 (m_logBaseVAddr s = vaddr) (Inr ()))
      else asrt EVM_cc 78 (m_initStatus s = V2PTranslations) (Inr ()))
     (\<lambda>_.
       asrt EVM_cc 84 (smap_find (m_logTLB s) vaddr \<in> {None, Some paddr})
         (let s1 = s\<lparr>m_initStatus := V2PTranslations, m_logTLB := smap_assign vaddr paddr (m_logTLB s)\<rparr> in
          if vaddr + of_nat LOG_PAGE_SIZE_BYTES = m_logBaseVAddr s1 + of_nat MAX_LOG_SIZE_BYTES
          then Inr (s1\<lparr>m_initStatus := Ready\<rparr>) else Inr s1))"

definition setLogBaseVirtualAddress :: "addr \<Rightarrow> eagervm \<Rightarrow> eagervm res" where
  "setLogBaseVirtualAddress addr s =
     (if m_initStatus s = Invalid then Inr (s\<lparr>m_initStatus := BaseAddress, m_logBaseVAddr := addr\<rparr>)
      else asrt EVM_cc 111 (m_logBaseVAddr s = addr) (Inr s))"

definition getLogBaseVirtualAddress :: "eagervm \<Rightarrow> addr res" where
  "getLogBaseVirtualAddress s = asrt EVM_hh 46 (m_initStatus s \<ge> BaseAddress) (Inr (m_logBaseVAddr s))"

definition getLogNumEntries :: "eagervm \<Rightarrow> nat res" where
  "getLogNumEntries s = asrt EVM_hh 50 (m_initStatus s = Ready) (Inr (m_logNumEntries s))"

definition computeLogDataPointer :: "nat \<Rightarrow> eagervm \<Rightarrow> addr res" where
  "computeLogDataPointer numEntries s =
     asrt EVM_cc 118 (numEntries < MAX_LOG_SIZE_PAGES * LOG_ENTRIES_PER_PAGE)
       (Inr (logtm_compute_data_log_pointer (m_logBaseVAddr s) numEntries))"

definition translateLogAddress :: "addr \<Rightarrow> eagervm \<Rightarrow> addr res" where
  "translateLogAddress vaddr s =
     (let vpageAddr = vaddr AND PAGE_MASK; pageOffset = vaddr AND NOT PAGE_MASK in
      case smap_find (m_logTLB s) vpageAddr of
        None \<Rightarrow> Inl (AssertFail EVM_cc 129)
      | Some ppageAddr \<Rightarrow> Inr (ppageAddr OR pageOffset))"

definition addLogEntry :: "eagervm \<Rightarrow> (nat \<times> eagervm) res" where
  "addLogEntry s =
     asrt EVM_cc 138 (m_initStatus s = Ready)
       (Inr (m_logNumEntries s, s\<lparr>m_logNumEntries := m_logNumEntries s + 1\<rparr>))"

text \<open>The packet's virtual address (if any), whether it writes, and its first 8 bytes.\<close>

definition isEndLogUnrollSignal :: "addr option \<Rightarrow> bool \<Rightarrow> 64 word \<Rightarrow> eagervm \<Rightarrow> bool res" where
  "isEndLogUnrollSignal vaddr isWrite dat s =
     (case vaddr of
        None \<Rightarrow> Inl (AssertFail EVM_cc 147)
      | Some v \<Rightarrow>
          if v = m_logBaseVAddr s \<and> isWrite
          then asrt EVM_cc 154 (dat = 0xdeadc0debaadcafe) (Inr True)
          else Inr False)"

definition shutdownLog :: "eagervm \<Rightarrow> eagervm res" where
  "shutdownLog s =
     asrt EVM_cc 166 (m_initStatus s = Ready) (Inr (s\<lparr>m_initStatus := Invalid, m_logTLB := []\<rparr>))"

text \<open>
  The sequencer builds two stores to the log for a transactional store: the old block goes to the
  next data slot and the virtual line address to the matching address slot.
\<close>

record log_request =
  logAddrPkt_addr :: addr
  logDataPkt_addr :: addr
  logDataPkt_data :: "byte list"
  logAddrPkt_data :: addr
  log_index :: nat

definition buildLogPackets ::
    "htm_params \<Rightarrow> bool \<Rightarrow> addr option \<Rightarrow> DataBlock \<Rightarrow> eagervm \<Rightarrow> (log_request \<times> eagervm) res" where
  "buildLogPackets c isHtmTransactional vaddr datablock s =
     (let b = block_size_bits c in
      asrt TSeq_cc 1363 isHtmTransactional
      (case vaddr of None \<Rightarrow> Inl (AssertFail TSeq_cc 1364) | Some mainVaddr \<Rightarrow>
       rbind (addLogEntry s) (\<lambda>(logIndex, s1).
       rbind (computeLogDataPointer logIndex s1) (\<lambda>logDataVPtr.
       rbind (translateLogAddress logDataVPtr s1) (\<lambda>logDataPtr.
       asrt TSeq_cc 1376 (logDataPtr = makeLineAddress b logDataPtr)
       (rbind (logtm_compute_addr_ptr_from_data_ptr logDataPtr) (\<lambda>logAddressPtr.
        if makeLineAddress b logDataPtr = makeLineAddress b logAddressPtr
        then Inl (PanicAt TSeq_cc 1380)
        else asrt TSeq_cc 1385 (makeLineAddress b logDataPtr = logDataPtr)
          (rbind (getData (getBlockSizeBytes b) datablock 0 (getBlockSizeBytes b)) (\<lambda>dat.
            Inr (\<lparr>logAddrPkt_addr = logAddressPtr, logDataPkt_addr = logDataPtr, logDataPkt_data = dat,
                  logAddrPkt_data = makeLineAddress b mainVaddr, log_index = logIndex\<rparr>, s1))))))))))"

section \<open>Slots of the log\<close>

lemma div_mod_parts: "x = d * p + r \<Longrightarrow> r < d \<Longrightarrow> x div d = p \<and> x mod d = r" for x d p r :: nat
  by simp

lemma div_mod_eq: "m div d = n div d \<Longrightarrow> m mod d = n mod d \<Longrightarrow> m = n" for m n d :: nat
  by (metis div_mult_mod_eq)

lemma data_offset_split:
  assumes "k < 64"
  shows "(data_log_offset i + k) div 4096 = i div 56 \<and> (data_log_offset i + k) mod 4096 = 64 * (i mod 56) + k"
proof (rule div_mod_parts)
  show "64 * (i mod 56) + k < 4096" using assms mod_less_divisor [of 56 i] by linarith
qed (simp add: data_log_offset_def log_sizes)

lemma addr_offset_split:
  "addr_log_offset i div 4096 = i div 56 \<and> addr_log_offset i mod 4096 = 4088 - 8 * (i mod 56)"
proof (rule div_mod_parts)
  have "8 * (i mod 56) + 8 \<le> 4088" using mod_less_divisor [of 56 i] by linarith
  then show "addr_log_offset i = 4096 * (i div 56) + (4088 - 8 * (i mod 56))"
    by (simp add: addr_log_offset_def log_sizes)
qed simp

lemma data_offset_inject:
  assumes "data_log_offset i + k = data_log_offset j + l" and "k < 64" and "l < 64"
  shows "i = j \<and> k = l"
proof -
  have pg: "i div 56 = j div 56" and eq: "64 * (i mod 56) + k = 64 * (j mod 56) + l"
    using assms(1) data_offset_split [OF assms(2), of i] data_offset_split [OF assms(3), of j] by auto
  have "i mod 56 = j mod 56 \<and> k = l"
    using div_mod_parts [OF eq assms(3)] div_mod_parts [OF refl assms(2), of "i mod 56"] by auto
  then show ?thesis using div_mod_eq [OF pg] by blast
qed

lemma addr_offset_inject:
  assumes "addr_log_offset i = addr_log_offset j" shows "i = j"
proof -
  have pg: "i div 56 = j div 56" and eq: "4088 - 8 * (i mod 56) = 4088 - 8 * (j mod 56)"
    using assms addr_offset_split [of i] addr_offset_split [of j] by auto
  have "i mod 56 < 56" "j mod 56 < 56" by simp_all
  with eq have "i mod 56 = j mod 56" by linarith
  with pg show ?thesis by (rule div_mod_eq)
qed

lemma data_addr_disjoint: "k < 64 \<Longrightarrow> data_log_offset i + k \<noteq> addr_log_offset j"
proof
  assume "k < 64" and eq: "data_log_offset i + k = addr_log_offset j"
  then have "64 * (i mod 56) + k = 4088 - 8 * (j mod 56)"
    using data_offset_split [OF \<open>k < 64\<close>, of i] addr_offset_split [of j] by simp
  moreover have "i mod 56 < 56" "j mod 56 < 56" by simp_all
  ultimately show False using \<open>k < 64\<close> by linarith
qed

lemma log_offset_bound:
  assumes "i < MAX_LOG_SIZE_PAGES * LOG_ENTRIES_PER_PAGE"
  shows "k < 64 \<Longrightarrow> data_log_offset i + k < MAX_LOG_SIZE_BYTES" and "addr_log_offset i < MAX_LOG_SIZE_BYTES"
proof -
  have "i div 56 < 256" using assms by (simp add: log_sizes less_mult_imp_div_less)
  then have "x < 256 * 4096" if "x div 4096 = i div 56" for x :: nat
    using that div_less_iff_less_mult [of 4096 x 256] by linarith
  then show "k < 64 \<Longrightarrow> data_log_offset i + k < MAX_LOG_SIZE_BYTES" and "addr_log_offset i < MAX_LOG_SIZE_BYTES"
    using data_offset_split [of k i] addr_offset_split [of i] by (simp_all add: log_sizes)
qed

section \<open>Unrolling restores memory\<close>

definition data_slot :: "addr \<Rightarrow> nat \<Rightarrow> nat \<Rightarrow> addr" where
  "data_slot base i k = base + of_nat (data_log_offset i) + of_nat (8 * k)"

definition addr_slot :: "addr \<Rightarrow> nat \<Rightarrow> addr" where
  "addr_slot base i = base + of_nat (addr_log_offset i)"

definition in_log :: "addr \<Rightarrow> addr \<Rightarrow> bool" where
  "in_log base a \<longleftrightarrow> unat (a - base) < MAX_LOG_SIZE_BYTES"

definition word_at :: "addr \<Rightarrow> nat \<Rightarrow> addr" where
  "word_at l k = l + of_nat (8 * k)"

definition max_entries :: nat where
  "max_entries = MAX_LOG_SIZE_PAGES * LOG_ENTRIES_PER_PAGE"

lemma unat_small: "x < 2 ^ 64 \<Longrightarrow> unat (of_nat x :: addr) = x"
  by (simp add: unsigned_of_nat take_bit_nat_eq_self)

lemma of_nat_inj64: "x < 2 ^ 64 \<Longrightarrow> y < 2 ^ 64 \<Longrightarrow> (of_nat x :: addr) = of_nat y \<longleftrightarrow> x = y"
  by (metis unat_small)

lemma data_slot_offset: "data_slot base i k = base + of_nat (data_log_offset i + 8 * k)"
  by (simp add: data_slot_def add.assoc)

lemma slot_bounds:
  assumes "i < max_entries"
  shows "k < 8 \<Longrightarrow> data_log_offset i + 8 * k < MAX_LOG_SIZE_BYTES" and "addr_log_offset i < MAX_LOG_SIZE_BYTES"
    and "MAX_LOG_SIZE_BYTES < 2 ^ 64"
  using log_offset_bound(1) [of i "8 * k"] log_offset_bound(2) [of i] assms
  by (simp_all add: max_entries_def log_sizes)

lemma slots_in_log:
  assumes "i < max_entries"
  shows "k < 8 \<Longrightarrow> in_log base (data_slot base i k)" and "in_log base (addr_slot base i)"
proof -
  show "in_log base (addr_slot base i)"
    using slot_bounds(2,3) [OF assms] unat_small [of "addr_log_offset i"]
    by (simp add: in_log_def addr_slot_def)
  assume "k < 8"
  then show "in_log base (data_slot base i k)"
    using slot_bounds(1) [OF assms, of k] slot_bounds(3) [OF assms]
      unat_small [of "data_log_offset i + 8 * k"]
    by (simp add: in_log_def data_slot_offset del: of_nat_add)
qed

lemma data_slot_inject:
  assumes "i < max_entries" "j < max_entries" "k < 8" "l < 8"
  shows "data_slot base i k = data_slot base j l \<longleftrightarrow> i = j \<and> k = l"
proof
  assume "data_slot base i k = data_slot base j l"
  then have "data_log_offset i + 8 * k = data_log_offset j + 8 * l"
    unfolding data_slot_offset add_left_cancel
    using of_nat_inj64 slot_bounds(1,3) assms by (meson less_trans)
  then show "i = j \<and> k = l" using data_offset_inject [of i "8 * k" j "8 * l"] assms by auto
qed auto

lemma addr_slot_inject:
  assumes "i < max_entries" "j < max_entries"
  shows "addr_slot base i = addr_slot base j \<longleftrightarrow> i = j"
proof
  assume "addr_slot base i = addr_slot base j"
  then have "addr_log_offset i = addr_log_offset j"
    unfolding addr_slot_def add_left_cancel
    using of_nat_inj64 slot_bounds(2,3) assms by (meson less_trans)
  then show "i = j" by (rule addr_offset_inject)
qed auto

lemma data_addr_slot:
  assumes "i < max_entries" "j < max_entries" "k < 8"
  shows "data_slot base i k \<noteq> addr_slot base j"
proof
  assume "data_slot base i k = addr_slot base j"
  then have "data_log_offset i + 8 * k = addr_log_offset j"
    unfolding data_slot_offset addr_slot_def add_left_cancel
    using of_nat_inj64 slot_bounds assms by (meson less_trans)
  then show False using data_addr_disjoint [of "8 * k" i j] assms by simp
qed

lemma word_at_inject: "k < 8 \<Longrightarrow> j < 8 \<Longrightarrow> word_at l k = word_at l j \<longleftrightarrow> k = j"
  unfolding word_at_def add_left_cancel using of_nat_inj64 [of "8 * k" "8 * j"] by simp

lemmas slot_simps = data_slot_inject addr_slot_inject data_addr_slot data_addr_slot [symmetric]

lemma copy_block_words:
  assumes "\<forall>j < 8. \<forall>k < 8. word_at src j \<noteq> word_at dst k"
  shows "k < 8 \<Longrightarrow> copy_block dst src m (word_at dst k) = m (word_at src k)"
    and "\<forall>k < 8. a \<noteq> word_at dst k \<Longrightarrow> copy_block dst src m a = m a"
proof -
  let ?f = "\<lambda>k m. m(word_at dst k := m (word_at src k))"
  have eq: "copy_block dst src m = fold ?f [0..<8] m"
    by (simp add: copy_block_def word_at_def log_sizes)
  have run: "(\<forall>k < n. fold ?f [0..<n] m (word_at dst k) = m (word_at src k))
      \<and> (\<forall>a. (\<forall>k < n. a \<noteq> word_at dst k) \<longrightarrow> fold ?f [0..<n] m a = m a)" if "n \<le> 8" for n
    using that
  proof (induction n)
    case (Suc n)
    have "\<forall>k < n. word_at src n \<noteq> word_at dst k" using assms Suc.prems by simp
    moreover have "\<forall>k < n. word_at dst k \<noteq> word_at dst n" using word_at_inject Suc.prems by simp
    ultimately show ?case using Suc by (simp add: less_Suc_eq)
  qed simp
  show "k < 8 \<Longrightarrow> copy_block dst src m (word_at dst k) = m (word_at src k)"
    and "\<forall>k < 8. a \<noteq> word_at dst k \<Longrightarrow> copy_block dst src m a = m a"
    unfolding eq using run [of 8] by simp_all
qed

text \<open>The walk with its pointers computed afresh at every entry, as a specification of the loop.\<close>

fun undo :: "addr \<Rightarrow> nat \<Rightarrow> wmem \<Rightarrow> wmem" where
  "undo base 0 m = m"
| "undo base (Suc n) m = undo base n (copy_block (m (addr_slot base n)) (data_slot base n 0) m)"

lemma page_offset_unat: "unat (GET_PAGE_OFFSET (a + of_nat y)) = (unat a + y) mod 4096"
proof -
  have "PAGE_OFFSET_MASK = mask 12" by (simp add: PAGE_OFFSET_MASK_def log_sizes mask_eq_decr_exp)
  then have "GET_PAGE_OFFSET (a + of_nat y) = take_bit 12 (a + of_nat y)"
    unfolding GET_PAGE_OFFSET_def take_bit_eq_mask by simp
  then have "unat (GET_PAGE_OFFSET (a + of_nat y)) = unat (a + of_nat y) mod 4096"
    by (simp only: unsigned_take_bit_eq) (simp add: take_bit_eq_mod)
  also have "unat (a + of_nat y) = (unat a + y) mod 2 ^ 64"
    by (simp add: unat_word_ariths unsigned_of_nat take_bit_eq_mod mod_add_right_eq)
  also have "(unat a + y) mod 2 ^ 64 mod 4096 = (unat a + y) mod 4096"
    by (rule mod_mod_cancel) simp
  finally show ?thesis .
qed

lemma page_offset_zero:
  assumes "GET_PAGE_OFFSET base = 0"
  shows "GET_PAGE_OFFSET (base + of_nat (data_log_offset n)) = 0 \<longleftrightarrow> n mod 56 = 0"
proof -
  have "unat base mod 4096 = 0" using page_offset_unat [of base 0] assms by simp
  then have "unat (GET_PAGE_OFFSET (base + of_nat (data_log_offset n))) = data_log_offset n mod 4096"
    by (simp add: page_offset_unat mod_add_left_eq [symmetric])
  also have "\<dots> = 64 * (n mod 56)" using data_offset_split [of 0 n] by simp
  finally show ?thesis using unat_eq_zero [of "GET_PAGE_OFFSET (base + of_nat (data_log_offset n))"] by simp
qed

lemma slot_back:
  assumes "Suc n mod 56 \<noteq> 0"
  shows "data_log_offset (Suc n) = data_log_offset n + 64" and "addr_log_offset n = addr_log_offset (Suc n) + 8"
proof -
  have "Suc n mod 56 = Suc (n mod 56)" "Suc n div 56 = n div 56"
    using assms by (simp_all add: mod_Suc div_Suc split: if_splits)
  moreover have "8 * (n mod 56) + 16 \<le> 4096" using mod_less_divisor [of 56 n] by linarith
  ultimately show "data_log_offset (Suc n) = data_log_offset n + 64"
    and "addr_log_offset n = addr_log_offset (Suc n) + 8"
    by (simp_all add: data_log_offset_def addr_log_offset_def log_sizes)
qed

lemma unroll_loop_undo:
  assumes "GET_PAGE_OFFSET base = 0"
  shows "unroll_loop base n (data_slot base n 0) (addr_slot base n) m = undo base (Suc n) m"
proof (induction n arbitrary: m)
  case 0
  then show ?case by simp
next
  case (Suc n)
  let ?m = "copy_block (m (addr_slot base (Suc n))) (data_slot base (Suc n) 0) m"
  have "unroll_loop base (Suc n) (data_slot base (Suc n) 0) (addr_slot base (Suc n)) m
      = unroll_loop base n (data_slot base n 0) (addr_slot base n) ?m"
  proof (cases "Suc n mod 56 = 0")
    case True
    then show ?thesis using page_offset_zero [OF assms, of "Suc n"]
      by (simp add: data_slot_def addr_slot_def Let_def)
  next
    case False
    then show ?thesis using page_offset_zero [OF assms, of "Suc n"] slot_back [OF False]
      by (simp add: data_slot_def addr_slot_def Let_def log_sizes algebra_simps)
  qed
  then show ?case using Suc.IH [of ?m] by simp
qed

lemma logtm_log_unroll_undo:
  "GET_PAGE_OFFSET base = 0 \<Longrightarrow> logtm_log_unroll base n m = undo base n m"
  using unroll_loop_undo [of base "n - 1" m]
  by (cases n) (simp_all add: logtm_log_unroll_def data_slot_def addr_slot_def)

text \<open>What one copy does when it writes outside the log.\<close>

definition outside :: "addr \<Rightarrow> addr \<Rightarrow> bool" where
  "outside base l \<longleftrightarrow> (\<forall>k < 8. \<not> in_log base (word_at l k))"

lemma data_slot_word [simp]: "word_at (data_slot base i 0) k = data_slot base i k"
  by (simp add: data_slot_def word_at_def)

lemma restore_block:
  assumes "i < max_entries" and "outside base l"
  shows "k < 8 \<Longrightarrow> copy_block l (data_slot base i 0) m (word_at l k) = m (data_slot base i k)"
    and "\<forall>k < 8. a \<noteq> word_at l k \<Longrightarrow> copy_block l (data_slot base i 0) m a = m a"
    and "in_log base a \<Longrightarrow> copy_block l (data_slot base i 0) m a = m a"
proof -
  have dis: "\<forall>j < 8. \<forall>k < 8. word_at (data_slot base i 0) j \<noteq> word_at l k"
    using slots_in_log(1) [OF assms(1), of _ base] assms(2) unfolding data_slot_word outside_def by metis
  show "k < 8 \<Longrightarrow> copy_block l (data_slot base i 0) m (word_at l k) = m (data_slot base i k)"
    using copy_block_words(1) [OF dis] by simp
  show other: "\<forall>k < 8. a \<noteq> word_at l k \<Longrightarrow> copy_block l (data_slot base i 0) m a = m a"
    using copy_block_words(2) [OF dis] by blast
  show "in_log base a \<Longrightarrow> copy_block l (data_slot base i 0) m a = m a"
    using other assms(2) by (auto simp: outside_def)
qed

text \<open>
  A transaction in terms of the log: before the first store to a line the hardware logs it
  (\<open>LogStore\<close>), and every store of the transaction goes to a logged line (\<open>TxWrite\<close>).
\<close>

datatype undo_event = LogStore addr | TxWrite addr "64 word"

definition log_block :: "addr \<Rightarrow> nat \<Rightarrow> addr \<Rightarrow> wmem \<Rightarrow> wmem" where
  "log_block base n l m = (copy_block (data_slot base n 0) l m)(addr_slot base n := l)"

fun event_ok :: "addr \<Rightarrow> addr list \<Rightarrow> undo_event \<Rightarrow> bool" where
  "event_ok base ls (LogStore l) \<longleftrightarrow> length ls < max_entries \<and> outside base l"
| "event_ok base ls (TxWrite a v) \<longleftrightarrow> (\<exists>l \<in> set ls. \<exists>k < 8. a = word_at l k)"

fun event_step :: "addr \<Rightarrow> undo_event \<Rightarrow> wmem \<times> addr list \<Rightarrow> wmem \<times> addr list" where
  "event_step base (LogStore l) (m, ls) = (log_block base (length ls) l m, ls @ [l])"
| "event_step base (TxWrite a v) (m, ls) = (m(a := v), ls)"

fun tx_run :: "addr \<Rightarrow> undo_event list \<Rightarrow> wmem \<times> addr list \<Rightarrow> (wmem \<times> addr list) option" where
  "tx_run base [] ml = Some ml"
| "tx_run base (e # es) ml =
     (if event_ok base (snd ml) e then tx_run base es (event_step base e ml) else None)"

text \<open>
  The log holds, for every word of a logged line, its old value in the first entry of the line.
\<close>

definition log_inv :: "addr \<Rightarrow> wmem \<Rightarrow> wmem \<Rightarrow> addr list \<Rightarrow> bool" where
  "log_inv base m0 m ls \<longleftrightarrow>
     length ls \<le> max_entries \<and> (\<forall>l \<in> set ls. outside base l)
     \<and> (\<forall>i < length ls. m (addr_slot base i) = ls ! i)
     \<and> (\<forall>i < length ls. \<forall>k < 8. (\<forall>j < i. \<forall>k' < 8. word_at (ls ! i) k \<noteq> word_at (ls ! j) k') \<longrightarrow>
          m (data_slot base i k) = m0 (word_at (ls ! i) k))
     \<and> (\<forall>a. \<not> in_log base a \<longrightarrow> (\<forall>i < length ls. \<forall>k < 8. a \<noteq> word_at (ls ! i) k) \<longrightarrow> m a = m0 a)"

lemma log_block_effect:
  assumes "n < max_entries" and "outside base l"
  shows "k < 8 \<Longrightarrow> log_block base n l m (data_slot base n k) = m (word_at l k)"
    and "log_block base n l m (addr_slot base n) = l"
    and "i < n \<Longrightarrow> k < 8 \<Longrightarrow> log_block base n l m (data_slot base i k) = m (data_slot base i k)"
    and "i < n \<Longrightarrow> log_block base n l m (addr_slot base i) = m (addr_slot base i)"
    and "\<not> in_log base a \<Longrightarrow> log_block base n l m a = m a"
proof -
  have dis: "\<forall>j < 8. \<forall>k < 8. word_at l j \<noteq> word_at (data_slot base n 0) k"
    using slots_in_log(1) [OF assms(1), of _ base] assms(2) unfolding data_slot_word outside_def by metis
  have keep: "log_block base n l m a = m a"
    if "a \<noteq> addr_slot base n" "\<forall>k < 8. a \<noteq> data_slot base n k" for a
    using that copy_block_words(2) [OF dis, of a m] by (simp add: log_block_def)
  show "k < 8 \<Longrightarrow> log_block base n l m (data_slot base n k) = m (word_at l k)"
    using copy_block_words(1) [OF dis, of k m] data_addr_slot [OF assms(1,1), of k base]
    by (simp add: log_block_def)
  show "log_block base n l m (addr_slot base n) = l" by (simp add: log_block_def)
  show "i < n \<Longrightarrow> k < 8 \<Longrightarrow> log_block base n l m (data_slot base i k) = m (data_slot base i k)"
    by (rule keep) (use assms(1) in \<open>simp_all add: slot_simps\<close>)
  show "i < n \<Longrightarrow> log_block base n l m (addr_slot base i) = m (addr_slot base i)"
    by (rule keep) (use assms(1) in \<open>simp_all add: slot_simps\<close>)
  show "\<not> in_log base a \<Longrightarrow> log_block base n l m a = m a"
    by (rule keep) (use slots_in_log [OF assms(1)] in blast)+
qed

lemma log_inv_LogStore:
  assumes inv: "log_inv base m0 m ls" and ok: "event_ok base ls (LogStore l)"
  shows "log_inv base m0 (log_block base (length ls) l m) (ls @ [l])"
proof -
  let ?n = "length ls" and ?m = "log_block base (length ls) l m"
  have n: "?n < max_entries" and out: "outside base l" using ok by simp_all
  note eff = log_block_effect [OF n out]
  have "?m (addr_slot base i) = (ls @ [l]) ! i" if "i < length (ls @ [l])" for i
    using that inv eff(2,4) by (auto simp: log_inv_def less_Suc_eq nth_append)
  moreover have "?m (data_slot base i k) = m0 (word_at ((ls @ [l]) ! i) k)"
    if "i < length (ls @ [l])" "k < 8"
      "\<forall>j < i. \<forall>k' < 8. word_at ((ls @ [l]) ! i) k \<noteq> word_at ((ls @ [l]) ! j) k'" for i k
  proof (cases "i < ?n")
    case True
    then show ?thesis using that inv eff(3) by (simp add: log_inv_def nth_append)
  next
    case False
    then have "i = ?n" using that(1) by simp
    moreover have "\<forall>j < ?n. \<forall>k' < 8. word_at l k \<noteq> word_at (ls ! j) k'"
      using that(3) \<open>i = ?n\<close> by (simp add: nth_append)
    moreover have "\<not> in_log base (word_at l k)" using out that(2) by (simp add: outside_def)
    ultimately show ?thesis using eff(1) [OF that(2)] inv by (simp add: log_inv_def)
  qed
  moreover have "?m a = m0 a"
    if "\<not> in_log base a" "\<forall>i < length (ls @ [l]). \<forall>k < 8. a \<noteq> word_at ((ls @ [l]) ! i) k" for a
    using that eff(5) inv by (simp add: log_inv_def nth_append less_Suc_eq)
  ultimately show ?thesis
    unfolding log_inv_def using n out inv by (auto simp: log_inv_def)
qed

lemma log_inv_TxWrite:
  assumes inv: "log_inv base m0 m ls" and ok: "event_ok base ls (TxWrite a v)"
  shows "log_inv base m0 (m(a := v)) ls"
proof -
  obtain i k where a: "i < length ls" "k < 8" "a = word_at (ls ! i) k"
    using ok by (auto simp: in_set_conv_nth)
  then have "\<not> in_log base a" using inv by (auto simp: log_inv_def outside_def)
  moreover have "i < max_entries" if "i < length ls" for i
    using that inv by (simp add: log_inv_def)
  ultimately have "addr_slot base i \<noteq> a" "k < 8 \<Longrightarrow> data_slot base i k \<noteq> a" if "i < length ls" for i k
    using slots_in_log [of i] that by metis+
  then show ?thesis using inv a by (auto simp: log_inv_def)
qed

lemma event_inv:
  assumes "log_inv base m0 m ls" and "event_ok base ls e"
  shows "case event_step base e (m, ls) of (m', ls') \<Rightarrow> log_inv base m0 m' ls'"
  using assms log_inv_LogStore log_inv_TxWrite by (cases e) (simp_all del: event_ok.simps)

lemma tx_run_inv:
  "tx_run base es (m, ls) = Some (m', ls') \<Longrightarrow> log_inv base m0 m ls \<Longrightarrow> log_inv base m0 m' ls'"
proof (induction es arbitrary: m ls)
  case (Cons e es)
  then have ok: "event_ok base ls e" and run: "tx_run base es (event_step base e (m, ls)) = Some (m', ls')"
    by (auto split: if_splits simp del: event_ok.simps)
  obtain m1 ls1 where st: "event_step base e (m, ls) = (m1, ls1)" by (cases "event_step base e (m, ls)")
  with Cons.IH [of m1 ls1] run event_inv [OF Cons.prems(2) ok] show ?case by simp
qed simp

lemma undo_spec:
  assumes "length ls \<le> max_entries" and "\<forall>l \<in> set ls. outside base l"
    and "\<forall>i < length ls. m (addr_slot base i) = ls ! i" and "n \<le> length ls" and "\<not> in_log base a"
  shows "(\<forall>i < n. \<forall>k < 8. a = word_at (ls ! i) k \<longrightarrow> (\<forall>j < i. \<forall>k' < 8. a \<noteq> word_at (ls ! j) k') \<longrightarrow>
             undo base n m a = m (data_slot base i k))
    \<and> ((\<forall>i < n. \<forall>k < 8. a \<noteq> word_at (ls ! i) k) \<longrightarrow> undo base n m a = m a)"
  using assms(3,4)
proof (induction n arbitrary: m)
  case (Suc n)
  let ?m = "copy_block (ls ! n) (data_slot base n 0) m"
  have n: "n < max_entries" and out: "outside base (ls ! n)" using Suc.prems assms(1,2) by simp_all
  note res = restore_block [OF n out, of _ m]
  have slots: "in_log base (addr_slot base i)" "k < 8 \<Longrightarrow> in_log base (data_slot base i k)" if "i \<le> n" for i k
    using slots_in_log that n by auto
  have step: "undo base (Suc n) m = undo base n ?m" using Suc.prems by simp
  have "\<forall>i < length ls. ?m (addr_slot base i) = ls ! i"
    using res(3) slots_in_log(2) assms(1) Suc.prems(1) by auto
  then have IH: "\<lbrakk>i < n; k < 8; a = word_at (ls ! i) k; \<forall>j < i. \<forall>k' < 8. a \<noteq> word_at (ls ! j) k'\<rbrakk> \<Longrightarrow>
      undo base n ?m a = ?m (data_slot base i k)"
    "(\<forall>i < n. \<forall>k < 8. a \<noteq> word_at (ls ! i) k) \<Longrightarrow> undo base n ?m a = ?m a" for i k
    using Suc.IH [of ?m] Suc.prems by simp_all
  show ?case
    unfolding step using IH res(1,2) res(3) [OF slots(2)] by (auto simp: less_Suc_eq)
qed simp

lemma undo_restores:
  assumes inv: "log_inv base m0 m ls" and "\<not> in_log base a"
  shows "undo base (length ls) m a = m0 a"
proof (cases "\<exists>i < length ls. \<exists>k < 8. a = word_at (ls ! i) k")
  case True
  define i where "i = (LEAST i. i < length ls \<and> (\<exists>k < 8. a = word_at (ls ! i) k))"
  obtain k where i: "i < length ls" "k < 8" "a = word_at (ls ! i) k"
    using LeastI_ex [OF True] unfolding i_def by blast
  have "\<forall>j < i. \<forall>k' < 8. a \<noteq> word_at (ls ! j) k'"
  proof (intro allI impI)
    fix j k' :: nat assume "j < i" "k' < 8"
    then show "a \<noteq> word_at (ls ! j) k'"
      using not_less_Least [of j "\<lambda>i. i < length ls \<and> (\<exists>k < 8. a = word_at (ls ! i) k)"] i(1)
      unfolding i_def [symmetric] by auto
  qed
  then show ?thesis
    using undo_spec [of ls base m "length ls" a] inv i assms(2) by (simp add: log_inv_def)
next
  case False
  then show ?thesis using undo_spec [of ls base m "length ls" a] inv assms(2) by (simp add: log_inv_def)
qed

section \<open>Translation of the log\<close>

text \<open>
  The runtime touches every page of the log once, in order, and each touch reports a translation.
\<close>

fun walk_log :: "(addr \<Rightarrow> addr) \<Rightarrow> addr \<Rightarrow> nat \<Rightarrow> eagervm \<Rightarrow> eagervm res" where
  "walk_log tr base 0 s = Inr s"
| "walk_log tr base (Suc n) s =
     rbind (walk_log tr base n s) (setupLogTranslation (base + of_nat (4096 * n)) (tr (base + of_nat (4096 * n))))"

lemma PAGE_MASK_line: "a AND PAGE_MASK = makeLineAddress 12 a" "a AND NOT PAGE_MASK = a AND mask 12"
  "a AND PAGE_OFFSET_MASK = a AND mask 12"
  by (simp_all add: PAGE_MASK_def PAGE_OFFSET_MASK_def log_sizes makeLineAddress_alt mask_eq_decr_exp)

lemma page_aligned:
  assumes "GET_PAGE_OFFSET a = 0" shows "makeLineAddress 12 (a + of_nat (4096 * n)) = a + of_nat (4096 * n)"
proof -
  have "unat a mod 4096 = 0" using page_offset_unat [of a 0] assms by simp
  then have "unat (GET_PAGE_OFFSET (a + of_nat (4096 * n))) = 0"
    unfolding page_offset_unat by (simp add: mod_add_left_eq [symmetric])
  then have "(a + of_nat (4096 * n)) AND mask 12 = 0"
    unfolding GET_PAGE_OFFSET_def PAGE_MASK_line unat_eq_0 .
  then show ?thesis using line_plus_offset [of 12 "a + of_nat (4096 * n)"] by simp
qed

lemma page_parts:
  assumes "GET_PAGE_OFFSET a = 0" and "x = 4096 * p + r" and "r < 4096"
  shows "(a + of_nat x) AND PAGE_MASK = a + of_nat (4096 * p)" and "(a + of_nat x) AND NOT PAGE_MASK = of_nat r"
    and "(a + of_nat x) AND PAGE_OFFSET_MASK = of_nat r"
proof -
  have eq: "a + of_nat x = a + of_nat (4096 * p) + of_nat r" using assms(2) by simp
  note al = page_aligned [OF assms(1), of p]
  show pg: "(a + of_nat x) AND PAGE_MASK = a + of_nat (4096 * p)"
    unfolding PAGE_MASK_line eq using line_add_offset(1) [OF al] assms(3) by simp
  have "(a + of_nat (4096 * p)) + ((a + of_nat x) AND mask 12) = a + of_nat (4096 * p) + of_nat r"
    using line_plus_offset [of 12 "a + of_nat x"] pg unfolding PAGE_MASK_line eq by simp
  then show "(a + of_nat x) AND NOT PAGE_MASK = of_nat r" and "(a + of_nat x) AND PAGE_OFFSET_MASK = of_nat r"
    unfolding PAGE_MASK_line by simp_all
qed

lemma page_inject: "n < 2 ^ 20 \<Longrightarrow> k < 2 ^ 20 \<Longrightarrow> base + of_nat (4096 * n) = base + of_nat (4096 * k) \<longleftrightarrow> n = k"
  for base :: addr
  unfolding add_left_cancel using of_nat_inj64 [of "4096 * n" "4096 * k"] by simp

lemma walk_log_result:
  assumes "m_initStatus s = BaseAddress" and "m_logTLB s = []" and "m_logBaseVAddr s = base" and "n \<le> 256"
  shows "\<exists>T. walk_log tr base n s =
      Inr (s\<lparr>m_initStatus := (if n = 0 then BaseAddress else if n = 256 then Ready else V2PTranslations), m_logTLB := T\<rparr>)
    \<and> (\<forall>v. smap_find T v = (if \<exists>k < n. v = base + of_nat (4096 * k) then Some (tr v) else None))
    \<and> (n = 0 \<longrightarrow> T = [])"
  using assms(4)
proof (induction n)
  case 0
  then show ?case using assms by (intro exI [of _ "[]"]) simp
next
  case (Suc n)
  then obtain T where run: "walk_log tr base n s =
      Inr (s\<lparr>m_initStatus := (if n = 0 then BaseAddress else if n = 256 then Ready else V2PTranslations), m_logTLB := T\<rparr>)"
    and T: "\<forall>v. smap_find T v = (if \<exists>k < n. v = base + of_nat (4096 * k) then Some (tr v) else None)"
    and T0: "n = 0 \<longrightarrow> T = []" by auto
  let ?v = "base + of_nat (4096 * n)"
  have "?v \<noteq> base + of_nat (4096 * k)" if "k < n" for k
    using page_inject [of n k base] that Suc.prems by (simp del: of_nat_mult add_left_cancel)
  then have new: "smap_find T ?v = None" using T by (simp del: of_nat_mult)
  have last: "?v + of_nat LOG_PAGE_SIZE_BYTES = base + of_nat MAX_LOG_SIZE_BYTES \<longleftrightarrow> Suc n = 256"
    using page_inject [of "Suc n" 256 base] Suc.prems by (simp add: log_sizes algebra_simps)
  have "walk_log tr base (Suc n) s =
      Inr (s\<lparr>m_initStatus := (if Suc n = 256 then Ready else V2PTranslations), m_logTLB := smap_assign ?v (tr ?v) T\<rparr>)"
    using run new last T0 Suc.prems assms(3)
    by (simp add: setupLogTranslation_def Let_def asrt_def del: of_nat_mult of_nat_add)
  moreover have "\<forall>v. smap_find (smap_assign ?v (tr ?v) T) v =
      (if \<exists>k < Suc n. v = base + of_nat (4096 * k) then Some (tr v) else None)"
    using T by (auto simp: less_Suc_eq)
  ultimately show ?case by (intro exI [of _ "smap_assign ?v (tr ?v) T"]) simp
qed

lemma translate_slots:
  assumes walk: "\<forall>v. smap_find (m_logTLB s) v = (if \<exists>k < 256. v = base + of_nat (4096 * k) then Some (tr v) else None)"
    and al: "GET_PAGE_OFFSET base = 0" "\<forall>p. GET_PAGE_OFFSET (tr p) = 0" and i: "i < max_entries"
  shows "\<exists>P. translateLogAddress (logtm_compute_data_log_pointer base i) s = Inr (P OR of_nat (64 * (i mod 56)))
      \<and> translateLogAddress (logtm_compute_addr_log_pointer base i) s = Inr (P OR of_nat (4088 - 8 * (i mod 56)))
      \<and> GET_PAGE_OFFSET P = 0"
proof -
  let ?p = "base + of_nat (4096 * (i div 56))"
  have pg: "i div 56 < 256" using i by (simp add: max_entries_def log_sizes less_mult_imp_div_less)
  then have tlb: "smap_find (m_logTLB s) ?p = Some (tr ?p)" using walk by auto
  have d: "data_log_offset i = 4096 * (i div 56) + 64 * (i mod 56)" "64 * (i mod 56) < 4096"
    using mod_less_divisor [of 56 i] by (simp add: data_log_offset_def log_sizes, linarith)
  have a: "addr_log_offset i = 4096 * (i div 56) + (4088 - 8 * (i mod 56))" "4088 - 8 * (i mod 56) < 4096"
    using addr_offset_split [of i] by (metis mult_div_mod_eq, simp)
  show ?thesis
    using page_parts(1,2) [OF al(1) d] page_parts(1,2) [OF al(1) a] tlb al(2)
    by (intro exI [of _ "tr ?p"])
      (simp add: translateLogAddress_def logtm_compute_data_log_pointer_def logtm_compute_addr_log_pointer_def)
qed

lemma or_page:
  assumes "GET_PAGE_OFFSET P = 0" and "r < 4096"
  shows "P OR of_nat r = P + of_nat r"
proof -
  have "take_bit 12 P = 0" using assms(1) unfolding GET_PAGE_OFFSET_def PAGE_MASK_line take_bit_eq_mask .
  moreover have "take_bit 12 (of_nat r) = (of_nat r :: addr)"
    using assms(2) by (simp add: take_bit_of_nat take_bit_nat_eq_self)
  ultimately have "P AND of_nat r = 0"
    by (intro bit_word_eqI) (auto simp: bit_eq_iff bit_simps)
  then show ?thesis by (rule disjunctive_add_eq_or [symmetric])
qed

lemma addr_ptr_from_data:
  assumes "GET_PAGE_OFFSET P = 0"
  shows "logtm_compute_addr_ptr_from_data_ptr (P OR of_nat (64 * (i mod 56))) = Inr (P OR of_nat (4088 - 8 * (i mod 56)))"
proof -
  have r: "64 * (i mod 56) < 3584" using mod_less_divisor [of 56 i] by linarith
  have eq: "P OR of_nat (64 * (i mod 56)) = P + of_nat (64 * (i mod 56))"
    by (rule or_page [OF assms]) (use r in simp)
  note parts = page_parts [OF assms, of "64 * (i mod 56)" 0 "64 * (i mod 56)"]
  have "4096 - (i mod 56 + 1) * 8 = 4088 - 8 * (i mod 56)" by simp
  then show ?thesis
    unfolding logtm_compute_addr_ptr_from_data_ptr_def eq Let_def log_sizes
    using parts r unat_small [of "64 * (i mod 56)"] by (simp add: asrt_def del: of_nat_mult)
qed

section \<open>Properties\<close>

text \<open>
  C7. Rolling back works. Take any run of a transaction that logs a line before it first writes
  it, with any number of entries the log can hold, lines logged more than once included. After
  the abort handler has walked the log, every word outside the log has its old value.
\<close>

theorem log_unroll_restores:
  assumes "tx_run base es (m0, []) = Some (m, ls)" and "GET_PAGE_OFFSET base = 0" and "\<not> in_log base a"
  shows "logtm_log_unroll base (length ls) m a = m0 a"
proof -
  have "log_inv base m0 m0 []" by (simp add: log_inv_def)
  with tx_run_inv [OF assms(1)] have "log_inv base m0 m ls" by blast
  from undo_restores [OF this assms(3)] show ?thesis by (simp add: logtm_log_unroll_undo [OF assms(2)])
qed

theorem log_unroll_restores_witness:
  "\<exists>m ls. tx_run 0x100000 [LogStore 0x40, TxWrite 0x48 5, LogStore 0x40, TxWrite 0x40 6] (\<lambda>a. a, []) = Some (m, ls)
     \<and> m 0x48 = 5 \<and> logtm_log_unroll 0x100000 (length ls) m 0x48 = 0x48"
proof -
  let ?es = "[LogStore 0x40, TxWrite 0x48 5, LogStore 0x40, TxWrite 0x40 6]"
  have "\<forall>k \<in> set [0..<8]. \<not> in_log 0x100000 (word_at 0x40 k)"
    by (simp add: in_log_def word_at_def log_sizes upt_rec)
  then have out: "outside 0x100000 0x40" by (simp add: outside_def)
  have w: "\<exists>k < 8. (0x48 :: addr) = word_at 0x40 k" "\<exists>k < 8. (0x40 :: addr) = word_at 0x40 k"
    by (intro exI [of _ 1], simp add: word_at_def) (intro exI [of _ 0], simp add: word_at_def)
  define m where "m = fst (fold (event_step 0x100000) ?es (\<lambda>a. a, []))"
  have run: "tx_run 0x100000 ?es (\<lambda>a. a, []) = Some (m, [0x40, 0x40])"
    using out w by (simp add: m_def max_entries_def log_sizes)
  have off: "\<not> in_log 0x100000 (0x48 :: addr)" by (simp add: in_log_def log_sizes)
  have "log_block 0x100000 1 0x40 f 0x48 = f 0x48" for f
    using log_block_effect(5) [of 1 "0x100000" "0x40" "0x48" f] out off by (simp add: max_entries_def log_sizes)
  then have "m 0x48 = 5" by (simp add: m_def)
  then show ?thesis
    using run log_unroll_restores [OF run _ off] by (auto simp: GET_PAGE_OFFSET_def PAGE_OFFSET_MASK_def log_sizes)
qed

text \<open>
  C24. Hardware and handler agree on the log. After the runtime has walked its 256 pages the log is
  ready, every entry has a translation, and the address slot the sequencer derives from the
  physical data slot is the translation of the address slot the handler reads.
\<close>

theorem log_slots_agree:
  assumes "m_initStatus s = BaseAddress" and "m_logTLB s = []" and "m_logBaseVAddr s = base"
    and "GET_PAGE_OFFSET base = 0" and "\<forall>p. GET_PAGE_OFFSET (tr p) = 0" and "i < max_entries"
  shows "\<exists>s' d a. walk_log tr base MAX_LOG_SIZE_PAGES s = Inr s' \<and> isReady s'
    \<and> rbind (computeLogDataPointer i s') (\<lambda>v. translateLogAddress v s') = Inr d
    \<and> logtm_compute_addr_ptr_from_data_ptr d = Inr a
    \<and> translateLogAddress (logtm_compute_addr_log_pointer base i) s' = Inr a"
proof -
  obtain T where run: "walk_log tr base 256 s = Inr (s\<lparr>m_initStatus := Ready, m_logTLB := T\<rparr>)"
    and T: "\<forall>v. smap_find T v = (if \<exists>k < 256. v = base + of_nat (4096 * k) then Some (tr v) else None)"
    using walk_log_result [OF assms(1-3), of 256 tr] by auto
  let ?s = "s\<lparr>m_initStatus := Ready, m_logTLB := T\<rparr>"
  obtain P where P: "translateLogAddress (logtm_compute_data_log_pointer base i) ?s = Inr (P OR of_nat (64 * (i mod 56)))"
    "translateLogAddress (logtm_compute_addr_log_pointer base i) ?s = Inr (P OR of_nat (4088 - 8 * (i mod 56)))"
    "GET_PAGE_OFFSET P = 0"
    using translate_slots [of ?s base tr i] T assms(4-6) by auto
  show ?thesis
    using run P addr_ptr_from_data [OF P(3), of i] assms(3,6)
    by (intro exI [of _ ?s] exI [of _ "P OR of_nat (64 * (i mod 56))"]
        exI [of _ "P OR of_nat (4088 - 8 * (i mod 56))"])
      (simp add: isReady_def computeLogDataPointer_def asrt_def max_entries_def MAX_LOG_SIZE_PAGES_def)
qed

theorem log_slots_agree_witness:
  "\<exists>s' d a. walk_log (\<lambda>v. (v + 0x10000) AND PAGE_MASK) 0x100000 MAX_LOG_SIZE_PAGES
       ((eagervm_init 0)\<lparr>m_initStatus := BaseAddress, m_logBaseVAddr := 0x100000\<rparr>) = Inr s' \<and> isReady s'
     \<and> rbind (computeLogDataPointer 57 s') (\<lambda>v. translateLogAddress v s') = Inr d
     \<and> logtm_compute_addr_ptr_from_data_ptr d = Inr a"
  using log_slots_agree [of "(eagervm_init 0)\<lparr>m_initStatus := BaseAddress, m_logBaseVAddr := 0x100000\<rparr>"
      "0x100000" "\<lambda>v. (v + 0x10000) AND PAGE_MASK" 57]
  by (auto simp: eagervm_init_def GET_PAGE_OFFSET_def PAGE_OFFSET_MASK_def PAGE_MASK_def log_sizes
      max_entries_def and.assoc)

end
