(* ===== verification/Checkers.thy ===== *)
theory Checkers
  imports Isolation Ruby_Data
begin

text \<open>
  \<^verbatim>\<open>mem/ruby/htm/XactIsolationChecker.cc\<close> and \<^verbatim>\<open>mem/ruby/htm/XactValueChecker.cc\<close>: the two run-time
  sanity checkers of the HTM system. The isolation checker is shown to accept an access exactly
  when it does not conflict with a running transaction; the value checker is shown to accept
  exactly the loads that return the last visible bytes, up to one assertion on their origin.
\<close>

section \<open>Request types\<close>

datatype RubyRequestType =
  LD | ST | ATOMIC | ATOMIC_RETURN | ATOMIC_NO_RETURN | IFETCH | IO | REPLACEMENT | Load_Linked
| Store_Conditional | RMW_Read | RMW_Write | Locked_RMW_Read | Locked_RMW_Write | COMMIT | NULL
| FLUSH | Release | Acquire | AcquireRelease | HTM_Start | HTM_Commit | HTM_Cancel | HTM_Abort
| HTM_Validate

section \<open>Isolation checker\<close>

type_synonym tick = nat

record isochecker =
  xic_readSet :: "(addr, tick) smap list"
  xic_writeSet :: "(addr, tick) smap list"
  m_abortingProcessor :: "bool list"
  m_num_sequencers :: nat

definition isochecker_init :: "htm_params \<Rightarrow> nat \<Rightarrow> isochecker res" where
  "isochecker_init c num_sequencers =
     (if \<not> eager_cd c then Inl (PanicAt XIC_cc 34)
      else Inr \<lparr>xic_readSet = replicate num_sequencers [], xic_writeSet = replicate num_sequencers [],
                m_abortingProcessor = replicate num_sequencers False, m_num_sequencers = num_sequencers\<rparr>)"

definition existInReadSet :: "nat \<Rightarrow> addr \<Rightarrow> isochecker \<Rightarrow> bool res" where
  "existInReadSet proc addr s =
     vread XIC_cc 45 (xic_readSet s) proc (\<lambda>m. Inr (smap_find m addr \<noteq> None))"

definition existInWriteSet :: "nat \<Rightarrow> addr \<Rightarrow> isochecker \<Rightarrow> bool res" where
  "existInWriteSet proc addr s =
     vread XIC_cc 55 (xic_writeSet s) proc (\<lambda>m. Inr (smap_find m addr \<noteq> None))"

definition check_against :: "nat \<Rightarrow> addr \<Rightarrow> bool \<Rightarrow> RubyRequestType \<Rightarrow> isochecker \<Rightarrow> nat \<Rightarrow> bool \<Rightarrow> bool res" where
  "check_against proc addr tx accessType s i ok =
     (if i = proc then Inr ok
      else vread XIC_cc 73 (m_abortingProcessor s) i (\<lambda>aborting.
        if aborting then Inr ok
        else if accessType = LD then
          rbind (existInWriteSet i addr s) (\<lambda>w.
            if w then rbind (existInReadSet proc addr s) (\<lambda>r.
              if r then asrt XIC_cc 78 tx (Inr False) else Inr ok)
            else Inr ok)
        else if accessType \<in> {ST, ATOMIC} then
          rbind (existInReadSet i addr s) (\<lambda>r.
          rbind (existInWriteSet i addr s) (\<lambda>w.
            Inr (ok \<and> \<not> r \<and> \<not> w)))
        else Inr ok))"

definition checkXACTIsolation :: "htm_params \<Rightarrow> nat \<Rightarrow> addr \<Rightarrow> bool \<Rightarrow> RubyRequestType \<Rightarrow> isochecker \<Rightarrow> bool res" where
  "checkXACTIsolation c proc addr tx accessType s =
     rfold (check_against proc (line c addr) tx accessType s) [0..<m_num_sequencers s] True"

definition xic_addToReadSet :: "tick \<Rightarrow> nat \<Rightarrow> addr \<Rightarrow> isochecker \<Rightarrow> isochecker res" where
  "xic_addToReadSet now proc addr s =
     vread XIC_cc 130 (xic_readSet s) proc (\<lambda>m.
       if smap_find m addr = None
       then Inr (s\<lparr>xic_readSet := (xic_readSet s)[proc := smap_insert addr now m]\<rparr>) else Inr s)"

definition xic_addToWriteSet :: "tick \<Rightarrow> nat \<Rightarrow> addr \<Rightarrow> isochecker \<Rightarrow> isochecker res" where
  "xic_addToWriteSet now proc addr s =
     vread XIC_cc 142 (xic_writeSet s) proc (\<lambda>m.
       if smap_find m addr = None
       then Inr (s\<lparr>xic_writeSet := (xic_writeSet s)[proc := smap_insert addr now m]\<rparr>) else Inr s)"

definition xic_removeFromReadSet :: "nat \<Rightarrow> addr \<Rightarrow> isochecker \<Rightarrow> isochecker res" where
  "xic_removeFromReadSet proc addr s =
     vread XIC_cc 153 (xic_readSet s) proc (\<lambda>m.
       if smap_find m addr \<noteq> None
       then Inr (s\<lparr>xic_readSet := (xic_readSet s)[proc := smap_erase addr m]\<rparr>) else Inr s)"

definition xic_removeFromWriteSet :: "nat \<Rightarrow> addr \<Rightarrow> isochecker \<Rightarrow> isochecker res" where
  "xic_removeFromWriteSet proc addr s =
     vread XIC_cc 160 (xic_writeSet s) proc (\<lambda>m.
       if smap_find m addr \<noteq> None
       then Inr (s\<lparr>xic_writeSet := (xic_writeSet s)[proc := smap_erase addr m]\<rparr>) else Inr s)"

definition xic_clearWriteSet :: "nat \<Rightarrow> isochecker \<Rightarrow> isochecker res" where
  "xic_clearWriteSet proc s =
     vread XIC_cc 167 (xic_writeSet s) proc (\<lambda>_. Inr (s\<lparr>xic_writeSet := (xic_writeSet s)[proc := []]\<rparr>))"

definition xic_clearReadSet :: "nat \<Rightarrow> isochecker \<Rightarrow> isochecker res" where
  "xic_clearReadSet proc s =
     vread XIC_cc 171 (xic_readSet s) proc (\<lambda>_. Inr (s\<lparr>xic_readSet := (xic_readSet s)[proc := []]\<rparr>))"

definition setAbortingProcessor :: "nat \<Rightarrow> isochecker \<Rightarrow> isochecker res" where
  "setAbortingProcessor proc s =
     vread XIC_cc 175 (m_abortingProcessor s) proc
       (\<lambda>_. Inr (s\<lparr>m_abortingProcessor := (m_abortingProcessor s)[proc := True]\<rparr>))"

definition clearAbortingProcessor :: "nat \<Rightarrow> isochecker \<Rightarrow> isochecker res" where
  "clearAbortingProcessor proc s =
     vread XIC_cc 179 (m_abortingProcessor s) proc
       (\<lambda>_. Inr (s\<lparr>m_abortingProcessor := (m_abortingProcessor s)[proc := False]\<rparr>))"

section \<open>Value checker\<close>

record valchecker =
  m_xact_data :: "(addr, byte) smap"
  xvc_writeBuffer :: "(addr, byte) smap list"
  xvc_writeBufferBlocks :: "(addr, nat) smap list"
  m_loggedValues :: "(addr, DataBlock) smap list"
  m_unrolledValues :: "(addr, DataBlock) smap list"

definition valchecker_init :: "nat \<Rightarrow> valchecker" where
  "valchecker_init num_sequencers =
     \<lparr>m_xact_data = [], xvc_writeBuffer = replicate num_sequencers [],
      xvc_writeBufferBlocks = replicate num_sequencers [],
      m_loggedValues = replicate num_sequencers [], m_unrolledValues = replicate num_sequencers []\<rparr>"

definition readGlobalValue :: "addr \<Rightarrow> valchecker \<Rightarrow> byte res" where
  "readGlobalValue addr s =
     (case smap_find (m_xact_data s) addr of None \<Rightarrow> Inl (AssertFail XVC_cc 50) | Some b \<Rightarrow> Inr b)"

definition existGlobalValue :: "addr \<Rightarrow> valchecker \<Rightarrow> bool" where
  "existGlobalValue addr s \<longleftrightarrow> smap_find (m_xact_data s) addr \<noteq> None"

definition writeGlobalValue :: "addr \<Rightarrow> byte \<Rightarrow> valchecker \<Rightarrow> valchecker" where
  "writeGlobalValue addr v s =
     (if smap_find (m_xact_data s) addr = None
      then s\<lparr>m_xact_data := smap_insert addr v (m_xact_data s)\<rparr>
      else s\<lparr>m_xact_data := smap_assign addr v (m_xact_data s)\<rparr>)"

definition existBlockInWriteBuffer :: "htm_params \<Rightarrow> nat \<Rightarrow> addr \<Rightarrow> valchecker \<Rightarrow> bool res" where
  "existBlockInWriteBuffer c proc addr s =
     vread XVC_cc 77 (xvc_writeBufferBlocks s) proc (\<lambda>m. Inr (smap_find m (line c addr) \<noteq> None))"

definition xvc_existInWriteBuffer :: "nat \<Rightarrow> addr \<Rightarrow> valchecker \<Rightarrow> bool res" where
  "xvc_existInWriteBuffer proc addr s =
     vread XVC_cc 83 (xvc_writeBuffer s) proc (\<lambda>m. Inr (smap_find m addr \<noteq> None))"

definition xvc_getDataFromWriteBuffer :: "nat \<Rightarrow> addr \<Rightarrow> valchecker \<Rightarrow> byte res" where
  "xvc_getDataFromWriteBuffer proc addr s =
     vread XVC_cc 91 (xvc_writeBuffer s) proc (\<lambda>m.
       case smap_find m addr of None \<Rightarrow> Inl (AssertFail XVC_cc 92) | Some b \<Rightarrow> Inr b)"

text \<open>A store of the bytes \<open>bs\<close> at \<open>addr\<close>, byte by byte; the rest of the source prints it.\<close>

definition notify_tx_byte :: "htm_params \<Rightarrow> nat \<Rightarrow> addr \<Rightarrow> byte \<Rightarrow> valchecker \<Rightarrow> valchecker res" where
  "notify_tx_byte c proc a b s =
     vread XVC_cc 110 (xvc_writeBuffer s) proc (\<lambda>m.
       if smap_find m a \<noteq> None then
         asrt XVC_cc 112 (m \<noteq> [])
           (rbind (existBlockInWriteBuffer c proc a s) (\<lambda>blk.
             asrt XVC_cc 113 blk
               (Inr (s\<lparr>xvc_writeBuffer := (xvc_writeBuffer s)[proc := smap_assign a b m]\<rparr>))))
       else vread XVC_cc 122 (xvc_writeBufferBlocks s) proc (\<lambda>blks.
         Inr (s\<lparr>xvc_writeBuffer := (xvc_writeBuffer s)[proc := smap_insert a b m],
               xvc_writeBufferBlocks := (xvc_writeBufferBlocks s)[proc := smap_assign (line c a) 0 blks]\<rparr>)))"

definition notifyWrite :: "htm_params \<Rightarrow> nat \<Rightarrow> bool \<Rightarrow> addr \<Rightarrow> byte list \<Rightarrow> valchecker \<Rightarrow> valchecker res" where
  "notifyWrite c proc tx addr bs s =
     (if tx then rfold (\<lambda>i. notify_tx_byte c proc (addr + of_nat i) (bs ! i)) [0..<length bs] s
      else Inr (fold (\<lambda>i s. if existGlobalValue (addr + of_nat i) s
                            then writeGlobalValue (addr + of_nat i) (bs ! i) s else s) [0..<length bs] s))"

definition xvc_discardWriteBuffer :: "nat \<Rightarrow> valchecker \<Rightarrow> valchecker res" where
  "xvc_discardWriteBuffer proc s =
     vread XVC_cc 204 (xvc_writeBuffer s) proc (\<lambda>_.
       vread XVC_cc 205 (xvc_writeBufferBlocks s) proc (\<lambda>_.
         Inr (s\<lparr>xvc_writeBuffer := (xvc_writeBuffer s)[proc := []],
               xvc_writeBufferBlocks := (xvc_writeBufferBlocks s)[proc := []]\<rparr>)))"

text \<open>
  The load of the bytes \<open>bs\<close>: the three flags say where its bytes come from (shared memory, the write
  buffer, never written by a transaction); \<open>None\<close> is the early return on a mismatch.
\<close>

fun value_scan :: "nat \<Rightarrow> addr \<Rightarrow> byte list \<Rightarrow> valchecker \<Rightarrow> bool \<times> bool \<times> bool \<Rightarrow> (bool \<times> bool \<times> bool) option res" where
  "value_scan proc a [] s fl = Inr (Some fl)"
| "value_scan proc a (b # bs) s fl =
     rbind (xvc_existInWriteBuffer proc a s) (\<lambda>inwb.
       if inwb then rbind (xvc_getDataFromWriteBuffer proc a s) (\<lambda>d.
         if d \<noteq> b then Inr None
         else value_scan proc (a + 1) bs s (fst fl, True, snd (snd fl)))
       else if existGlobalValue a s then rbind (readGlobalValue a s) (\<lambda>d.
         if d \<noteq> b then Inr None
         else value_scan proc (a + 1) bs s (True, fst (snd fl), snd (snd fl)))
       else value_scan proc (a + 1) bs s (fst fl, fst (snd fl), True))"

definition xactValueCheck :: "nat \<Rightarrow> addr \<Rightarrow> byte list \<Rightarrow> valchecker \<Rightarrow> bool res" where
  "xactValueCheck proc address bs s =
     rbind (value_scan proc address bs s (False, False, False)) (\<lambda>r.
       case r of None \<Rightarrow> Inr False
       | Some (shared, wb, untracked) \<Rightarrow>
           asrt XVC_cc 258 (\<not> (shared \<and> wb \<and> untracked))
             (asrt XVC_cc 259 (shared \<or> wb \<or> untracked) (Inr True)))"

text \<open>
  Commit compares the buffered bytes with the cache: \<open>cache\<close> gives the block of a line when the
  processor's cache has it with write permission.
\<close>

definition commit_byte :: "htm_params \<Rightarrow> (addr \<Rightarrow> DataBlock option) \<Rightarrow> addr \<times> byte \<Rightarrow> valchecker \<Rightarrow> valchecker res" where
  "commit_byte c cache e s =
     (case cache (line c (fst e)) of
        None \<Rightarrow> Inl (AssertFail XVC_cc 340)
      | Some blk \<Rightarrow>
          if eager_cd c then
            rbind (getOffset (block_size_bits c) (fst e)) (\<lambda>off.
            rbind (getByte blk (unat off)) (\<lambda>v.
              asrt XVC_cc 347 (v = snd e) (Inr (writeGlobalValue (fst e) (snd e) s))))
          else Inl (PanicAt XVC_cc 350))"

definition xvc_commitTransaction :: "htm_params \<Rightarrow> nat \<Rightarrow> (addr \<Rightarrow> DataBlock option) \<Rightarrow> valchecker \<Rightarrow> valchecker res" where
  "xvc_commitTransaction c proc cache s =
     rbind (if lazy_vm c
            then vread XVC_cc 319 (xvc_writeBuffer s) proc (\<lambda>m. rfold (commit_byte c cache) m s)
            else vread XVC_cc 381 (m_loggedValues s) proc (\<lambda>_.
              let s1 = s\<lparr>m_loggedValues := (m_loggedValues s)[proc := []]\<rparr> in
              vread XVC_cc 382 (m_unrolledValues s1) proc (\<lambda>u. asrt XVC_cc 382 (u = []) (Inr s1))))
       (xvc_discardWriteBuffer proc)"

text \<open>
  Restart after an unrolled log: every logged block must have been written back with its logged
  value. The loop removes what it has compared and reports a mismatch at the end.
\<close>

fun compare_logged :: "nat \<Rightarrow> (addr, DataBlock) smap \<Rightarrow> (addr, DataBlock) smap \<Rightarrow> bool \<Rightarrow> ((addr, DataBlock) smap \<times> bool) res" where
  "compare_logged n [] u mismatch = Inr (u, mismatch)"
| "compare_logged n ((addr, logged) # m) u mismatch =
     (case smap_find u addr of
        None \<Rightarrow> Inl (PanicAt XVC_cc 405)
      | Some unrolled \<Rightarrow>
          compare_logged n m (smap_erase addr u) (mismatch \<or> \<not> db_equal n logged unrolled))"

definition xvc_restartTransaction :: "htm_params \<Rightarrow> nat \<Rightarrow> valchecker \<Rightarrow> valchecker res" where
  "xvc_restartTransaction c proc s =
     rbind (if \<not> lazy_vm c
            then vread XVC_cc 396 (m_loggedValues s) proc (\<lambda>m.
              vread XVC_cc 403 (m_unrolledValues s) proc (\<lambda>u.
                rbind (compare_logged (getBlockSizeBytes (block_size_bits c)) m u False) (\<lambda>(u', mismatch).
                  if mismatch then Inl (PanicAt XVC_cc 422)
                  else Inr (s\<lparr>m_loggedValues := (m_loggedValues s)[proc := []],
                             m_unrolledValues := (m_unrolledValues s)[proc := u']\<rparr>))))
            else Inr s)
       (xvc_discardWriteBuffer proc)"

definition notifyLoggedDataBlock :: "htm_params \<Rightarrow> nat \<Rightarrow> addr \<Rightarrow> DataBlock \<Rightarrow> valchecker \<Rightarrow> valchecker res" where
  "notifyLoggedDataBlock c proc addr d s =
     asrt XVC_cc 432 (addr = line c addr)
       (vread XVC_cc 433 (m_loggedValues s) proc (\<lambda>m.
         asrt XVC_cc 433 (smap_find m addr = None)
           (Inr (s\<lparr>m_loggedValues := (m_loggedValues s)[proc := smap_assign addr d m]\<rparr>))))"

definition notifyUnrolledDataBlock :: "htm_params \<Rightarrow> nat \<Rightarrow> addr \<Rightarrow> DataBlock \<Rightarrow> valchecker \<Rightarrow> valchecker res" where
  "notifyUnrolledDataBlock c proc addr d s =
     asrt XVC_cc 442 (addr = line c addr)
       (vread XVC_cc 445 (m_unrolledValues s) proc (\<lambda>m.
         Inr (s\<lparr>m_unrolledValues := (m_unrolledValues s)[proc := smap_assign addr d m]\<rparr>)))"

section \<open>The isolation checker accepts what is isolated\<close>

definition xic_ok :: "isochecker \<Rightarrow> bool" where
  "xic_ok s \<longleftrightarrow> length (xic_readSet s) = m_num_sequencers s \<and> length (xic_writeSet s) = m_num_sequencers s
     \<and> length (m_abortingProcessor s) = m_num_sequencers s"

definition rset :: "isochecker \<Rightarrow> nat \<Rightarrow> addr set" where
  "rset s i = set (smap_keys (xic_readSet s ! i))"

definition wset :: "isochecker \<Rightarrow> nat \<Rightarrow> addr set" where
  "wset s i = set (smap_keys (xic_writeSet s ! i))"

definition running :: "isochecker \<Rightarrow> nat \<Rightarrow> bool" where
  "running s i \<longleftrightarrow> i < m_num_sequencers s \<and> \<not> m_abortingProcessor s ! i"

definition isolated :: "isochecker \<Rightarrow> bool" where
  "isolated s \<longleftrightarrow> (\<forall>i j. running s i \<longrightarrow> running s j \<longrightarrow> i \<noteq> j \<longrightarrow> wset s i \<inter> (rset s j \<union> wset s j) = {})"

lemma exist_sets:
  "xic_ok s \<Longrightarrow> i < m_num_sequencers s \<Longrightarrow> existInReadSet i a s = Inr (a \<in> rset s i)"
  "xic_ok s \<Longrightarrow> i < m_num_sequencers s \<Longrightarrow> existInWriteSet i a s = Inr (a \<in> wset s i)"
  by (simp_all add: existInReadSet_def existInWriteSet_def xic_ok_def rset_def wset_def smap_keys_find)

lemma check_store:
  assumes "xic_ok s" and "t \<in> {ST, ATOMIC}"
  shows "checkXACTIsolation c proc a tx t s =
    Inr (\<forall>i. running s i \<and> i \<noteq> proc \<longrightarrow> line c a \<notin> rset s i \<union> wset s i)"
proof -
  have "rfold (check_against proc (line c a) tx t s) xs ok =
      Inr (ok \<and> (\<forall>i \<in> set xs. running s i \<and> i \<noteq> proc \<longrightarrow> line c a \<notin> rset s i \<union> wset s i))"
    if "set xs \<subseteq> {..<m_num_sequencers s}" for xs ok
    using that
  proof (induction xs arbitrary: ok)
    case (Cons i xs)
    then have "check_against proc (line c a) tx t s i ok =
        Inr (ok \<and> (running s i \<and> i \<noteq> proc \<longrightarrow> line c a \<notin> rset s i \<union> wset s i))"
      using assms by (auto simp: check_against_def exist_sets running_def xic_ok_def)
    with Cons show ?case by auto
  qed simp
  from this [of "[0..<m_num_sequencers s]" True] show ?thesis
    by (simp add: checkXACTIsolation_def running_def atLeast0LessThan Ball_def) blast
qed

lemma check_load:
  assumes "xic_ok s" and "proc < m_num_sequencers s" and "tx"
  shows "checkXACTIsolation c proc a tx LD s =
    Inr (line c a \<notin> rset s proc \<or> (\<forall>i. running s i \<and> i \<noteq> proc \<longrightarrow> line c a \<notin> wset s i))"
proof -
  have "rfold (check_against proc (line c a) tx LD s) xs ok =
      Inr (ok \<and> (\<forall>i \<in> set xs. running s i \<and> i \<noteq> proc \<and> line c a \<in> rset s proc \<longrightarrow> line c a \<notin> wset s i))"
    if "set xs \<subseteq> {..<m_num_sequencers s}" for xs ok
    using that
  proof (induction xs arbitrary: ok)
    case (Cons i xs)
    then have "check_against proc (line c a) tx LD s i ok =
        Inr (ok \<and> (running s i \<and> i \<noteq> proc \<and> line c a \<in> rset s proc \<longrightarrow> line c a \<notin> wset s i))"
      using assms by (auto simp: check_against_def exist_sets running_def xic_ok_def)
    with Cons show ?case by auto
  qed simp
  from this [of "[0..<m_num_sequencers s]" True] show ?thesis
    by (simp add: checkXACTIsolation_def running_def atLeast0LessThan Ball_def) blast
qed

lemma addWrite_sets:
  assumes "xic_ok s" and "proc < m_num_sequencers s"
  shows "\<exists>s'. xic_addToWriteSet now proc a s = Inr s' \<and> xic_ok s' \<and> rset s' = rset s
    \<and> wset s' = (wset s)(proc := insert a (wset s proc)) \<and> running s' = running s"
proof (cases "smap_find (xic_writeSet s ! proc) a = None")
  case True
  let ?s = "s\<lparr>xic_writeSet := (xic_writeSet s)[proc := smap_insert a now (xic_writeSet s ! proc)]\<rparr>"
  have "wset ?s i = ((wset s)(proc := insert a (wset s proc))) i" for i
    using assms True by (cases "i = proc") (auto simp: wset_def xic_ok_def smap_keys_find)
  then show ?thesis
    using assms True
    by (intro exI [of _ ?s]) (auto simp: xic_addToWriteSet_def xic_ok_def rset_def running_def fun_eq_iff)
next
  case False
  then have "a \<in> wset s proc" by (simp add: wset_def smap_keys_find)
  then show ?thesis
    using assms False by (auto simp: xic_addToWriteSet_def xic_ok_def insert_absorb)
qed

lemma addRead_sets:
  assumes "xic_ok s" and "proc < m_num_sequencers s"
  shows "\<exists>s'. xic_addToReadSet now proc a s = Inr s' \<and> xic_ok s' \<and> wset s' = wset s
    \<and> rset s' = (rset s)(proc := insert a (rset s proc)) \<and> running s' = running s
    \<and> m_num_sequencers s' = m_num_sequencers s"
proof (cases "smap_find (xic_readSet s ! proc) a = None")
  case True
  let ?s = "s\<lparr>xic_readSet := (xic_readSet s)[proc := smap_insert a now (xic_readSet s ! proc)]\<rparr>"
  have "rset ?s i = ((rset s)(proc := insert a (rset s proc))) i" for i
    using assms True by (cases "i = proc") (auto simp: rset_def xic_ok_def smap_keys_find)
  then show ?thesis
    using assms True
    by (intro exI [of _ ?s]) (auto simp: xic_addToReadSet_def xic_ok_def wset_def running_def fun_eq_iff)
next
  case False
  then have "a \<in> rset s proc" by (simp add: rset_def smap_keys_find)
  then show ?thesis
    using assms False by (auto simp: xic_addToReadSet_def xic_ok_def insert_absorb)
qed

section \<open>What a value check accepts\<close>

text \<open>The last value of a byte that the processor may see, if a transaction has written it.\<close>

definition visible :: "valchecker \<Rightarrow> nat \<Rightarrow> addr \<Rightarrow> byte option" where
  "visible s proc a =
     (case smap_find (xvc_writeBuffer s ! proc) a of Some b \<Rightarrow> Some b | None \<Rightarrow> smap_find (m_xact_data s) a)"

definition origin_wb :: "valchecker \<Rightarrow> nat \<Rightarrow> addr \<Rightarrow> bool" where
  "origin_wb s proc a \<longleftrightarrow> smap_find (xvc_writeBuffer s ! proc) a \<noteq> None"

definition origin_shared :: "valchecker \<Rightarrow> nat \<Rightarrow> addr \<Rightarrow> bool" where
  "origin_shared s proc a \<longleftrightarrow> \<not> origin_wb s proc a \<and> smap_find (m_xact_data s) a \<noteq> None"

definition origin_untracked :: "valchecker \<Rightarrow> nat \<Rightarrow> addr \<Rightarrow> bool" where
  "origin_untracked s proc a \<longleftrightarrow> visible s proc a = None"

definition bytes_agree :: "valchecker \<Rightarrow> nat \<Rightarrow> addr \<Rightarrow> byte list \<Rightarrow> bool" where
  "bytes_agree s proc a bs \<longleftrightarrow>
     (\<forall>i < length bs. visible s proc (a + of_nat i) \<in> {None, Some (bs ! i)})"

lemma all_less_Suc_shift: "(\<forall>i < Suc n. P i) \<longleftrightarrow> P 0 \<and> (\<forall>i < n. P (Suc i))" for n :: nat
  by (metis less_Suc_eq_0_disj)

lemma ex_less_Suc_shift: "(\<exists>i < Suc n. P i) \<longleftrightarrow> P 0 \<or> (\<exists>i < n. P (Suc i))" for n :: nat
  by (metis less_Suc_eq_0_disj)

lemma bytes_agree_Cons:
  "bytes_agree s proc a (b # bs) \<longleftrightarrow> visible s proc a \<in> {None, Some b} \<and> bytes_agree s proc (a + 1) bs"
  unfolding bytes_agree_def length_Cons all_less_Suc_shift by (simp add: add.assoc)

lemma origin_Cons:
  "(\<exists>i < length (b # bs). P (a + of_nat i)) \<longleftrightarrow> P a \<or> (\<exists>i < length bs. P (a + 1 + of_nat i))" for a :: addr
  unfolding length_Cons ex_less_Suc_shift by (simp add: add.assoc)

lemma value_scan_step:
  assumes "proc < length (xvc_writeBuffer s)"
  shows "value_scan proc a (b # bs) s (x, y, z) =
    (if visible s proc a \<in> {None, Some b}
     then value_scan proc (a + 1) bs s
       (x \<or> origin_shared s proc a, y \<or> origin_wb s proc a, z \<or> origin_untracked s proc a)
     else Inr None)"
  using assms
  by (cases "smap_find (xvc_writeBuffer s ! proc) a"; cases "smap_find (m_xact_data s) a")
    (simp_all add: xvc_existInWriteBuffer_def xvc_getDataFromWriteBuffer_def existGlobalValue_def
      readGlobalValue_def visible_def origin_shared_def origin_wb_def origin_untracked_def)

lemma value_scan_eq:
  assumes "proc < length (xvc_writeBuffer s)"
  shows "value_scan proc a bs s (x, y, z) = Inr
    (if bytes_agree s proc a bs
     then Some (x \<or> (\<exists>i < length bs. origin_shared s proc (a + of_nat i)),
                y \<or> (\<exists>i < length bs. origin_wb s proc (a + of_nat i)),
                z \<or> (\<exists>i < length bs. origin_untracked s proc (a + of_nat i)))
     else None)"
proof (induction bs arbitrary: a x y z)
  case Nil
  then show ?case by (simp add: bytes_agree_def)
next
  case (Cons b bs)
  show ?case
    unfolding value_scan_step [OF assms] bytes_agree_Cons origin_Cons Cons by simp
qed

section \<open>Commit and restart of the value checker\<close>

lemma writeGlobal_find: "smap_find (m_xact_data (writeGlobalValue a b s)) x = (if x = a then Some b else smap_find (m_xact_data s) x)"
  by (simp add: writeGlobalValue_def)

lemma writeGlobal_other [simp]:
  "xvc_writeBuffer (writeGlobalValue a b s) = xvc_writeBuffer s"
  "xvc_writeBufferBlocks (writeGlobalValue a b s) = xvc_writeBufferBlocks s"
  by (simp_all add: writeGlobalValue_def)

lemma commit_byte_Inr:
  "commit_byte c cache e s = Inr s' \<Longrightarrow> s' = writeGlobalValue (fst e) (snd e) s"
  by (auto simp: commit_byte_def res_simps split: option.splits if_splits)

lemma commit_bytes_find:
  "rfold (commit_byte c cache) m s = Inr s' \<Longrightarrow> smap_ok m \<Longrightarrow>
     smap_find (m_xact_data s') x = (case smap_find m x of Some b \<Rightarrow> Some b | None \<Rightarrow> smap_find (m_xact_data s) x)
     \<and> xvc_writeBuffer s' = xvc_writeBuffer s \<and> xvc_writeBufferBlocks s' = xvc_writeBufferBlocks s"
proof (induction m arbitrary: s)
  case (Cons e m)
  obtain a b where e: "e = (a, b)" by (cases e)
  obtain t where t: "commit_byte c cache e s = Inr t" and run: "rfold (commit_byte c cache) m t = Inr s'"
    using Cons.prems by (auto simp: res_simps)
  have t': "t = writeGlobalValue a b s" using commit_byte_Inr [OF t] e by simp
  have "smap_find m a = None" using Cons.prems(2) e by (auto simp: smap_find_None_iff)
  then show ?case
    using Cons.IH [OF run] Cons.prems(2) e t' by (auto simp: writeGlobal_find split: option.splits)
qed simp

lemma compare_logged_missing:
  "smap_find m a \<noteq> None \<Longrightarrow> smap_find u a = None \<Longrightarrow> compare_logged n m u mm = Inl (PanicAt XVC_cc 405)"
  by (induction n m u mm rule: compare_logged.induct) (auto split: option.splits if_splits)

section \<open>Properties\<close>

text \<open>
  C28. The isolation checker is sound. A store that the checker accepts can be added to the write set,
  and a load added to the read set that the checker accepts, without a running transaction
  losing isolation: no running transaction has a line in its write set that another
  one has read or written.
\<close>

theorem checked_access_isolated:
  assumes "xic_ok s" and "isolated s" and "proc < m_num_sequencers s"
  shows "(checkXACTIsolation c proc a tx ST s = Inr True \<longrightarrow>
      (\<exists>s'. xic_addToWriteSet now proc (line c a) s = Inr s' \<and> isolated s'))
    \<and> (\<exists>s'. xic_addToReadSet now proc (line c a) s = Inr s'
         \<and> (checkXACTIsolation c proc a True LD s' = Inr True \<longrightarrow> isolated s'))"
proof
  obtain w where w: "xic_addToWriteSet now proc (line c a) s = Inr w" "rset w = rset s"
    "wset w = (wset s)(proc := insert (line c a) (wset s proc))" "running w = running s"
    using addWrite_sets [OF assms(1,3)] by blast
  have "isolated w" if "\<forall>i. running s i \<and> i \<noteq> proc \<longrightarrow> line c a \<notin> rset s i \<union> wset s i"
    using that assms(2) w(2-4) by (auto simp: isolated_def)
  then show "checkXACTIsolation c proc a tx ST s = Inr True \<longrightarrow>
      (\<exists>s'. xic_addToWriteSet now proc (line c a) s = Inr s' \<and> isolated s')"
    using w(1) check_store [OF assms(1), of ST c proc a tx] by auto
next
  obtain r where r: "xic_addToReadSet now proc (line c a) s = Inr r" "xic_ok r" "wset r = wset s"
    "rset r = (rset s)(proc := insert (line c a) (rset s proc))" "running r = running s"
    "m_num_sequencers r = m_num_sequencers s"
    using addRead_sets [OF assms(1,3)] by blast
  have "isolated r" if "\<forall>i. running s i \<and> i \<noteq> proc \<longrightarrow> line c a \<notin> wset s i"
    using that assms(2) r(3-5) by (auto simp: isolated_def)
  then show "\<exists>s'. xic_addToReadSet now proc (line c a) s = Inr s'
      \<and> (checkXACTIsolation c proc a True LD s' = Inr True \<longrightarrow> isolated s')"
    using r check_load [OF r(2), of proc True c a] assms(3) by auto
qed

definition two_procs :: isochecker where
  "two_procs = \<lparr>xic_readSet = [[(0x40, 1)], []], xic_writeSet = [[], [(0x80, 2)]],
     m_abortingProcessor = [False, False], m_num_sequencers = 2\<rparr>"

theorem checked_access_isolated_witness:
  "xic_ok two_procs \<and> isolated two_procs \<and> checkXACTIsolation default_params 1 0xc0 True ST two_procs = Inr True
   \<and> (\<exists>s'. xic_addToWriteSet 3 1 (line default_params 0xc0) two_procs = Inr s' \<and> isolated s')"
proof -
  have ok: "xic_ok two_procs" by (simp add: xic_ok_def two_procs_def)
  have iso: "isolated two_procs"
    by (auto simp: isolated_def running_def two_procs_def rset_def wset_def smap_keys_def dest!: less_2_cases)
  have chk: "checkXACTIsolation default_params 1 0xc0 True ST two_procs = Inr True" by code_simp
  show ?thesis
    using checked_access_isolated [OF ok iso, of 1 default_params "0xc0" True 3] ok iso chk
    by (simp add: two_procs_def)
qed

text \<open>
  C29. The value checker is exact. A load of at least one byte is rejected when one of its bytes
  differs from the last value the processor may see. When all agree it is accepted, except
  that a load with bytes from all three origins (own write buffer, shared memory, never
  written) runs into an assertion.
\<close>

theorem value_check_exact:
  assumes "proc < length (xvc_writeBuffer s)" and "bs \<noteq> []"
  shows "xactValueCheck proc a bs s =
    (if \<not> bytes_agree s proc a bs then Inr False
     else if (\<exists>i < length bs. origin_shared s proc (a + of_nat i))
           \<and> (\<exists>i < length bs. origin_wb s proc (a + of_nat i))
           \<and> (\<exists>i < length bs. origin_untracked s proc (a + of_nat i))
     then Inl (AssertFail XVC_cc 258) else Inr True)"
proof -
  have "origin_shared s proc x \<or> origin_wb s proc x \<or> origin_untracked s proc x" for x
    by (auto simp: origin_shared_def origin_wb_def origin_untracked_def visible_def split: option.splits)
  then have some: "(\<exists>i < length bs. origin_shared s proc (a + of_nat i))
      \<or> (\<exists>i < length bs. origin_wb s proc (a + of_nat i)) \<or> (\<exists>i < length bs. origin_untracked s proc (a + of_nat i))"
    using assms(2) by (metis length_greater_0_conv)
  show ?thesis
    unfolding xactValueCheck_def value_scan_eq [OF assms(1)] using some by (auto simp: asrt_def)
qed

theorem value_check_exact_witness:
  "xactValueCheck 0 0x10 [7, 8, 9]
     ((valchecker_init 1)\<lparr>xvc_writeBuffer := [[(0x10, 7)]], m_xact_data := [(0x11, 8)]\<rparr>)
   = Inl (AssertFail XVC_cc 258)"
  using value_check_exact [of 0 "(valchecker_init 1)\<lparr>xvc_writeBuffer := [[(0x10, 7)]], m_xact_data := [(0x11, 8)]\<rparr>"
      "[7, 8, 9]" "0x10"]
  by (simp add: bytes_agree_def all_less_Suc_shift ex_less_Suc_shift origin_shared_def origin_wb_def
      origin_untracked_def visible_def)





end
