(* ===== verification/Xact_State.thy ===== *)
theory Xact_State
  imports Isolation Lazy_Version Eager_Version Checkers
begin

text \<open>
  The state of one \<^verbatim>\<open>TransactionInterfaceManager\<close> (\<^verbatim>\<open>mem/ruby/htm/TransactionInterfaceManager.{hh,cc}\<close>)
  with the managers it owns, and the operations that every other part of it uses: the
  configuration getters, the transaction and abort status, the signatures, the hardware priority
  and \<^verbatim>\<open>setAbortFlag\<close>. The record also holds what the manager reads of its surroundings: the clock,
  the sequencer's request table and stall flag, the L0 data cache and the shared checkers.
  Statistics and the annotated-region profiler are left out.
\<close>

section \<open>Machine identifiers\<close>

datatype MachineType =
  L0Cache | L1Cache | L2Cache | L3Cache | Directory | DMA | Collector | L1Cache_wCC | L2Cache_wCC
| CorePair | TCP | TCC | TCCdir | SQC | RegionDir | RegionBuffer | Cache | Memory | NULL_mach
| MachineType_NUM

record MachineID =
  mach_type :: MachineType
  mach_num :: nat

definition machineIDToNodeID :: "MachineID \<Rightarrow> nat" where
  "machineIDToNodeID m = mach_num m"

definition machineIDToMachineType :: "MachineID \<Rightarrow> MachineType" where
  "machineIDToMachineType m = mach_type m"

definition createInvalidMachineID :: MachineID where
  "createInvalidMachineID = \<lparr>mach_type = MachineType_NUM, mach_num = 0\<rparr>"

definition mach_isValid :: "MachineID \<Rightarrow> bool" where
  "mach_isValid m \<longleftrightarrow> mach_type m \<noteq> MachineType_NUM"

definition mach_less :: "MachineID \<Rightarrow> MachineID \<Rightarrow> bool" where
  "mach_less m n \<longleftrightarrow> mach_type m = mach_type n \<and> mach_num m < mach_num n"

text \<open>
  \<^verbatim>\<open>std::set<MachineID>\<close> identifies two keys when neither is less than the other. The sets are only
  searched, counted and inserted into, so a list without equivalent elements models them.
\<close>

definition mach_equiv :: "MachineID \<Rightarrow> MachineID \<Rightarrow> bool" where
  "mach_equiv m n \<longleftrightarrow> \<not> mach_less m n \<and> \<not> mach_less n m"

definition mset_find :: "MachineID list \<Rightarrow> MachineID \<Rightarrow> bool" where
  "mset_find s m \<longleftrightarrow> list_ex (mach_equiv m) s"

definition mset_insert :: "MachineID \<Rightarrow> MachineID list \<Rightarrow> MachineID list" where
  "mset_insert m s = (if mset_find s m then s else s @ [m])"

datatype TransactionBit = TransactionBit_NonTrans | TransactionBit_Trans

definition isTransactionalRequest :: "TransactionBit \<Rightarrow> bool" where
  "isTransactionalRequest t \<longleftrightarrow> t = TransactionBit_Trans"

section \<open>Integer values\<close>

text \<open>
  \<^verbatim>\<open>NC_PRIO_VALUE\<close> is \<^verbatim>\<open>INT_MIN\<close>; \<open>cint\<close> is the 32-bit two's complement result of an \<^verbatim>\<open>int\<close>
  operation. \<open>XID_NONE\<close> is \<^verbatim>\<open>std::numeric_limits<long>::min()\<close>.
\<close>

definition NC_PRIO_VALUE :: int where "NC_PRIO_VALUE = - 2147483648"
definition INITIAL_PRIO_VALUE :: int where "INITIAL_PRIO_VALUE = 0"
definition XID_NONE :: int where "XID_NONE = - 9223372036854775808"

definition cint :: "int \<Rightarrow> int" where
  "cint x = (x + 2147483648) mod 4294967296 - 2147483648"

section \<open>The state\<close>

datatype AccessPermission =
  Read_Only | Read_Write | Maybe_Stale | Backing_Store | Backing_Store_Busy | Perm_Invalid
| NotPresent | Busy

record cache_line =
  m_Permission :: AccessPermission
  m_DataBlk :: DataBlock
  m_htmLogPending :: bool

record DataForwarded =
  fwd_data :: DataBlock
  fwd_modified :: bool
  fwd_mask :: WriteMask
  nVal :: nat

record ConsumerInfo =
  producers :: "MachineID list"
  ci_data :: DataBlock
  tickConsumed :: tick
  tickValidated :: tick
  wMask :: WriteMask
  accessMask :: WriteMask
  timesVal :: nat
  locallyModified :: bool

record FwdInfo =
  fi_consumers :: "MachineID list"
  fi_modified :: bool

record ProducerInfo =
  pi_consumers :: "MachineID list"
  tickProduced :: tick
  timesModifiedAfterSharing :: int
  forwardings :: "FwdInfo list"

record conflict =
  m_timestamp :: nat
  m_possible_cycle :: bool
  m_lock_timestamp :: bool
  m_numRetries :: int
  m_receivedNack :: bool
  m_abortedByNack :: bool
  m_sentNack :: bool
  m_sentNackAddr :: addr
  m_doomed :: bool
  m_powered :: bool
  m_default_policy :: ResolutionPolicy
  m_policy :: string
  m_policy_nack_non_transactional :: bool
  m_policy_power :: bool

record arbiter =
  m_validated :: bool
  m_validating :: bool
  arb_policy :: string

text \<open>The surroundings of a manager: clock, sequencer, data cache, HTM object and checkers.\<close>

record xact_env =
  curCycle :: nat
  curTick :: tick
  m_stalled :: bool
  requestTable :: "(addr, nat) smap"
  dcache :: "(addr, cache_line) smap"
  commitTokens :: tokens
  fallbackLockPAddr :: addr
  xic :: isochecker
  xvc :: valchecker

record xact_core = xact_env +
  m_version :: nat
  iso :: isolation
  conf :: conflict
  evm :: eagervm
  lvm :: lazyvm
  arb :: arbiter
  m_transactionLevel :: nat
  tim_currentHtmUid :: nat
  m_htmXid :: int
  m_escapeLevel :: nat
  m_abortFlag :: bool
  m_unrollingLogFlag :: bool
  m_atCommit :: bool
  m_abortCause :: AbortCause
  m_abortSourceNonTransactional :: bool
  m_lastFailureCause :: HtmFailureFaultCause
  m_capacityAbortWriteSet :: bool
  m_abortAddress :: addr
  m_writeSetDiscarded :: "(addr, char) smap"
  m_htmstart_tick :: tick
  m_retriesTicks :: "tick list"

record xact = xact_core +
  fwdMechanism :: HtmFwdMechanism
  prioMechanism :: HtmHwPrioMechanism
  m_hasSentDataToConsumer :: "MachineID list"
  m_hasReceivedDataFromProducer :: MachineID
  validationEvent :: "(addr \<times> nat) option"
  m_recvDataForwardedFromProducer :: "(addr, DataForwarded) smap"
  m_allReceivedData :: "(addr, ConsumerInfo) smap"
  m_allSentData :: "(addr, ProducerInfo) smap"
  m_hasConsumedValidData :: bool
  m_hasValidatedAnyData :: bool
  m_dataConsumedFromPower :: bool
  m_consumerLowPrio :: bool
  m_currentValidationAddress :: int
  m_hwTransPrio :: int
  m_discardFwdData :: bool
  m_consumerTurnedProducer :: bool
  m_producerTurnedConsumer :: bool
  m_reconsumer :: bool
  m_sentDataForwardedToConsumer :: "(addr, DataBlock) smap"
  m_nackedAddressesReg :: "(addr, DataBlock) smap"

section \<open>Data cache\<close>

text \<open>
  The L0 data cache through its address-indexed interface (\<^verbatim>\<open>mem/ruby/structures/CacheMemory.cc\<close>):
  a line is found by its tag; sets, ways and replacement state play no role here.
\<close>

definition cache_lookup :: "htm_params \<Rightarrow> addr \<Rightarrow> (addr, cache_line) smap \<Rightarrow> cache_line option res" where
  "cache_lookup c address m =
     asrt CacheMemory_cc 373 (address = line c address)
       (Inr (case smap_find m address of
               None \<Rightarrow> None
             | Some e \<Rightarrow> if m_Permission e \<noteq> NotPresent then Some e else None))"

definition tryCacheAccess ::
    "htm_params \<Rightarrow> addr \<Rightarrow> RubyRequestType \<Rightarrow> (addr, cache_line) smap \<Rightarrow> DataBlock option res" where
  "tryCacheAccess c address type m =
     rbind (cache_lookup c address m) (\<lambda>entry.
       Inr (case entry of
              None \<Rightarrow> None
            | Some e \<Rightarrow>
                if m_Permission e = Read_Write then Some (m_DataBlk e)
                else if m_Permission e = Read_Only \<and> (type = LD \<or> type = IFETCH) then Some (m_DataBlk e)
                else None))"

definition cache_deallocate :: "htm_params \<Rightarrow> addr \<Rightarrow> (addr, cache_line) smap \<Rightarrow> (addr, cache_line) smap res" where
  "cache_deallocate c address m =
     rbind (cache_lookup c address m) (\<lambda>entry.
       asrt CacheMemory_cc 320 (entry \<noteq> None) (Inr (smap_erase address m)))"

definition checkHtmLogPendingClear :: "(addr, cache_line) smap \<Rightarrow> unit res" where
  "checkHtmLogPendingClear m =
     rfold (\<lambda>e u. asrt CacheMemory_cc 814 (\<not> m_htmLogPending (snd e)) (Inr u)) m ()"

section \<open>Policy predicates\<close>

definition isRequesterStallsPolicy :: "conflict \<Rightarrow> bool res" where
  "isRequesterStallsPolicy s =
     asrt TCM_cc 187 (m_default_policy s \<noteq> UndefinedPolicy) (Inr (m_default_policy s = RequesterStalls))"

definition isReqLosesPolicy :: "conflict \<Rightarrow> bool res" where
  "isReqLosesPolicy s =
     asrt TCM_cc 193 (m_default_policy s \<noteq> UndefinedPolicy) (Inr (m_default_policy s = RequesterLoses))"

definition isReqWinsPolicy :: "conflict \<Rightarrow> bool res" where
  "isReqWinsPolicy s =
     asrt TCM_cc 199 (m_default_policy s \<noteq> UndefinedPolicy) (Inr (m_default_policy s = RequesterWins))"

definition isPowerTMPolicy :: "conflict \<Rightarrow> bool" where
  "isPowerTMPolicy s \<longleftrightarrow> m_policy s = power_tm \<or> m_policy s = woper_tm"

definition isProducerPolicy :: "conflict \<Rightarrow> bool res" where
  "isProducerPolicy s =
     (if isPowerTMPolicy s then Inr True
      else rbind (isReqLosesPolicy s) (\<lambda>l. if l then Inr True else isRequesterStallsPolicy s))"

definition isPowered :: "conflict \<Rightarrow> bool res" where
  "isPowered s = (if m_powered s then asrt TCM_cc 219 (isPowerTMPolicy s) (Inr True) else Inr False)"

section \<open>Transaction status\<close>

definition getTransactionBit :: "xact \<Rightarrow> TransactionBit" where
  "getTransactionBit w =
     (if m_transactionLevel w > 0 \<and> m_escapeLevel w = 0 then TransactionBit_Trans else TransactionBit_NonTrans)"

definition inTransaction :: "xact \<Rightarrow> bool" where
  "inTransaction w \<longleftrightarrow> m_transactionLevel w > 0 \<and> m_escapeLevel w = 0"

definition isAborting :: "xact \<Rightarrow> bool" where
  "isAborting w \<longleftrightarrow> inTransaction w \<and> m_abortFlag w"

definition isUnrollingLog :: "htm_params \<Rightarrow> xact \<Rightarrow> bool" where
  "isUnrollingLog c w = (if \<not> lazy_vm c then m_unrollingLogFlag w else False)"

definition isDoomed :: "htm_params \<Rightarrow> xact \<Rightarrow> bool res" where
  "isDoomed c w =
     (if \<not> lazy_vm c \<and> isUnrollingLog c w then asrt TIM_cc 2807 (\<not> m_abortFlag w) (Inr True)
      else Inr (m_abortFlag w))"

definition getAbortAddress :: "xact \<Rightarrow> addr res" where
  "getAbortAddress w = asrt TIM_cc 2203 (m_abortAddress w \<noteq> 0) (Inr (m_abortAddress w))"

definition getTransactionPriority :: "xact \<Rightarrow> int" where
  "getTransactionPriority w =
     (case prioMechanism w of no_prio \<Rightarrow> NC_PRIO_VALUE | numeric \<Rightarrow> m_hwTransPrio w)"

definition getSwTransactionPriority :: "xact \<Rightarrow> bool res" where
  "getSwTransactionPriority w = isPowered (conf w)"

definition checkReadSignature :: "htm_params \<Rightarrow> xact \<Rightarrow> addr \<Rightarrow> bool res" where
  "checkReadSignature c w addr = isInReadSetPerfectFilter c (m_transactionLevel w) (iso w) addr"

definition checkWriteSignature :: "htm_params \<Rightarrow> xact \<Rightarrow> addr \<Rightarrow> bool res" where
  "checkWriteSignature c w addr = isInWriteSetPerfectFilter c (iso w) addr"

definition config_allowEarlyValueFwd :: "xact \<Rightarrow> bool" where
  "config_allowEarlyValueFwd w \<longleftrightarrow> fwdMechanism w \<noteq> no_fwd"

definition isConsumer :: "xact \<Rightarrow> bool" where
  "isConsumer w \<longleftrightarrow> m_recvDataForwardedFromProducer w \<noteq> []"

definition canProduce :: "htm_params \<Rightarrow> xact \<Rightarrow> bool res" where
  "canProduce c w =
     rbind (isProducerPolicy (conf w)) (\<lambda>p.
       if p then
         (case fwdMechanism w of
            no_fwd \<Rightarrow> Inr False
          | simple \<Rightarrow> asrt TIM_cc 200 (prioMechanism w = no_prio) (Inr (\<not> isConsumer w))
          | W1_D1 \<Rightarrow> Inr (\<not> isConsumer w)
          | WN_D1 \<Rightarrow> Inr (\<not> isConsumer w)
          | WX_DX \<Rightarrow> Inr (\<not> (max_prio_diff c = 1 \<and> isConsumer w))
          | W1_DN \<Rightarrow> Inr True
          | WN_DM \<Rightarrow> Inr True
          | naive \<Rightarrow> Inr True)
       else Inr False)"

definition isProducer :: "htm_params \<Rightarrow> xact \<Rightarrow> bool res" where
  "isProducer c w =
     (if m_hasSentDataToConsumer w \<noteq> [] then
        rbind (canProduce c w) (\<lambda>p.
          asrt TIM_cc 1006 p
            (asrt TIM_cc 1007 (m_sentDataForwardedToConsumer w \<noteq> []) (Inr True)))
      else asrt TIM_cc 1010 (m_sentDataForwardedToConsumer w = []) (Inr False))"

definition hasConsumedData :: "xact \<Rightarrow> bool res" where
  "hasConsumedData w =
     (let received = (m_hasReceivedDataFromProducer w \<noteq> createInvalidMachineID) in
      if m_hasConsumedValidData w then asrt TIM_cc 2319 received (Inr received)
      else if received \<and> \<not> isConsumer w then asrt TIM_cc 2325 (isAborting w) (Inr received)
      else Inr received)"

definition isRetryingTx :: "xact \<Rightarrow> bool" where
  "isRetryingTx w \<longleftrightarrow> m_numRetries (conf w) \<noteq> 0"

section \<open>Construction\<close>

text \<open>
  The constructors. Members that they leave unset (\<^verbatim>\<open>m_sentNackAddr\<close>, \<^verbatim>\<open>m_abortAddress\<close>, the
  profiling counters of the lazy version manager and the log base address) are arguments; a
  version manager that is not built for the configuration keeps its initial state and is never
  used. The protocol is \<^verbatim>\<open>MESI_Three_Level_HTM_umu\<close>, the only one the manager supports.
\<close>

definition conflict_init :: "htm_params \<Rightarrow> addr \<Rightarrow> conflict res" where
  "conflict_init c sentNackAddr =
     (let policy = conflict_resolution c;
          s = \<lparr>m_timestamp = 0, m_possible_cycle = False, m_lock_timestamp = False, m_numRetries = 0,
               m_receivedNack = False, m_abortedByNack = False, m_sentNack = False,
               m_sentNackAddr = sentNackAddr, m_doomed = False, m_powered = False,
               m_default_policy = getResolutionPolicy c, m_policy = policy,
               m_policy_nack_non_transactional = False,
               m_policy_power = (policy = power_tm \<or> policy = woper_tm)\<rparr>
      in asrt TCM_cc 53 (m_default_policy s \<noteq> UndefinedPolicy)
           (if str_find ''_cda'' policy = Some 0 then
              asrt TCM_cc 61 (m_default_policy s = RequesterStalls)
                (if str_find ''_ntx'' policy = Some 0 then
                   asrt TCM_cc 63 (policy = requester_stalls_cda_base_ntx
                                   \<or> policy = requester_stalls_cda_hybrid_ntx)
                     (Inr (s\<lparr>m_policy_nack_non_transactional := True\<rparr>))
                 else Inr s)
            else Inr s))"

definition arbiter_init :: "string \<Rightarrow> arbiter" where
  "arbiter_init policy = \<lparr>m_validated = False, m_validating = False, arb_policy = policy\<rparr>"

record unset_members =
  u_sentNackAddr :: addr
  u_abortAddress :: addr
  u_numRead :: int
  u_numWritten :: int
  u_logBase :: addr

definition tim_build :: "htm_params \<Rightarrow> xact_env \<Rightarrow> nat \<Rightarrow> unset_members \<Rightarrow> conflict \<Rightarrow> xact" where
  "tim_build c e version u s =
     \<lparr>curCycle = curCycle e, curTick = curTick e, m_stalled = m_stalled e, requestTable = requestTable e,
      dcache = dcache e, commitTokens = commitTokens e, fallbackLockPAddr = fallbackLockPAddr e,
      xic = xic e, xvc = xvc e,
      m_version = version, iso = iso_init, conf = s, evm = eagervm_init (u_logBase u),
      lvm = lazyvm_init (u_numRead u) (u_numWritten u), arb = arbiter_init (lazy_arbitration c),
      m_transactionLevel = 0, tim_currentHtmUid = 0, m_htmXid = XID_NONE, m_escapeLevel = 0,
      m_abortFlag = False, m_unrollingLogFlag = False, m_atCommit = False, m_abortCause = Undefined,
      m_abortSourceNonTransactional = False, m_lastFailureCause = INVALID,
      m_capacityAbortWriteSet = False, m_abortAddress = u_abortAddress u, m_writeSetDiscarded = [],
      m_htmstart_tick = 0, m_retriesTicks = [],
      fwdMechanism = getFwdMechanism c, prioMechanism = getHwPrioMechanism c,
      m_hasSentDataToConsumer = [], m_hasReceivedDataFromProducer = createInvalidMachineID,
      validationEvent = None, m_recvDataForwardedFromProducer = [], m_allReceivedData = [],
      m_allSentData = [], m_hasConsumedValidData = False, m_hasValidatedAnyData = False,
      m_dataConsumedFromPower = False, m_consumerLowPrio = False, m_currentValidationAddress = 0,
      m_hwTransPrio = NC_PRIO_VALUE, m_discardFwdData = False, m_consumerTurnedProducer = False,
      m_producerTurnedConsumer = False, m_reconsumer = False, m_sentDataForwardedToConsumer = [],
      m_nackedAddressesReg = []\<rparr>"

definition tim_init :: "htm_params \<Rightarrow> xact_env \<Rightarrow> nat \<Rightarrow> unset_members \<Rightarrow> xact res" where
  "tim_init c e version u =
     rbind (conflict_init c (u_sentNackAddr u)) (\<lambda>s.
     rbind (if lazy_vm c then
              asrt TIM_cc 80 (\<not> allow_write_set_l0_cache_evictions c)
                (asrt TIM_cc 81 (\<not> allow_write_set_l1_cache_evictions c)
                  (asrt TIM_cc 82 (\<not> allow_write_set_l2_cache_evictions c) (Inr ())))
            else
              asrt TIM_cc 84 (eager_cd c)
                (asrt TIM_cc 90 (allow_write_set_l0_cache_evictions c)
                  (asrt TIM_cc 91 (allow_write_set_l1_cache_evictions c)
                    (asrt TIM_cc 92 (allow_write_set_l2_cache_evictions c) (Inr ()))))) (\<lambda>_.
     asrt TIM_cc 112 (allow_read_set_l1_cache_evictions c \<longrightarrow> allow_read_set_l0_cache_evictions c)
       (asrt TIM_cc 117 (allow_write_set_l1_cache_evictions c \<or> allow_write_set_l2_cache_evictions c
                         \<longrightarrow> \<not> lazy_vm c)
         (Inr (tim_build c e version u s)))))"

lemma conflict_init_policy:
  assumes "conflict_init c a = Inr s"
  shows "m_default_policy s = getResolutionPolicy c" "getResolutionPolicy c \<noteq> UndefinedPolicy"
    "m_policy s = conflict_resolution c" "\<not> m_powered s"
  using assms by (auto simp: conflict_init_def Let_def res_simps split: if_splits)

end
