(* ===== verification/Abort_Signal.thy ===== *)
theory Abort_Signal
  imports Xact_State
begin

text \<open>
  How a manager marks its transaction for abort: \<^verbatim>\<open>setAbortFlag\<close>, \<^verbatim>\<open>cancelTransaction\<close>,
  \<^verbatim>\<open>setAbortCause\<close>, \<^verbatim>\<open>xactReplacement\<close>, the response code handed to the CPU and the hardware
  priority of \<^verbatim>\<open>TransactionInterfaceManager.cc\<close>, with the conditions under which
  \<^verbatim>\<open>setAbortFlag\<close> completes and what it changes.
\<close>

section \<open>Operations\<close>

text \<open>The boolean arguments of \<^verbatim>\<open>setAbortFlag\<close> after the priority, with their defaults.\<close>

record abort_why =
  why_capacity :: bool
  why_wset :: bool
  why_dataStale :: bool
  why_validation :: bool
  why_specDepthOverflow :: bool
  why_specMaxCapacityOverflow :: bool
  why_specWriteInFlight :: bool
  why_specReadConflict :: bool

definition no_why :: abort_why where
  "no_why = \<lparr>why_capacity = False, why_wset = False, why_dataStale = False, why_validation = False,
     why_specDepthOverflow = False, why_specMaxCapacityOverflow = False,
     why_specWriteInFlight = False, why_specReadConflict = False\<rparr>"

definition abort_release_checker :: "htm_params \<Rightarrow> addr \<Rightarrow> xact \<Rightarrow> xact res" where
  "abort_release_checker c addr w =
     (if isolation_checker c then
        rbind (checkReadSignature c w addr) (\<lambda>r.
        rbind (if r then xic_removeFromReadSet (m_version w) addr (xic w) else Inr (xic w)) (\<lambda>x.
        rbind (checkWriteSignature c w addr) (\<lambda>wr.
        rbind (if wr then xic_removeFromWriteSet (m_version w) addr x else Inr x) (\<lambda>y.
          Inr (w\<lparr>xic := y\<rparr>)))))
      else Inr w)"

definition abort_set_cause ::
    "MachineID \<Rightarrow> TransactionBit \<Rightarrow> bool \<Rightarrow> abort_why \<Rightarrow> xact \<Rightarrow> xact res" where
  "abort_set_cause abortSource remote_trans remote_sw_priority why w =
     (if why_validation why then Inr (w\<lparr>m_abortCause := SpecValidation\<rparr>)
      else if why_specDepthOverflow why then Inr (w\<lparr>m_abortCause := SpecDepthOverflow\<rparr>)
      else if why_specMaxCapacityOverflow why then Inr (w\<lparr>m_abortCause := SpecMaxCapacityOverflow\<rparr>)
      else if why_specWriteInFlight why then Inr (w\<lparr>m_abortCause := SpecWriteInFlight\<rparr>)
      else if why_specReadConflict why then Inr (w\<lparr>m_abortCause := SpecReadConflict\<rparr>)
      else if why_dataStale why then Inr (w\<lparr>m_abortCause := ConflictStale\<rparr>)
      else if remote_sw_priority then Inr (w\<lparr>m_abortCause := ConflictPower\<rparr>)
      else if machineIDToNodeID abortSource = m_version w
              \<and> machineIDToMachineType abortSource \<noteq> L2Cache then
        (if machineIDToMachineType abortSource = L0Cache then
           (if \<not> why_capacity why then Inr (w\<lparr>m_abortCause := WrongL0\<rparr>)
            else Inr (w\<lparr>m_abortCause := L0Capacity, m_capacityAbortWriteSet := why_wset why\<rparr>))
         else asrt TIM_cc 2662 (machineIDToMachineType abortSource = L1Cache)
                (asrt TIM_cc 2664 (\<not> why_capacity why) (Inr (w\<lparr>m_abortCause := L1Capacity\<rparr>))))
      else if machineIDToMachineType abortSource = L2Cache then Inr (w\<lparr>m_abortCause := L2Capacity\<rparr>)
      else if machineIDToNodeID abortSource \<noteq> m_version w then
        asrt TIM_cc 2672 (machineIDToMachineType abortSource = L1Cache)
          (let w1 = w\<lparr>m_abortSourceNonTransactional := \<not> isTransactionalRequest remote_trans\<rparr> in
           asrt TIM_cc 2677 (m_abortAddress w1 \<noteq> 0)
             (if m_abortAddress w1 = fallbackLockPAddr w1 then Inr (w1\<lparr>m_abortCause := FallbackLock\<rparr>)
              else Inr (w1\<lparr>m_abortCause := Conflict\<rparr>)))
      else Inr w)"

definition abort_raise ::
    "htm_params \<Rightarrow> addr \<Rightarrow> MachineID \<Rightarrow> TransactionBit \<Rightarrow> bool \<Rightarrow> abort_why \<Rightarrow> xact \<Rightarrow> xact res" where
  "abort_raise c addr abortSource remote_trans remote_sw_priority why w =
     (let w1 = w\<lparr>m_abortFlag := True, m_abortAddress := line c addr\<rparr> in
      rbind (if \<not> eager_cd c \<and> m_committing (lvm w1)
             then rbind (cancelWriteBufferFlush (m_transactionLevel w1) (lvm w1)) (\<lambda>l. Inr (w1\<lparr>lvm := l\<rparr>))
             else Inr w1) (\<lambda>w2.
      asrt TIM_cc 2625 (m_abortCause w2 = Undefined)
        (rbind (abort_set_cause abortSource remote_trans remote_sw_priority why w2) (\<lambda>w3.
         rbind (hasConsumedData w3) (\<lambda>_. Inr w3)))))"

definition setAbortFlag ::
    "htm_params \<Rightarrow> addr \<Rightarrow> MachineID \<Rightarrow> TransactionBit \<Rightarrow> int \<Rightarrow> bool \<Rightarrow> abort_why \<Rightarrow> xact \<Rightarrow> xact res" where
  "setAbortFlag c addr abortSource remote_trans remote_priority remote_sw_priority why w =
     (if m_transactionLevel w = 0 then
        asrt TIM_cc 2588 (\<not> precise_read_set_tracking c)
          (rbind (wasOvertakingRead (iso w) addr) (\<lambda>o'.
             asrt TIM_cc 2589 o' (Inl (PanicAt TIM_cc 2593))))
      else
        rbind (abort_release_checker c addr w) (\<lambda>w1.
          asrt TIM_cc 2608 (\<not> lazy_vm c \<longrightarrow> \<not> isUnrollingLog c w1)
            (if \<not> m_abortFlag w1
             then abort_raise c addr abortSource remote_trans remote_sw_priority why w1
             else Inr w1)))"

definition cancelTransaction :: "xact \<Rightarrow> xact res" where
  "cancelTransaction w =
     asrt TIM_cc 2740 (\<not> m_abortFlag w)
       (asrt TIM_cc 2742 (m_abortCause w = Undefined)
         (Inr (w\<lparr>m_abortFlag := True, m_abortCause := Explicit\<rparr>)))"

definition isCancelledTransaction :: "xact \<Rightarrow> bool" where
  "isCancelledTransaction w \<longleftrightarrow> m_abortFlag w \<and> m_abortCause w = Explicit"

definition isTransactionAbortedByRemotePower :: "xact \<Rightarrow> bool" where
  "isTransactionAbortedByRemotePower w \<longleftrightarrow> m_abortFlag w \<and> m_abortCause w = ConflictPower"

definition setAbortCause :: "AbortCause \<Rightarrow> xact \<Rightarrow> xact" where
  "setAbortCause cause w =
     (if \<not> m_abortFlag w then w\<lparr>m_abortCause := cause\<rparr>
      else if m_abortCause w \<noteq> cause then w\<lparr>m_abortCause := cause\<rparr> else w)"

definition notifyIllegalFailure :: "xact \<Rightarrow> xact" where
  "notifyIllegalFailure w = setAbortCause IllegalData w"

definition getHtmTransactionalReqResponseCode :: "xact \<Rightarrow> HtmCacheFailure res" where
  "getHtmTransactionalReqResponseCode w =
     (if m_abortCause w = Undefined then asrt TIM_cc 2527 (\<not> isAborting w) (Inr NO_FAIL)
      else if m_abortCause w = Explicit then Inr NO_FAIL
      else if m_abortCause w \<in> {L0Capacity, L1Capacity, L2Capacity, WrongL0} then Inr FAIL_SELF
      else if m_abortCause w \<in> {Conflict, ConflictStale, FallbackLock, ConflictPower, SpecValidation,
                SpecDepthOverflow, SpecMaxCapacityOverflow, SpecWriteInFlight, SpecReadConflict}
      then Inr FAIL_REMOTE
      else Inl (PanicAt TIM_cc 2550))"

datatype AnnotatedRegion = WAITFORRETRY_SIZE | WAITFORRETRY_EXCEPTION | WAITFORRETRY_THRESHOLD

definition getWaitForRetryRegionFromPreviousAbortCause :: "xact \<Rightarrow> AnnotatedRegion res" where
  "getWaitForRetryRegionFromPreviousAbortCause w =
     asrt TIM_cc 2786 (m_transactionLevel w = 0)
       (Inr (if m_lastFailureCause w = SIZE then WAITFORRETRY_SIZE
             else if m_lastFailureCause w = EXCEPTION then WAITFORRETRY_EXCEPTION
             else WAITFORRETRY_THRESHOLD))"

section \<open>Read and write sets\<close>

definition isolateTransactionLoad :: "htm_params \<Rightarrow> addr \<Rightarrow> xact \<Rightarrow> xact res" where
  "isolateTransactionLoad c addr w =
     asrt TIM_cc 2214 (m_transactionLevel w = 0 \<longrightarrow> \<not> precise_read_set_tracking c)
       (asrt TIM_cc 2217 (m_transactionLevel w \<noteq> 0 \<longrightarrow> m_transactionLevel w = 1)
         (rbind (addToReadSetPerfectFilter c (m_transactionLevel w) (line c addr) (iso w)) (\<lambda>i.
            Inr (w\<lparr>iso := i\<rparr>))))"

definition addToRetiredReadSet :: "htm_params \<Rightarrow> addr \<Rightarrow> xact \<Rightarrow> xact res" where
  "addToRetiredReadSet c addr w =
     asrt TIM_cc 2231 (m_transactionLevel w = 1)
       (rbind (iso_addToRetiredReadSet c (line c addr) (iso w)) (\<lambda>i.
          if isolation_checker c
          then rbind (xic_addToReadSet (curTick w) (m_version w) (line c addr) (xic w)) (\<lambda>x.
                 Inr (w\<lparr>iso := i, xic := x\<rparr>))
          else Inr (w\<lparr>iso := i\<rparr>)))"

definition isolateTransactionStore :: "htm_params \<Rightarrow> addr \<Rightarrow> xact \<Rightarrow> xact res" where
  "isolateTransactionStore c addr w =
     asrt TIM_cc 2263 (m_transactionLevel w > 0)
       (rbind (addToWriteSetPerfectFilter c (line c addr) (iso w)) (\<lambda>i.
          if isolation_checker c
          then rbind (xic_addToWriteSet (curTick w) (m_version w) (line c addr) (xic w)) (\<lambda>x.
                 Inr (w\<lparr>iso := i, xic := x\<rparr>))
          else Inr (w\<lparr>iso := i\<rparr>)))"

definition redirectStoreToWriteBuffer :: "htm_params \<Rightarrow> addr \<Rightarrow> byte list \<Rightarrow> xact \<Rightarrow> xact res" where
  "redirectStoreToWriteBuffer c addr data w =
     asrt TIM_cc 3000 (m_transactionLevel w > 0)
       (rbind (addToWriteBuffer c (m_transactionLevel w) addr data (lvm w)) (\<lambda>l.
          Inr (w\<lparr>lvm := l, iso := redirectedStoreToWriteBuffer (line c addr) (iso w)\<rparr>)))"

definition beginEscapeAction :: "xact \<Rightarrow> xact res" where
  "beginEscapeAction w =
     asrt TIM_cc 3145 (m_escapeLevel w = 0) (Inr (w\<lparr>m_escapeLevel := m_escapeLevel w + 1\<rparr>))"

definition endEscapeAction :: "xact \<Rightarrow> xact res" where
  "endEscapeAction w =
     asrt TIM_cc 3152 (m_escapeLevel w = 1) (Inr (w\<lparr>m_escapeLevel := m_escapeLevel w - 1\<rparr>))"

definition inEscapeAction :: "xact \<Rightarrow> bool" where
  "inEscapeAction w \<longleftrightarrow> m_escapeLevel w > 0"

definition isBlockConsumed :: "htm_params \<Rightarrow> xact \<Rightarrow> addr \<Rightarrow> bool" where
  "isBlockConsumed c w addr \<longleftrightarrow> smap_find (m_recvDataForwardedFromProducer w) (line c addr) \<noteq> None"

definition isBlockProduced :: "htm_params \<Rightarrow> xact \<Rightarrow> addr \<Rightarrow> bool" where
  "isBlockProduced c w addr \<longleftrightarrow> smap_find (m_sentDataForwardedToConsumer w) (line c addr) \<noteq> None"

text \<open>The request table is known here by the transaction uid of the oldest packet of each line.\<close>

definition getPacketFromRequestTable :: "htm_params \<Rightarrow> addr \<Rightarrow> xact \<Rightarrow> nat res" where
  "getPacketFromRequestTable c address w =
     asrt TSeq_cc 1775 (address = line c address)
       (case smap_find (requestTable w) address of
          None \<Rightarrow> Inl (AssertFail TSeq_cc 1776)
        | Some uid \<Rightarrow> Inr uid)"

section \<open>Replacement of transactional blocks\<close>

definition replacement_flag ::
    "htm_params \<Rightarrow> addr \<Rightarrow> MachineID \<Rightarrow> bool \<Rightarrow> bool \<Rightarrow> bool \<Rightarrow> xact \<Rightarrow> xact res" where
  "replacement_flag c addr source capacity inWset dataStale w =
     setAbortFlag c addr source TransactionBit_NonTrans NC_PRIO_VALUE False
       (no_why\<lparr>why_capacity := capacity, why_wset := inWset, why_dataStale := dataStale\<rparr>) w"

definition replacement_stale :: "htm_params \<Rightarrow> addr \<Rightarrow> MachineID \<Rightarrow> bool \<Rightarrow> xact \<Rightarrow> xact res" where
  "replacement_stale c addr source capacity w =
     rbind (isDoomed c w) (\<lambda>d.
       if d \<or> \<not> inTransaction w then Inr w
       else rbind (getPacketFromRequestTable c addr w) (\<lambda>uid.
              rbind (if uid < tim_currentHtmUid w \<and> \<not> precise_read_set_tracking c
                     then isolateTransactionLoad c addr w else Inr w)
                (replacement_flag c addr source capacity False True)))"

definition replacement_spec :: "htm_params \<Rightarrow> addr \<Rightarrow> MachineID \<Rightarrow> bool \<Rightarrow> xact \<Rightarrow> xact res" where
  "replacement_spec c addr source capacity w =
     asrt TIM_cc 2855 (isBlockConsumed c w addr)
       (asrt TIM_cc 2857 (smap_find (m_allReceivedData w) addr \<noteq> None)
         (let w1 = w\<lparr>m_recvDataForwardedFromProducer := smap_erase addr (m_recvDataForwardedFromProducer w)\<rparr> in
          rbind (isDoomed c w1) (\<lambda>d.
            if d \<or> \<not> inTransaction w1 then Inr w1
            else rbind (checkReadSignature c w1 addr) (\<lambda>_.
                   replacement_flag c addr source capacity False False w1))))"

definition replacement_read :: "htm_params \<Rightarrow> addr \<Rightarrow> MachineID \<Rightarrow> bool \<Rightarrow> xact \<Rightarrow> xact res" where
  "replacement_read c addr source capacity w =
     rbind (checkReadSignature c w addr) (\<lambda>r.
       asrt TIM_cc 2875 r
         (if \<not> lazy_vm c \<and> isUnrollingLog c w then Inr w
          else if machineIDToNodeID source = m_version w
                  \<and> machineIDToMachineType source \<noteq> L2Cache
                  \<and> (allow_read_set_l0_cache_evictions c \<and> machineIDToMachineType source = L0Cache
                     \<or> allow_read_set_l1_cache_evictions c)
          then Inr w
          else replacement_flag c addr source capacity False False w))"

definition xactReplacement ::
    "htm_params \<Rightarrow> addr \<Rightarrow> MachineID \<Rightarrow> bool \<Rightarrow> bool \<Rightarrow> bool \<Rightarrow> xact \<Rightarrow> xact res" where
  "xactReplacement c addr source capacity dataStale spec w =
     asrt TIM_cc 2818 (line c addr = addr)
       (rbind (checkWriteSignature c w addr) (\<lambda>wr.
          if wr then
            (if \<not> lazy_vm c then Inr w
             else replacement_flag c addr source capacity True dataStale
                    (if capacity
                     then w\<lparr>m_writeSetDiscarded := smap_insert addr CHR ''y'' (m_writeSetDiscarded w)\<rparr>
                     else w))
          else if dataStale then replacement_stale c addr source capacity w
          else if spec then replacement_spec c addr source capacity w
          else replacement_read c addr source capacity w))"

section \<open>Hardware priority\<close>

definition switchHwPrio :: "htm_params \<Rightarrow> int \<Rightarrow> bool \<Rightarrow> bool \<Rightarrow> xact \<Rightarrow> xact res" where
  "switchHwPrio c remote_hw_prio remote_sw_prio isReceived w =
     (if prioMechanism w = no_prio then Inr w
      else asrt TIM_cc 459 (conflict_resolution c = requester_stalls_pic_base \<or> config_allowEarlyValueFwd w)
       (if isReceived then
          (if m_hwTransPrio w = NC_PRIO_VALUE \<and> \<not> remote_sw_prio
           then rbind (getSwTransactionPriority w) (\<lambda>sw.
                  asrt TIM_cc 466 (\<not> sw) (Inr (w\<lparr>m_hwTransPrio := cint (remote_hw_prio - 1)\<rparr>)))
           else Inr w)
        else rbind (getSwTransactionPriority w) (\<lambda>sw.
          if sw then asrt TIM_cc 474 (m_hwTransPrio w = NC_PRIO_VALUE) (Inr w)
          else if conflict_resolution c = requester_stalls_pic_base \<and> \<not> m_stalled w
                  \<or> config_allowEarlyValueFwd w \<and> \<not> isConsumer w
          then (if remote_hw_prio = NC_PRIO_VALUE
                then Inr (w\<lparr>m_hwTransPrio := (if m_hwTransPrio w = remote_hw_prio
                                             then INITIAL_PRIO_VALUE else m_hwTransPrio w)\<rparr>)
                else asrt TIM_cc 489 (\<not> m_stalled w \<and> \<not> isConsumer w \<or> m_hwTransPrio w > remote_hw_prio)
                       (Inr (w\<lparr>m_hwTransPrio := (if m_hwTransPrio w > remote_hw_prio then m_hwTransPrio w
                                                else cint (remote_hw_prio + 1))\<rparr>)))
          else Inr w)))"

section \<open>Well-formed managers\<close>

definition policy_ok :: "htm_params \<Rightarrow> xact \<Rightarrow> bool" where
  "policy_ok c w \<longleftrightarrow>
     m_default_policy (conf w) = getResolutionPolicy c \<and> getResolutionPolicy c \<noteq> UndefinedPolicy
     \<and> m_policy (conf w) = conflict_resolution c \<and> (m_powered (conf w) \<longrightarrow> isPowerTMPolicy (conf w))
     \<and> fwdMechanism w = getFwdMechanism c \<and> prioMechanism w = getHwPrioMechanism c"

definition sets_ok :: "htm_params \<Rightarrow> xact \<Rightarrow> bool" where
  "sets_ok c w \<longleftrightarrow>
     iso_ok c (iso w)
     \<and> (precise_read_set_tracking c \<longrightarrow> (\<forall>(k, t) \<in> set (m_readSet (iso w)). t = RETIRED_LOAD))
     \<and> (isolation_checker c \<longrightarrow> xic_ok (xic w) \<and> m_version w < m_num_sequencers (xic w))"

definition consumed_ok :: "xact \<Rightarrow> bool" where
  "consumed_ok w \<longleftrightarrow>
     (m_hasConsumedValidData w \<longrightarrow> m_hasReceivedDataFromProducer w \<noteq> createInvalidMachineID)
     \<and> (m_hasReceivedDataFromProducer w \<noteq> createInvalidMachineID \<and> \<not> isConsumer w
        \<and> \<not> m_hasConsumedValidData w \<longrightarrow> m_abortFlag w)"

definition xact_ok :: "htm_params \<Rightarrow> xact \<Rightarrow> bool" where
  "xact_ok c w \<longleftrightarrow>
     policy_ok c w \<and> sets_ok c w \<and> consumed_ok w
     \<and> (\<not> m_abortFlag w \<longrightarrow> m_abortCause w = Undefined)
     \<and> (m_lazyAborting (lvm w) \<longrightarrow> m_abortFlag w)"

lemma sets_ok_signatures:
  assumes "sets_ok c w" and "0 < m_transactionLevel w"
  shows "checkReadSignature c w a = Inr (line c a \<in> reads (iso w))"
    and "checkWriteSignature c w a = Inr (line c a \<in> writes (iso w))"
  using assms isInReadSet_eq isInReadSet_precise isInWriteSet_eq
  unfolding sets_ok_def checkReadSignature_def checkWriteSignature_def by metis+

lemma policy_ok_simps:
  assumes "policy_ok c w"
  shows "isRequesterStallsPolicy (conf w) = Inr (getResolutionPolicy c = RequesterStalls)"
    and "isReqLosesPolicy (conf w) = Inr (getResolutionPolicy c = RequesterLoses)"
    and "isReqWinsPolicy (conf w) = Inr (getResolutionPolicy c = RequesterWins)"
    and "isPowered (conf w) = Inr (m_powered (conf w))"
    and "getSwTransactionPriority w = Inr (m_powered (conf w))"
  using assms
  by (auto simp: policy_ok_def isRequesterStallsPolicy_def isReqLosesPolicy_def isReqWinsPolicy_def
      isPowered_def getSwTransactionPriority_def)

section \<open>What setting the abort flag changes\<close>

definition abort_frame :: "xact \<Rightarrow> xact \<Rightarrow> bool" where
  "abort_frame w w' \<longleftrightarrow>
     w' = w\<lparr>xic := xic w', lvm := lvm w', m_abortFlag := m_abortFlag w', m_abortCause := m_abortCause w',
            m_abortSourceNonTransactional := m_abortSourceNonTransactional w',
            m_capacityAbortWriteSet := m_capacityAbortWriteSet w', m_abortAddress := m_abortAddress w'\<rparr>"

lemma abort_frameI:
  "abort_frame w (w\<lparr>xic := x, lvm := l, m_abortFlag := f, m_abortCause := u,
     m_abortSourceNonTransactional := n, m_capacityAbortWriteSet := k, m_abortAddress := a\<rparr>)"
  by (simp add: abort_frame_def)

lemma abort_frame_refl: "abort_frame w w"
  by (cases w) (simp add: abort_frame_def)

lemma abort_frameE:
  assumes "abort_frame w w'"
  obtains x l f u n k a where "w' = w\<lparr>xic := x, lvm := l, m_abortFlag := f, m_abortCause := u,
     m_abortSourceNonTransactional := n, m_capacityAbortWriteSet := k, m_abortAddress := a\<rparr>"
  using assms unfolding abort_frame_def by blast

lemma abort_frame_trans: "abort_frame u v \<Longrightarrow> abort_frame v w \<Longrightarrow> abort_frame u w"
  by (elim abort_frameE) (simp add: abort_frame_def)

lemma abort_frame_sel:
  assumes "abort_frame w w'"
  shows "iso w' = iso w" "conf w' = conf w" "m_transactionLevel w' = m_transactionLevel w"
    "m_escapeLevel w' = m_escapeLevel w" "m_unrollingLogFlag w' = m_unrollingLogFlag w"
    "m_version w' = m_version w" "m_hwTransPrio w' = m_hwTransPrio w"
    "prioMechanism w' = prioMechanism w" "fwdMechanism w' = fwdMechanism w"
    "m_recvDataForwardedFromProducer w' = m_recvDataForwardedFromProducer w"
    "m_hasReceivedDataFromProducer w' = m_hasReceivedDataFromProducer w"
    "m_hasConsumedValidData w' = m_hasConsumedValidData w"
    "m_hasSentDataToConsumer w' = m_hasSentDataToConsumer w"
    "m_sentDataForwardedToConsumer w' = m_sentDataForwardedToConsumer w"
    "m_stalled w' = m_stalled w" "curCycle w' = curCycle w" "dcache w' = dcache w"
  using assms by (auto elim!: abort_frameE)

lemma abort_release_checker_xic:
  assumes "abort_release_checker c a w = Inr w'"
  obtains y where "w' = w\<lparr>xic := y\<rparr>"
proof (cases "isolation_checker c")
  case True
  with assms that show ?thesis
    unfolding abort_release_checker_def by (auto simp only: if_True rbind_eq_Inr sum.inject)
next
  case False
  with assms have "w' = w\<lparr>xic := xic w\<rparr>"
    by (simp add: abort_release_checker_def)
  then show ?thesis by (rule that)
qed

lemma abort_release_checker_frame:
  assumes "abort_release_checker c a w = Inr w'"
  shows "abort_frame w w'" "m_abortFlag w' = m_abortFlag w" "m_abortCause w' = m_abortCause w"
    "m_abortAddress w' = m_abortAddress w" "lvm w' = lvm w"
  using assms by (auto elim!: abort_release_checker_xic simp: abort_frame_def)

definition abort_cause_raised :: "AbortCause \<Rightarrow> bool" where
  "abort_cause_raised u \<longleftrightarrow> u \<in> {SpecValidation, SpecDepthOverflow, SpecMaxCapacityOverflow,
     SpecWriteInFlight, SpecReadConflict, ConflictStale, ConflictPower, WrongL0, L0Capacity,
     L1Capacity, L2Capacity, FallbackLock, Conflict}"

lemma abort_set_cause_frame:
  assumes "abort_set_cause src t sw why w = Inr w'"
  shows "abort_frame w w'" "m_abortFlag w' = m_abortFlag w" "m_abortAddress w' = m_abortAddress w"
    "abort_cause_raised (m_abortCause w')" "lvm w' = lvm w" "xic w' = xic w"
  using assms
  by (auto simp: abort_set_cause_def Let_def res_simps abort_frame_def abort_cause_raised_def
      split: if_splits)

lemma abort_raise_frame:
  assumes "abort_raise c a src t sw why w = Inr w'"
  shows "abort_frame w w'" "m_abortFlag w'" "m_abortAddress w' = line c a"
    "abort_cause_raised (m_abortCause w')" "xic w' = xic w"
proof -
  have same: "w\<lparr>m_abortFlag := True, m_abortAddress := line c a\<rparr>
      = w\<lparr>m_abortFlag := True, m_abortAddress := line c a, lvm := lvm w\<rparr>"
    by (cases w) simp
  have "\<exists>l. abort_set_cause src t sw why (w\<lparr>m_abortFlag := True, m_abortAddress := line c a, lvm := l\<rparr>) = Inr w'"
  proof (cases "\<not> eager_cd c \<and> m_committing (lvm w)")
    case True
    with assms show ?thesis
      by (auto simp: abort_raise_def Let_def res_simps)
  next
    case False
    with assms have "abort_set_cause src t sw why (w\<lparr>m_abortFlag := True, m_abortAddress := line c a\<rparr>) = Inr w'"
      by (auto simp: abort_raise_def Let_def res_simps)
    then show ?thesis
      by (subst (asm) same) blast
  qed
  then obtain l where cause:
      "abort_set_cause src t sw why (w\<lparr>m_abortFlag := True, m_abortAddress := line c a, lvm := l\<rparr>) = Inr w'" ..
  have "abort_frame w (w\<lparr>m_abortFlag := True, m_abortAddress := line c a, lvm := l\<rparr>)"
    by (simp add: abort_frame_def)
  then show "abort_frame w w'"
    using abort_set_cause_frame(1) [OF cause] by (rule abort_frame_trans)
  show "m_abortFlag w'" "m_abortAddress w' = line c a" "abort_cause_raised (m_abortCause w')" "xic w' = xic w"
    using abort_set_cause_frame(2-) [OF cause] by simp_all
qed

lemma setAbortFlag_frame:
  assumes "setAbortFlag c a src t p sw why w = Inr w'"
  shows "abort_frame w w'" "m_abortFlag w'" "0 < m_transactionLevel w"
    "m_abortFlag w \<Longrightarrow> m_abortCause w' = m_abortCause w"
    "m_abortFlag w \<Longrightarrow> m_abortAddress w' = m_abortAddress w"
    "\<not> m_abortFlag w \<Longrightarrow> m_abortAddress w' = line c a"
    "\<not> m_abortFlag w \<Longrightarrow> abort_cause_raised (m_abortCause w')"
  using assms
  by (auto simp: setAbortFlag_def res_simps
      intro: abort_frame_trans abort_release_checker_frame(1) abort_raise_frame(1)
      dest: abort_release_checker_frame abort_raise_frame split: if_splits)

section \<open>When setting the abort flag completes\<close>

definition source_ok :: "MachineID \<Rightarrow> abort_why \<Rightarrow> xact \<Rightarrow> bool" where
  "source_ok src why w \<longleftrightarrow>
     why_validation why \<or> why_specDepthOverflow why \<or> why_specMaxCapacityOverflow why
     \<or> why_specWriteInFlight why \<or> why_specReadConflict why
     \<or> mach_type src = L2Cache \<or> (mach_type src = L1Cache \<and> \<not> why_capacity why)
     \<or> (mach_type src = L0Cache \<and> mach_num src = m_version w)"

lemma xic_remove_total:
  assumes "xic_ok x" and "i < m_num_sequencers x"
  shows "\<exists>y. xic_removeFromReadSet i a x = Inr y \<and> xic_ok y \<and> m_num_sequencers y = m_num_sequencers x"
    and "\<exists>y. xic_removeFromWriteSet i a x = Inr y \<and> xic_ok y \<and> m_num_sequencers y = m_num_sequencers x"
  using assms
  by (auto simp: xic_removeFromReadSet_def xic_removeFromWriteSet_def xic_ok_def vread_def)

lemma abort_release_checker_total:
  assumes "sets_ok c w" and "0 < m_transactionLevel w"
  obtains y where "abort_release_checker c a w = Inr (w\<lparr>xic := y\<rparr>)"
    and "isolation_checker c \<Longrightarrow> xic_ok y \<and> m_num_sequencers y = m_num_sequencers (xic w)"
proof (cases "isolation_checker c")
  case True
  with assms(1) have x: "xic_ok (xic w)" "m_version w < m_num_sequencers (xic w)"
    by (simp_all add: sets_ok_def)
  obtain x1 where x1: "(if line c a \<in> reads (iso w) then xic_removeFromReadSet (m_version w) a (xic w)
      else Inr (xic w)) = Inr x1" "xic_ok x1" "m_num_sequencers x1 = m_num_sequencers (xic w)"
    using xic_remove_total(1) [OF x] x by (cases "line c a \<in> reads (iso w)") auto
  obtain y where y: "(if line c a \<in> writes (iso w) then xic_removeFromWriteSet (m_version w) a x1
      else Inr x1) = Inr y" "xic_ok y" "m_num_sequencers y = m_num_sequencers (xic w)"
    using xic_remove_total(2) [OF x1(2)] x1 x by (cases "line c a \<in> writes (iso w)") auto
  show ?thesis
  proof (rule that)
    show "abort_release_checker c a w = Inr (w\<lparr>xic := y\<rparr>)"
      using True x1(1) y(1) by (simp add: abort_release_checker_def sets_ok_signatures [OF assms])
    show "xic_ok y \<and> m_num_sequencers y = m_num_sequencers (xic w)"
      using y by simp
  qed
next
  case False
  then have "abort_release_checker c a w = Inr (w\<lparr>xic := xic w\<rparr>)"
    by (simp add: abort_release_checker_def)
  with False that show ?thesis by blast
qed

lemma abort_set_cause_total:
  assumes "source_ok src why w" and "m_abortAddress w \<noteq> 0"
  shows "\<exists>w'. abort_set_cause src t sw why w = Inr w'"
  using assms
  by (auto simp: abort_set_cause_def source_ok_def machineIDToNodeID_def machineIDToMachineType_def Let_def asrt_def)

lemma hasConsumedData_total:
  assumes "consumed_ok w"
    and "m_hasReceivedDataFromProducer w \<noteq> createInvalidMachineID \<Longrightarrow> m_abortFlag w \<Longrightarrow> inTransaction w"
  shows "hasConsumedData w = Inr (m_hasReceivedDataFromProducer w \<noteq> createInvalidMachineID)"
  using assms by (auto simp: hasConsumedData_def consumed_ok_def isAborting_def Let_def asrt_def)

lemma cancel_flush_total:
  assumes "\<not> m_lazyAborting (lvm w)" and "m_transactionLevel w = 1"
  shows "\<exists>l. (if \<not> eager_cd c \<and> m_committing (lvm w)
             then rbind (cancelWriteBufferFlush (m_transactionLevel w) (lvm w)) (\<lambda>l. Inr (w\<lparr>lvm := l\<rparr>))
             else Inr w) = Inr (w\<lparr>lvm := l\<rparr>)"
proof (cases "\<not> eager_cd c \<and> m_committing (lvm w)")
  case True
  with assms obtain l where "cancelWriteBufferFlush (m_transactionLevel w) (lvm w) = Inr l"
    by (simp add: cancelWriteBufferFlush_def Let_def)
  with True show ?thesis by (simp only: if_True rbind_Inr simp_thms) blast
next
  case False
  then show ?thesis by (intro exI [of _ "lvm w"]) auto
qed

lemma abort_raise_total:
  assumes ok: "consumed_ok w" "m_abortCause w = Undefined" "\<not> m_lazyAborting (lvm w)"
    and tx: "m_transactionLevel w = 1" "m_escapeLevel w = 0"
    and src: "source_ok src why w" "line c a \<noteq> 0"
  shows "\<exists>w'. abort_raise c a src t sw why w = Inr w'"
proof -
  let ?w1 = "w\<lparr>m_abortFlag := True, m_abortAddress := line c a\<rparr>"
  obtain l where l: "(if \<not> eager_cd c \<and> m_committing (lvm ?w1)
             then rbind (cancelWriteBufferFlush (m_transactionLevel ?w1) (lvm ?w1)) (\<lambda>l. Inr (?w1\<lparr>lvm := l\<rparr>))
             else Inr ?w1) = Inr (?w1\<lparr>lvm := l\<rparr>)"
    using cancel_flush_total [of ?w1 c] ok(3) tx(1) by fastforce
  let ?w2 = "?w1\<lparr>lvm := l\<rparr>"
  obtain w3 where w3: "abort_set_cause src t sw why ?w2 = Inr w3"
    using abort_set_cause_total [of src why ?w2] src by (auto simp: source_ok_def)
  have f: "abort_frame ?w2 w3" "m_abortFlag w3"
    using abort_set_cause_frame(1,2) [OF w3] by simp_all
  then have "consumed_ok w3" "inTransaction w3"
    using ok(1) tx by (auto simp: consumed_ok_def inTransaction_def isConsumer_def abort_frame_sel [OF f(1)])
  then have "\<exists>b. hasConsumedData w3 = Inr b"
    using hasConsumedData_total by blast
  then show ?thesis
    unfolding abort_raise_def Let_def l using w3 ok(2) by auto
qed

lemma setAbortFlag_total:
  assumes ok: "xact_ok c w" and tx: "m_transactionLevel w = 1" "m_escapeLevel w = 0"
    and src: "source_ok src why w" "line c a \<noteq> 0" and log: "\<not> isUnrollingLog c w"
  shows "\<exists>w'. setAbortFlag c a src t p sw why w = Inr w'"
proof -
  from ok tx(1) obtain y where y: "abort_release_checker c a w = Inr (w\<lparr>xic := y\<rparr>)"
    using abort_release_checker_total [of c w a] by (auto simp: xact_ok_def)
  have "\<not> m_abortFlag w \<Longrightarrow> \<exists>w'. abort_raise c a src t sw why (w\<lparr>xic := y\<rparr>) = Inr w'"
    using ok tx src
    by (intro abort_raise_total)
      (auto simp: xact_ok_def consumed_ok_def isConsumer_def source_ok_def)
  with y tx log show ?thesis
    by (cases "m_abortFlag w") (auto simp: setAbortFlag_def isUnrollingLog_def asrt_def)
qed

lemma setAbortFlag_ok:
  assumes ok: "xact_ok c w" and set: "setAbortFlag c a src t p sw why w = Inr w'"
  shows "xact_ok c w'"
proof -
  note f = setAbortFlag_frame [OF set]
  obtain y where y: "abort_release_checker c a w = Inr (w\<lparr>xic := y\<rparr>)"
      "isolation_checker c \<Longrightarrow> xic_ok y \<and> m_num_sequencers y = m_num_sequencers (xic w)"
    using abort_release_checker_total [of c w a] ok f(3) by (auto simp: xact_ok_def)
  have x: "xic w' = y"
    using set y(1) f(3) abort_raise_frame(5)
    by (auto simp: setAbortFlag_def res_simps split: if_splits)
  have "sets_ok c w'"
    using ok y(2) by (auto simp: xact_ok_def sets_ok_def abort_frame_sel [OF f(1)] x)
  then show ?thesis
    using ok f(2)
    by (auto simp: xact_ok_def policy_ok_def consumed_ok_def isConsumer_def abort_frame_sel [OF f(1)])
qed

section \<open>Properties\<close>

definition self_abort :: "MachineID \<Rightarrow> bool \<Rightarrow> abort_why \<Rightarrow> xact \<Rightarrow> bool" where
  "self_abort src sw why w \<longleftrightarrow>
     \<not> why_validation why \<and> \<not> why_specDepthOverflow why \<and> \<not> why_specMaxCapacityOverflow why
     \<and> \<not> why_specWriteInFlight why \<and> \<not> why_specReadConflict why \<and> \<not> why_dataStale why \<and> \<not> sw
     \<and> (mach_type src = L2Cache \<or> mach_num src = m_version w)"

lemma abort_set_cause_response:
  assumes "abort_set_cause src t sw why w = Inr w'"
  shows "getHtmTransactionalReqResponseCode w' = Inr (if self_abort src sw why w then FAIL_SELF else FAIL_REMOTE)"
  using assms
  by (auto simp: abort_set_cause_def getHtmTransactionalReqResponseCode_def self_abort_def
      machineIDToNodeID_def machineIDToMachineType_def Let_def res_simps split: if_splits)

lemma setAbortFlag_response:
  assumes set: "setAbortFlag c a src t p sw why w = Inr w'" and fresh: "\<not> m_abortFlag w"
  shows "getHtmTransactionalReqResponseCode w' = Inr (if self_abort src sw why w then FAIL_SELF else FAIL_REMOTE)"
proof -
  from set fresh obtain w1 where w1: "abort_release_checker c a w = Inr w1"
      and r: "abort_raise c a src t sw why w1 = Inr w'"
    by (auto simp: setAbortFlag_def res_simps dest: abort_release_checker_frame split: if_splits)
  from r obtain w2 where w2: "abort_set_cause src t sw why w2 = Inr w'" "m_version w2 = m_version w1"
    by (auto simp: abort_raise_def Let_def res_simps split: if_splits)
  have "m_version w1 = m_version w"
    using abort_release_checker_frame(1) [OF w1] by (rule abort_frame_sel)
  with w2(2) have "self_abort src sw why w2 = self_abort src sw why w"
    by (simp add: self_abort_def)
  with abort_set_cause_response [OF w2(1)] show ?thesis by simp
qed

text \<open>
  An example manager, processor 1 of two, inside a transaction.
\<close>

definition quiet_env :: xact_env where
  "quiet_env = \<lparr>curCycle = 10, curTick = 5000, m_stalled = False, requestTable = [], dcache = [],
     commitTokens = [], fallbackLockPAddr = 0x8000,
     xic = \<lparr>xic_readSet = [[], []], xic_writeSet = [[], []], m_abortingProcessor = [False, False],
            m_num_sequencers = 2\<rparr>,
     xvc = valchecker_init 2\<rparr>"

definition unset_zero :: unset_members where
  "unset_zero = \<lparr>u_sentNackAddr = 0, u_abortAddress = 0, u_numRead = 0, u_numWritten = 0, u_logBase = 0\<rparr>"

definition plain_conflict :: "htm_params \<Rightarrow> conflict" where
  "plain_conflict c = \<lparr>m_timestamp = 4, m_possible_cycle = False, m_lock_timestamp = True, m_numRetries = 0,
               m_receivedNack = False, m_abortedByNack = False, m_sentNack = False,
               m_sentNackAddr = 0, m_doomed = False, m_powered = False,
               m_default_policy = getResolutionPolicy c, m_policy = conflict_resolution c,
               m_policy_nack_non_transactional = False, m_policy_power = False\<rparr>"

definition running_tx :: "htm_params \<Rightarrow> xact" where
  "running_tx c = (tim_build c quiet_env 1 unset_zero (plain_conflict c))
     \<lparr>m_transactionLevel := 1, tim_currentHtmUid := 7, m_htmXid := 3\<rparr>"

definition el_params :: htm_params where
  "el_params = default_params\<lparr>eager_cd := True, lazy_vm := True, conflict_resolution := requester_wins\<rparr>"

lemma el_params_sel [simp]:
  "eager_cd el_params" "lazy_vm el_params" "conflict_resolution el_params = requester_wins"
  "precise_read_set_tracking el_params = precise_read_set_tracking default_params"
  "isolation_checker el_params = isolation_checker default_params"
  "block_size_bits el_params = 6" "getResolutionPolicy el_params = RequesterWins"
  by (simp_all add: el_params_def getResolutionPolicy_def starts_with_def requester_wins_def)

lemma running_tx_sel [simp]:
  "m_transactionLevel (running_tx c) = 1" "m_escapeLevel (running_tx c) = 0"
  "m_abortFlag (running_tx c) = False" "m_version (running_tx c) = 1" "iso (running_tx c) = iso_init"
  "conf (running_tx c) = plain_conflict c" "m_unrollingLogFlag (running_tx c) = False"
  "m_recvDataForwardedFromProducer (running_tx c) = []" "m_hwTransPrio (running_tx c) = NC_PRIO_VALUE"
  "fwdMechanism (running_tx c) = getFwdMechanism c" "prioMechanism (running_tx c) = getHwPrioMechanism c"
  "m_hasSentDataToConsumer (running_tx c) = []" "m_sentDataForwardedToConsumer (running_tx c) = []"
  "m_stalled (running_tx c) = False" "curCycle (running_tx c) = 10"
  by (simp_all add: running_tx_def tim_build_def quiet_env_def)

lemma running_tx_ok:
  assumes "getResolutionPolicy c \<noteq> UndefinedPolicy"
  shows "xact_ok c (running_tx c)"
  using assms
  by (simp add: xact_ok_def policy_ok_def sets_ok_def consumed_ok_def running_tx_def tim_build_def
      plain_conflict_def quiet_env_def iso_init_def iso_ok_def reads_def writes_def smap_keys_def
      xic_ok_def lazyvm_init_def isConsumer_def smap_ok_def)

text \<open>
  C21. Aborts are signalled once and reported. In a well-formed running transaction, marking it for
  abort never fails an assertion; the transaction is then aborting at the line of the triggering
  address with its read and write sets intact, the next request is answered with
  \<^verbatim>\<open>FAIL_SELF\<close> exactly for overflows of the processor's own caches and \<^verbatim>\<open>FAIL_REMOTE\<close> otherwise
  (never with the panic), and later signals change neither the cause nor the address.
\<close>

theorem abort_reported:
  assumes ok: "xact_ok c w" and tx: "m_transactionLevel w = 1" "m_escapeLevel w = 0"
    and fresh: "\<not> m_abortFlag w" and src: "source_ok src why w" "line c a \<noteq> 0"
    and log: "\<not> isUnrollingLog c w"
  shows "\<exists>w'. setAbortFlag c a src t p sw why w = Inr w' \<and> xact_ok c w' \<and> isAborting w'
           \<and> m_abortAddress w' = line c a \<and> iso w' = iso w
           \<and> getHtmTransactionalReqResponseCode w'
               = Inr (if self_abort src sw why w then FAIL_SELF else FAIL_REMOTE)
           \<and> (\<forall>a2 src2 t2 p2 sw2 why2 w2.
                setAbortFlag c a2 src2 t2 p2 sw2 why2 w' = Inr w2 \<longrightarrow>
                  m_abortCause w2 = m_abortCause w' \<and> m_abortAddress w2 = m_abortAddress w')"
proof -
  obtain w' where set: "setAbortFlag c a src t p sw why w = Inr w'"
    using setAbortFlag_total [OF ok tx src log] by blast
  note f = setAbortFlag_frame [OF set]
  have "isAborting w'"
    using f(2) tx by (simp add: isAborting_def inTransaction_def abort_frame_sel [OF f(1)])
  then show ?thesis
    using set setAbortFlag_ok [OF ok set] f fresh setAbortFlag_response [OF set fresh]
      setAbortFlag_frame(4,5) abort_frame_sel(1) [OF f(1)] by blast
qed

theorem abort_reported_witness:
  "\<exists>w'. setAbortFlag el_params 0x1234 \<lparr>mach_type = L1Cache, mach_num = 0\<rparr> TransactionBit_Trans 0 False no_why
           (running_tx el_params) = Inr w' \<and> m_abortAddress w' = 0x1200
         \<and> getHtmTransactionalReqResponseCode w' = Inr FAIL_REMOTE"
proof -
  have "line el_params 0x1234 = 0x1200"
    by (simp add: makeLineAddress_def maskLowOrderBits_def mask64_def mbits_def)
  then show ?thesis
    using abort_reported [of el_params "running_tx el_params" "\<lparr>mach_type = L1Cache, mach_num = 0\<rparr>" no_why
        "0x1234" TransactionBit_Trans 0 False]
    by (auto simp: running_tx_ok source_ok_def no_why_def isUnrollingLog_def self_abort_def)
qed

end
