(* ===== verification/Conflict_Manager.thy ===== *)
theory Conflict_Manager
  imports Abort_Signal "HOL-Library.Product_Lexorder"
begin

text \<open>
  \<^verbatim>\<open>mem/ruby/htm/TransactionConflictManager.cc\<close>: who wins when a remote request hits the read or
  write set of a transaction. The operations read and change the state of the interface manager
  they belong to (abort flag, hardware priority), so they are functions on \<^typ>\<open>xact\<close>. The main
  results: a conflicting request is never granted silently, and the timestamp order that breaks
  deadlocks is total.
\<close>

section \<open>Life cycle\<close>

definition conflict_begin :: "nat \<Rightarrow> nat \<Rightarrow> bool \<Rightarrow> conflict \<Rightarrow> conflict res" where
  "conflict_begin level now power_mode s =
     asrt TCM_cc 91 (level \<ge> 1)
       (let s1 = (if level = 1 \<and> \<not> m_lock_timestamp s
                  then s\<lparr>m_timestamp := now, m_lock_timestamp := True\<rparr> else s)
        in if power_mode then asrt TCM_cc 98 (isPowerTMPolicy s1) (Inr (s1\<lparr>m_powered := True\<rparr>)) else Inr s1)"

definition clearPossibleCycle :: "conflict \<Rightarrow> conflict" where
  "clearPossibleCycle s = s\<lparr>m_possible_cycle := False\<rparr>"

definition setPossibleCycle :: "conflict \<Rightarrow> conflict" where
  "setPossibleCycle s = s\<lparr>m_possible_cycle := True\<rparr>"

definition conflict_commit :: "nat \<Rightarrow> conflict \<Rightarrow> conflict res" where
  "conflict_commit level s =
     asrt TCM_cc 109 (level \<ge> 1)
       (asrt TCM_cc 110 (\<not> m_doomed s)
         (Inr (if level = 1
               then clearPossibleCycle (s\<lparr>m_lock_timestamp := False, m_numRetries := 0, m_powered := False,
                      m_receivedNack := False, m_abortedByNack := False\<rparr>)
               else s)))"

definition conflict_restart :: "conflict \<Rightarrow> conflict" where
  "conflict_restart s =
     (clearPossibleCycle (s\<lparr>m_numRetries := m_numRetries s + 1\<rparr>))
       \<lparr>m_sentNack := False, m_receivedNack := False, m_abortedByNack := False, m_doomed := False,
        m_powered := False\<rparr>"

definition setDoomed :: "conflict \<Rightarrow> conflict" where
  "setDoomed s = s\<lparr>m_doomed := True\<rparr>"

definition getNackedPossibleCycleAddr :: "conflict \<Rightarrow> addr res" where
  "getNackedPossibleCycleAddr s =
     rbind (isRequesterStallsPolicy s) (\<lambda>st.
       asrt TCM_hh 78 st (asrt TCM_hh 79 (m_sentNack s) (Inr (m_sentNackAddr s))))"

section \<open>Timestamps\<close>

definition getTimestamp :: "xact \<Rightarrow> nat res" where
  "getTimestamp w =
     (if m_transactionLevel w > 0 then Inr (m_timestamp (conf w))
      else asrt TCM_cc 180 (curCycle w > 0) (Inr (curCycle w)))"

definition getOldestTimestamp :: "xact \<Rightarrow> nat res" where
  "getOldestTimestamp w =
     (let oldestTime = (if m_transactionLevel w > 0 \<and> m_timestamp (conf w) < curCycle w
                        then m_timestamp (conf w) else curCycle w)
      in asrt TCM_cc 235 (oldestTime > 0) (Inr oldestTime))"

definition isRemoteOlder :: "xact \<Rightarrow> nat \<Rightarrow> nat \<Rightarrow> MachineID \<Rightarrow> bool res" where
  "isRemoteOlder w local_timestamp remote_timestamp remote_id =
     (if local_timestamp = remote_timestamp
      then asrt TCM_cc 247 (m_version w \<noteq> machineIDToNodeID remote_id)
             (Inr (machineIDToNodeID remote_id < m_version w))
      else Inr (remote_timestamp < local_timestamp))"

fun older_scan :: "nat \<Rightarrow> xact list \<Rightarrow> bool res" where
  "older_scan local_ts [] = Inr True"
| "older_scan local_ts (r # rs) =
     rbind (getOldestTimestamp r) (\<lambda>remote_ts. if remote_ts < local_ts then Inr False else older_scan local_ts rs)"

definition hasHighestPriority :: "xact list \<Rightarrow> xact \<Rightarrow> bool res" where
  "hasHighestPriority mgrs w = rbind (getOldestTimestamp w) (\<lambda>local_ts. older_scan local_ts mgrs)"

section \<open>Deciding a conflict\<close>

definition winner_numeric :: "htm_params \<Rightarrow> int \<Rightarrow> bool \<Rightarrow> xact \<Rightarrow> bool res" where
  "winner_numeric c remote_priority remote_sw_priority w =
     rbind (getSwTransactionPriority w) (\<lambda>local_sw_prio.
       let local_priority = getTransactionPriority w;
           shouldWin =
             (if isPowerTMPolicy (conf w) then
                (if local_sw_prio = remote_sw_priority
                 then (\<not> isConsumer w \<or> remote_priority \<le> local_priority) \<and> \<not> remote_sw_priority
                 else local_sw_prio)
              else (config_allowEarlyValueFwd w \<and> \<not> isConsumer w)
                   \<or> (m_policy (conf w) = requester_stalls_pic_base \<and> \<not> m_stalled w)
                   \<or> remote_priority < local_priority)
       in Inr (if NC_not_producer c \<and> local_priority = NC_PRIO_VALUE \<and> local_priority \<noteq> remote_priority
               then False else shouldWin))"

definition winner_no_prio :: "bool \<Rightarrow> xact \<Rightarrow> bool res" where
  "winner_no_prio remote_sw_priority w =
     rbind (isReqLosesPolicy (conf w)) (\<lambda>loses.
     rbind (isReqWinsPolicy (conf w)) (\<lambda>wins.
       if isPowerTMPolicy (conf w) then
         (if loses then
            (if remote_sw_priority
             then rbind (isPowered (conf w)) (\<lambda>p. asrt TCM_cc 425 (\<not> p) (Inr False))
             else Inr True)
          else if wins then isPowered (conf w)
          else Inl (PanicAt TCM_cc 453))
       else if loses then Inr True
       else if wins then Inr False
       else Inl (PanicAt TCM_cc 453)))"

definition chooseWinnerPriority :: "htm_params \<Rightarrow> int \<Rightarrow> bool \<Rightarrow> xact \<Rightarrow> bool res" where
  "chooseWinnerPriority c remote_priority remote_sw_priority w =
     (case getHwPrioMechanism c of
        numeric \<Rightarrow> winner_numeric c remote_priority remote_sw_priority w
      | no_prio \<Rightarrow> rbind (getSwTransactionPriority w) (\<lambda>_. winner_no_prio remote_sw_priority w))"

definition notifySendNack :: "htm_params \<Rightarrow> addr \<Rightarrow> nat \<Rightarrow> MachineID \<Rightarrow> int \<Rightarrow> bool \<Rightarrow> xact \<Rightarrow> xact res" where
  "notifySendNack c addr remote_timestamp remote_id remote_priority remote_sw_prio w =
     rbind (isRequesterStallsPolicy (conf w)) (\<lambda>stalls.
       if \<not> stalls then Inr w
       else if m_policy (conf w) = requester_stalls_pic_base
       then switchHwPrio c remote_priority remote_sw_prio False w
       else rbind (checkReadSignature c w addr) (\<lambda>r.
            rbind (if r then Inr True else checkWriteSignature c w addr) (\<lambda>mine.
              if \<not> mine then Inr w
              else rbind (getTimestamp w) (\<lambda>ts.
                   rbind (isRemoteOlder w ts remote_timestamp remote_id) (\<lambda>older.
                     if older
                     then Inr (w\<lparr>conf := setPossibleCycle ((conf w)\<lparr>m_sentNack := True, m_sentNackAddr := addr\<rparr>)\<rparr>)
                     else Inr w)))))"

text \<open>Whether to nack, before the abort or the nack is recorded; the LogTM case also sets the flag.\<close>

definition nack_decision ::
    "htm_params \<Rightarrow> addr \<Rightarrow> MachineID \<Rightarrow> TransactionBit \<Rightarrow> int \<Rightarrow> bool \<Rightarrow> xact \<Rightarrow> (bool \<times> xact) res" where
  "nack_decision c addr remote_id remote_trans remote_priority sw_remote_priority w =
     rbind (isRequesterStallsPolicy (conf w)) (\<lambda>stalls.
       if stalls then
         (if m_policy (conf w) = requester_stalls_pic_base then
            (if \<not> isTransactionalRequest remote_trans then Inr (False, w)
             else rbind (chooseWinnerPriority c remote_priority sw_remote_priority w) (\<lambda>b. Inr (b, w)))
          else if isUnrollingLog c w then asrt TCM_cc 292 (\<not> lazy_vm c) (Inr (True, w))
          else if \<not> isTransactionalRequest remote_trans \<and> \<not> m_policy_nack_non_transactional (conf w) then
            (if \<not> lazy_vm c
             then rbind (setAbortFlag c addr remote_id remote_trans remote_priority False no_why w) (\<lambda>w1. Inr (True, w1))
             else Inr (False, w))
          else Inr (True, w))
       else if m_policy (conf w) = committer_wins then Inl (PanicAt TCM_cc 324)
       else if \<not> isTransactionalRequest remote_trans then Inr (False, w)
       else rbind (chooseWinnerPriority c remote_priority sw_remote_priority w) (\<lambda>b. Inr (b, w)))"

definition shouldNackRemoteRequest ::
    "htm_params \<Rightarrow> addr \<Rightarrow> MachineID \<Rightarrow> nat \<Rightarrow> TransactionBit \<Rightarrow> int \<Rightarrow> bool \<Rightarrow> xact \<Rightarrow> (bool \<times> xact) res" where
  "shouldNackRemoteRequest c addr remote_id remote_timestamp remote_trans remote_priority sw_remote_priority w =
     rbind (if isAborting w then Inr True else isDoomed c w) (\<lambda>dying.
       if dying then Inr (False, w)
       else asrt TCM_cc 264 (addr = line c addr)
         (rbind (nack_decision c addr remote_id remote_trans remote_priority sw_remote_priority w) (\<lambda>(nack, w1).
            if \<not> nack
            then rbind (setAbortFlag c addr remote_id remote_trans remote_priority sw_remote_priority no_why w1)
                   (\<lambda>w2. Inr (nack, w2))
            else rbind (notifySendNack c addr remote_timestamp remote_id remote_priority sw_remote_priority w1)
                   (\<lambda>w2. Inr (nack, w2)))))"

definition cm_shouldNackLoad ::
    "htm_params \<Rightarrow> addr \<Rightarrow> MachineID \<Rightarrow> nat \<Rightarrow> TransactionBit \<Rightarrow> int \<Rightarrow> bool \<Rightarrow> xact \<Rightarrow> (bool \<times> xact) res" where
  "cm_shouldNackLoad c addr remote_id remote_timestamp remote_trans remote_priority remote_sw_priority w =
     rbind (checkWriteSignature c w addr) (\<lambda>existConflict.
       if existConflict then
         asrt TCM_cc 469 (machineIDToMachineType remote_id = L1Cache)
           (asrt TCM_cc 470 (remote_timestamp > 0)
             (shouldNackRemoteRequest c addr remote_id remote_timestamp remote_trans remote_priority
                remote_sw_priority w))
       else Inr (False, w))"

text \<open>The part of \<^verbatim>\<open>shouldNackStore\<close> after the common decision, for the stalling policies.\<close>

definition store_stalls ::
    "htm_params \<Rightarrow> addr \<Rightarrow> MachineID \<Rightarrow> nat \<Rightarrow> TransactionBit \<Rightarrow> int \<Rightarrow> bool \<Rightarrow> bool \<Rightarrow> bool \<Rightarrow> xact \<Rightarrow> (bool \<times> xact) res" where
  "store_stalls c addr remote_id remote_timestamp remote_trans remote_priority remote_sw_priority
       local_is_writer shouldNack w =
     (if m_policy (conf w) = requester_stalls_pic_base then Inr (shouldNack, w)
      else if \<not> isTransactionalRequest remote_trans \<and> \<not> m_policy_nack_non_transactional (conf w) then
        (if \<not> lazy_vm c \<and> local_is_writer
         then rbind (setAbortFlag c addr remote_id remote_trans remote_priority remote_sw_priority no_why w)
                (\<lambda>w1. Inr (True, w1))
         else Inr (False, w))
      else if m_policy (conf w) = requester_stalls_cda_hybrid \<and> \<not> local_is_writer then
        rbind (getTimestamp w) (\<lambda>ts.
        rbind (isRemoteOlder w ts remote_timestamp remote_id) (\<lambda>older. Inr (\<not> older, w)))
      else Inr (True, w))"

definition cm_shouldNackStore ::
    "htm_params \<Rightarrow> addr \<Rightarrow> MachineID \<Rightarrow> nat \<Rightarrow> TransactionBit \<Rightarrow> int \<Rightarrow> bool \<Rightarrow> xact \<Rightarrow> (bool \<times> xact) res" where
  "cm_shouldNackStore c addr remote_id remote_timestamp remote_trans remote_priority remote_sw_priority w =
     rbind (checkWriteSignature c w addr) (\<lambda>local_is_writer.
     rbind (if local_is_writer then Inr True else checkReadSignature c w addr) (\<lambda>existConflict.
       if \<not> existConflict then Inr (False, w)
       else if machineIDToMachineType remote_id = L2Cache then
         asrt TCM_cc 500 (remote_timestamp = 0)
           (if (\<not> local_is_writer \<and> \<not> allow_read_set_l2_cache_evictions c)
               \<or> (local_is_writer \<and> \<not> allow_write_set_l2_cache_evictions c)
            then rbind (setAbortFlag c addr remote_id remote_trans remote_priority remote_sw_priority no_why w)
                   (\<lambda>w1. Inr (False, w1))
            else Inr (False, w))
       else
         asrt TCM_cc 515 (machineIDToMachineType remote_id = L1Cache)
          (asrt TCM_cc 516 (remote_timestamp > 0)
           (rbind (shouldNackRemoteRequest c addr remote_id remote_timestamp remote_trans remote_priority
                     remote_sw_priority w) (\<lambda>(shouldNack, w1).
            rbind (isRequesterStallsPolicy (conf w1)) (\<lambda>stalls.
              if stalls
              then store_stalls c addr remote_id remote_timestamp remote_trans remote_priority
                     remote_sw_priority local_is_writer shouldNack w1
              else Inr (shouldNack, w1)))))))"

definition shouldNackLoad ::
    "htm_params \<Rightarrow> addr \<Rightarrow> MachineID \<Rightarrow> nat \<Rightarrow> TransactionBit \<Rightarrow> int \<Rightarrow> bool \<Rightarrow> xact \<Rightarrow> (bool \<times> xact) res" where
  "shouldNackLoad c addr requestor remote_timestamp remote_trans remote_priority remote_sw_priority w =
     asrt TIM_cc 2925 (addr = line c addr)
       (cm_shouldNackLoad c addr requestor remote_timestamp remote_trans remote_priority remote_sw_priority w)"

definition shouldNackStore ::
    "htm_params \<Rightarrow> addr \<Rightarrow> MachineID \<Rightarrow> nat \<Rightarrow> TransactionBit \<Rightarrow> int \<Rightarrow> bool \<Rightarrow> xact \<Rightarrow> (bool \<times> xact) res" where
  "shouldNackStore c addr requestor remote_timestamp remote_trans remote_priority remote_sw_priority w =
     asrt TIM_cc 2943 (addr = line c addr)
       (cm_shouldNackStore c addr requestor remote_timestamp remote_trans remote_priority remote_sw_priority w)"

section \<open>Receiving a nack\<close>

text \<open>\<^verbatim>\<open>TransactionInterfaceManager::isIllegalNack\<close>: the answer and the discard mark.\<close>

definition isIllegalNack :: "htm_params \<Rightarrow> addr \<Rightarrow> int \<Rightarrow> xact \<Rightarrow> (bool \<times> xact) res" where
  "isIllegalNack c addr remote_priority w =
     rbind (getPacketFromRequestTable c addr w) (\<lambda>uid.
       if uid < tim_currentHtmUid w \<or> isAborting w then Inr (True, w\<lparr>m_discardFwdData := True\<rparr>)
       else if getHwPrioMechanism c \<noteq> no_prio \<and> getFwdCycleSolveStrategy c \<noteq> no_strategy
               \<and> (remote_priority \<le> m_hwTransPrio w
                  \<or> (\<not> NC_not_producer c \<and> remote_priority = NC_PRIO_VALUE))
       then asrt TIM_cc 902 (config_allowEarlyValueFwd w \<or> conflict_resolution c = requester_stalls_pic_base)
              (Inr (True, w))
       else Inr (False, w))"

text \<open>
  The two stalling policies. In both calls to \<^verbatim>\<open>setAbortFlag\<close> the source passes the software
  priority and the hardware priority in each other's place; the conversions are \<^verbatim>\<open>bool\<close> to \<^verbatim>\<open>int\<close>
  and \<^verbatim>\<open>int\<close> to \<^verbatim>\<open>bool\<close>. The second result of \<open>nack_base\<close> tells an early return.
\<close>

definition nack_pic ::
    "htm_params \<Rightarrow> addr \<Rightarrow> TransactionBit \<Rightarrow> int \<Rightarrow> bool \<Rightarrow> MachineID \<Rightarrow> xact \<Rightarrow> xact res" where
  "nack_pic c addr remote_trans remote_priority remote_sw_prio remote_id w =
     rbind (isIllegalNack c addr remote_priority w) (\<lambda>(illegal, w1).
     rbind (if illegal
            then setAbortFlag c addr remote_id remote_trans (if remote_sw_prio then 1 else 0)
                   (remote_priority \<noteq> 0) no_why w1
            else Inr w1)
       (switchHwPrio c remote_priority remote_sw_prio True))"

definition nack_base ::
    "htm_params \<Rightarrow> nat \<Rightarrow> nat \<Rightarrow> TransactionBit \<Rightarrow> int \<Rightarrow> bool \<Rightarrow> MachineID \<Rightarrow> xact \<Rightarrow> (xact \<times> bool) res" where
  "nack_base c local_timestamp remote_timestamp remote_trans remote_priority remote_sw_prio remote_id w =
     (if \<not> m_possible_cycle (conf w) then Inr (w, False)
      else rbind (isRemoteOlder w local_timestamp remote_timestamp remote_id) (\<lambda>older.
        if \<not> older then Inr (w, False)
        else if isUnrollingLog c w then asrt TCM_cc 659 (\<not> lazy_vm c) (Inr (w, True))
        else rbind (setAbortFlag c (m_sentNackAddr (conf w)) remote_id remote_trans
                      (if remote_sw_prio then 1 else 0) (remote_priority \<noteq> 0) no_why w)
               (\<lambda>w1. Inr (w1, False))))"

definition nack_stalls ::
    "htm_params \<Rightarrow> addr \<Rightarrow> nat \<Rightarrow> TransactionBit \<Rightarrow> int \<Rightarrow> bool \<Rightarrow> MachineID \<Rightarrow> bool \<Rightarrow> xact \<Rightarrow> (xact \<times> bool) res" where
  "nack_stalls c addr remote_timestamp remote_trans remote_priority remote_sw_prio remote_id wasAborting w =
     rbind (getTimestamp w) (\<lambda>local_timestamp.
     rbind (isRequesterStallsPolicy (conf w)) (\<lambda>stalls.
       if \<not> stalls then Inr (w, False)
       else if m_policy (conf w) = requester_stalls_pic_base then
         (if wasAborting then Inr (w, False)
          else rbind (nack_pic c addr remote_trans remote_priority remote_sw_prio remote_id w)
                 (\<lambda>w1. Inr (w1, False)))
       else nack_base c local_timestamp remote_timestamp remote_trans remote_priority remote_sw_prio
              remote_id w))"

definition notifyReceiveNack ::
    "htm_params \<Rightarrow> addr \<Rightarrow> nat \<Rightarrow> TransactionBit \<Rightarrow> int \<Rightarrow> bool \<Rightarrow> MachineID \<Rightarrow> xact \<Rightarrow> xact res" where
  "notifyReceiveNack c addr remote_timestamp remote_trans remote_priority remote_sw_prio remote_id w =
     (if m_transactionLevel w = 0 then Inr w
      else let w1 = w\<lparr>conf := (conf w)\<lparr>m_receivedNack := True\<rparr>\<rparr>; wasAborting = isAborting w1 in
        rbind (nack_stalls c addr remote_timestamp remote_trans remote_priority remote_sw_prio remote_id
                 wasAborting w1) (\<lambda>(w2, returned).
          if returned then Inr w2
          else rbind (isReqLosesPolicy (conf w2)) (\<lambda>loses.
               rbind (if loses \<or> isPowerTMPolicy (conf w2)
                      then setAbortFlag c addr remote_id remote_trans remote_priority False no_why w2
                      else Inr w2) (\<lambda>w3.
                 Inr (if \<not> wasAborting \<and> isAborting w3
                      then w3\<lparr>conf := (conf w3)\<lparr>m_abortedByNack := True\<rparr>\<rparr> else w3)))))"

section \<open>Shape of the updates\<close>

lemma switchHwPrio_ex:
  assumes "switchHwPrio c p sw rcv w = Inr w'"
  shows "\<exists>q. w' = w\<lparr>m_hwTransPrio := q\<rparr>"
proof -
  have same: "\<exists>q. w = w\<lparr>m_hwTransPrio := q\<rparr>"
    by (rule exI [of _ "m_hwTransPrio w"]) simp
  consider "w' = w" | q where "w' = w\<lparr>m_hwTransPrio := q\<rparr>"
    using assms unfolding switchHwPrio_def
    by (cases "prioMechanism w = no_prio"; cases rcv; cases "p = NC_PRIO_VALUE")
      (simp_all only: if_True if_False asrt_eq_Inr rbind_eq_Inr split: if_split_asm, blast+)
  then show ?thesis
    using same by cases blast+
qed

definition nack_frame :: "xact \<Rightarrow> xact \<Rightarrow> bool" where
  "nack_frame w w' \<longleftrightarrow> w' = w\<lparr>m_hwTransPrio := m_hwTransPrio w', conf := conf w'\<rparr>
     \<and> m_policy (conf w') = m_policy (conf w) \<and> m_default_policy (conf w') = m_default_policy (conf w)
     \<and> m_powered (conf w') = m_powered (conf w) \<and> m_timestamp (conf w') = m_timestamp (conf w)
     \<and> m_policy_nack_non_transactional (conf w') = m_policy_nack_non_transactional (conf w)"

lemma notifySendNack_frame:
  assumes "notifySendNack c a ts i p sw w = Inr w'"
  shows "nack_frame w w'"
proof -
  have "nack_frame w w" "\<And>q. nack_frame w (w\<lparr>m_hwTransPrio := q\<rparr>)"
    "nack_frame w (w\<lparr>conf := setPossibleCycle ((conf w)\<lparr>m_sentNack := True, m_sentNackAddr := a\<rparr>)\<rparr>)"
    by (simp_all add: nack_frame_def setPossibleCycle_def)
  moreover have "w' = w \<or> (\<exists>q. w' = w\<lparr>m_hwTransPrio := q\<rparr>)
      \<or> w' = w\<lparr>conf := setPossibleCycle ((conf w)\<lparr>m_sentNack := True, m_sentNackAddr := a\<rparr>)\<rparr>"
    using assms unfolding notifySendNack_def
    by (auto simp only: rbind_eq_Inr sum.inject split: if_splits dest: switchHwPrio_ex)
  ultimately show ?thesis by auto
qed

lemma nack_frame_sel:
  assumes "nack_frame w w'"
  shows "iso w' = iso w" "m_transactionLevel w' = m_transactionLevel w" "m_escapeLevel w' = m_escapeLevel w"
    "m_unrollingLogFlag w' = m_unrollingLogFlag w" "m_version w' = m_version w"
    "m_abortFlag w' = m_abortFlag w" "m_abortCause w' = m_abortCause w" "lvm w' = lvm w" "xic w' = xic w"
    "m_recvDataForwardedFromProducer w' = m_recvDataForwardedFromProducer w"
    "m_hasReceivedDataFromProducer w' = m_hasReceivedDataFromProducer w"
    "m_hasConsumedValidData w' = m_hasConsumedValidData w"
    "prioMechanism w' = prioMechanism w" "fwdMechanism w' = fwdMechanism w" "m_stalled w' = m_stalled w"
proof -
  obtain q s where "w' = w\<lparr>m_hwTransPrio := q, conf := s\<rparr>"
    using assms unfolding nack_frame_def by blast
  then show "iso w' = iso w" "m_transactionLevel w' = m_transactionLevel w" "m_escapeLevel w' = m_escapeLevel w"
    "m_unrollingLogFlag w' = m_unrollingLogFlag w" "m_version w' = m_version w"
    "m_abortFlag w' = m_abortFlag w" "m_abortCause w' = m_abortCause w" "lvm w' = lvm w" "xic w' = xic w"
    "m_recvDataForwardedFromProducer w' = m_recvDataForwardedFromProducer w"
    "m_hasReceivedDataFromProducer w' = m_hasReceivedDataFromProducer w"
    "m_hasConsumedValidData w' = m_hasConsumedValidData w"
    "prioMechanism w' = prioMechanism w" "fwdMechanism w' = fwdMechanism w" "m_stalled w' = m_stalled w"
    by simp_all
qed

lemma nack_frame_ok:
  assumes "xact_ok c w" and "nack_frame w w'"
  shows "xact_ok c w'"
proof -
  have "isPowerTMPolicy (conf w') = isPowerTMPolicy (conf w)"
    using assms(2) by (simp add: nack_frame_def isPowerTMPolicy_def)
  moreover have "m_default_policy (conf w') = m_default_policy (conf w)" "m_policy (conf w') = m_policy (conf w)"
      "m_powered (conf w') = m_powered (conf w)"
    using assms(2) by (simp_all add: nack_frame_def)
  ultimately show ?thesis
    using assms(1)
    by (simp add: xact_ok_def policy_ok_def sets_ok_def consumed_ok_def isConsumer_def nack_frame_sel [OF assms(2)])
qed

text \<open>What every answer to a remote request keeps of the manager.\<close>

definition request_frame :: "xact \<Rightarrow> xact \<Rightarrow> bool" where
  "request_frame w w' \<longleftrightarrow>
     iso w' = iso w \<and> m_transactionLevel w' = m_transactionLevel w \<and> m_escapeLevel w' = m_escapeLevel w
     \<and> m_unrollingLogFlag w' = m_unrollingLogFlag w \<and> m_version w' = m_version w
     \<and> m_recvDataForwardedFromProducer w' = m_recvDataForwardedFromProducer w
     \<and> m_policy (conf w') = m_policy (conf w) \<and> m_powered (conf w') = m_powered (conf w)
     \<and> m_timestamp (conf w') = m_timestamp (conf w)
     \<and> m_policy_nack_non_transactional (conf w') = m_policy_nack_non_transactional (conf w)
     \<and> (m_abortFlag w \<longrightarrow> m_abortFlag w')"

lemma request_frame_refl [simp]: "request_frame w w"
  by (simp add: request_frame_def)

lemma request_frame_trans: "request_frame u v \<Longrightarrow> request_frame v w \<Longrightarrow> request_frame u w"
  by (auto simp: request_frame_def)

lemma request_frame_nack: "nack_frame w w' \<Longrightarrow> request_frame w w'"
  using nack_frame_sel [of w w'] by (simp add: request_frame_def nack_frame_def)

lemma request_frame_abort: "setAbortFlag c a i t p sw why w = Inr w' \<Longrightarrow> request_frame w w'"
  using setAbortFlag_frame(1,2) abort_frame_sel [of w w'] by (simp add: request_frame_def)

section \<open>Answers to remote requests\<close>

definition remote_ok :: "htm_params \<Rightarrow> addr \<Rightarrow> MachineID \<Rightarrow> nat \<Rightarrow> bool \<Rightarrow> xact \<Rightarrow> bool" where
  "remote_ok c a i ts sw w \<longleftrightarrow>
     a = line c a \<and> a \<noteq> 0 \<and> mach_type i = L1Cache \<and> mach_num i \<noteq> m_version w \<and> 0 < ts
     \<and> (sw \<longrightarrow> \<not> m_powered (conf w))"

definition pic_ok :: "htm_params \<Rightarrow> xact \<Rightarrow> bool" where
  "pic_ok c w \<longleftrightarrow> (conflict_resolution c = requester_stalls_pic_base \<longrightarrow>
     getHwPrioMechanism c = numeric \<and> getFwdMechanism c = no_fwd \<and> \<not> isConsumer w)"

definition in_tx :: "htm_params \<Rightarrow> xact \<Rightarrow> bool" where
  "in_tx c w \<longleftrightarrow> xact_ok c w \<and> m_transactionLevel w = 1 \<and> m_escapeLevel w = 0 \<and> \<not> isUnrollingLog c w
     \<and> pic_ok c w"

lemma in_tx_request_frame:
  assumes "in_tx c w" and "request_frame w w'" and "xact_ok c w'"
  shows "in_tx c w'"
  using assms by (auto simp: in_tx_def request_frame_def isUnrollingLog_def pic_ok_def isConsumer_def)

lemma in_tx_nack_frame: "in_tx c w \<Longrightarrow> nack_frame w w' \<Longrightarrow> in_tx c w'"
  by (meson in_tx_def in_tx_request_frame nack_frame_ok request_frame_nack)

lemma remote_ok_request_frame:
  "remote_ok c a i ts sw w \<Longrightarrow> request_frame w w' \<Longrightarrow> remote_ok c a i ts sw w'"
  by (simp add: remote_ok_def request_frame_def)

lemma in_tx_setAbortFlag:
  assumes "in_tx c w" and "remote_ok c a i ts sw w"
  obtains w' where "setAbortFlag c a i t p s no_why w = Inr w'" "in_tx c w'" "m_abortFlag w'" "request_frame w w'"
proof -
  have "source_ok i no_why w"
    using assms(2) by (simp add: remote_ok_def source_ok_def no_why_def)
  moreover have "line c a \<noteq> 0"
    using assms(2) unfolding remote_ok_def by metis
  ultimately obtain w' where set: "setAbortFlag c a i t p s no_why w = Inr w'"
    using setAbortFlag_total assms(1) unfolding in_tx_def by blast
  with assms(1) have "request_frame w w'" "xact_ok c w'" "m_abortFlag w'"
    by (auto simp: in_tx_def intro: request_frame_abort setAbortFlag_ok setAbortFlag_frame)
  with set in_tx_request_frame [OF assms(1)] that show ?thesis by blast
qed

lemma chooseWinner_total:
  assumes "policy_ok c w" and "getResolutionPolicy c = RequesterStalls \<Longrightarrow> getHwPrioMechanism c = numeric"
    and "sw \<Longrightarrow> \<not> m_powered (conf w)"
  shows "\<exists>b. chooseWinnerPriority c p sw w = Inr b"
proof (cases "getHwPrioMechanism c")
  case numeric
  then show ?thesis
    using assms(1) by (simp add: chooseWinnerPriority_def winner_numeric_def policy_ok_simps Let_def)
next
  case no_prio
  with assms(2) have "getResolutionPolicy c \<noteq> RequesterStalls" by auto
  moreover have "getResolutionPolicy c \<noteq> RequesterStallsPiCBased" "getResolutionPolicy c \<noteq> UndefinedPolicy"
    using assms(1) by (auto simp: getResolutionPolicy_def Let_def policy_ok_def)
  ultimately have "getResolutionPolicy c = RequesterLoses \<or> getResolutionPolicy c = RequesterWins"
    by (cases "getResolutionPolicy c") auto
  then show ?thesis
    using assms(1,3) no_prio
    by (auto simp: chooseWinnerPriority_def winner_no_prio_def policy_ok_simps)
qed

lemma named_policies:
  "conflict_resolution c = power_tm \<Longrightarrow> getResolutionPolicy c = RequesterWins"
  "conflict_resolution c = woper_tm \<Longrightarrow> getResolutionPolicy c = RequesterLoses"
  "conflict_resolution c = committer_wins \<Longrightarrow> getResolutionPolicy c = UndefinedPolicy"
  "conflict_resolution c = requester_stalls_pic_base \<Longrightarrow> getResolutionPolicy c = RequesterStalls"
  "conflict_resolution c = requester_stalls_cda_hybrid \<Longrightarrow> getResolutionPolicy c = RequesterStalls"
  unfolding getResolutionPolicy_def Let_def by (simp_all add: starts_with_def policy_string_defs)

lemma stalls_not_power:
  assumes "policy_ok c w" and "getResolutionPolicy c = RequesterStalls"
  shows "\<not> m_powered (conf w)"
  using assms named_policies(1,2) [of c] by (auto simp: policy_ok_def isPowerTMPolicy_def)

lemma resolved_not_committer:
  "getResolutionPolicy c \<noteq> UndefinedPolicy \<Longrightarrow> conflict_resolution c \<noteq> committer_wins"
  using named_policies(3) by blast

lemma send_switch_total:
  assumes "policy_ok c w" and "pic_ok c w" and "conflict_resolution c = requester_stalls_pic_base"
  shows "\<exists>w'. switchHwPrio c p sw False w = Inr w'"
proof -
  have "\<not> m_powered (conf w)"
    by (rule stalls_not_power [OF assms(1) named_policies(4) [OF assms(3)]])
  moreover have "\<not> config_allowEarlyValueFwd w" "\<not> isConsumer w"
    using assms by (simp_all add: pic_ok_def policy_ok_def config_allowEarlyValueFwd_def)
  ultimately show ?thesis
    using assms(1,3) by (simp add: switchHwPrio_def policy_ok_simps)
qed

lemma notifySendNack_total:
  assumes "in_tx c w" and "remote_ok c a i ts sw w"
  shows "\<exists>w'. notifySendNack c a ts i p sw w = Inr w'"
proof -
  have pol: "policy_ok c w" and sets: "sets_ok c w" and pic: "pic_ok c w" and l: "0 < m_transactionLevel w"
    using assms(1) by (simp_all add: in_tx_def xact_ok_def)
  have older: "\<exists>b. isRemoteOlder w (m_timestamp (conf w)) ts i = Inr b"
    using assms(2) by (simp add: isRemoteOlder_def remote_ok_def machineIDToNodeID_def)
  show ?thesis
    using send_switch_total [OF pol pic] older pol
    by (auto simp: notifySendNack_def policy_ok_simps [OF pol] sets_ok_signatures [OF sets l]
        getTimestamp_def l policy_ok_def)
qed

lemma nack_decision_resolved:
  assumes tx: "in_tx c w" and rem: "remote_ok c a i ts sw w"
  obtains nack w' where "nack_decision c a i t p sw w = Inr (nack, w')" "in_tx c w'" "request_frame w w'"
    "\<not> lazy_vm c \<and> \<not> isTransactionalRequest t \<and> nack \<Longrightarrow>
       getResolutionPolicy c = RequesterStalls \<and> conflict_resolution c \<noteq> requester_stalls_pic_base
       \<and> \<not> m_policy_nack_non_transactional (conf w) \<Longrightarrow> m_abortFlag w'"
    "lazy_vm c \<and> \<not> isTransactionalRequest t \<and> \<not> m_policy_nack_non_transactional (conf w) \<Longrightarrow> \<not> nack"
proof -
  have pol: "policy_ok c w" and nolog: "\<not> isUnrollingLog c w" and mp: "m_policy (conf w) = conflict_resolution c"
    using tx by (simp_all add: in_tx_def xact_ok_def policy_ok_def)
  have choose: "\<exists>b. chooseWinnerPriority c p sw w = Inr b"
    if "getResolutionPolicy c = RequesterStalls \<Longrightarrow> conflict_resolution c = requester_stalls_pic_base"
    using chooseWinner_total [OF pol] that tx rem by (auto simp: in_tx_def pic_ok_def remote_ok_def)
  have nc: "conflict_resolution c \<noteq> committer_wins"
    using pol by (intro resolved_not_committer) (simp add: policy_ok_def)
  obtain wf where wf: "setAbortFlag c a i t p False no_why w = Inr wf" "in_tx c wf" "m_abortFlag wf" "request_frame w wf"
    using in_tx_setAbortFlag [OF tx rem] by blast
  show ?thesis
  proof (cases "getResolutionPolicy c = RequesterStalls \<and> conflict_resolution c \<noteq> requester_stalls_pic_base
      \<and> \<not> isTransactionalRequest t \<and> \<not> m_policy_nack_non_transactional (conf w) \<and> \<not> lazy_vm c")
    case True
    then have "nack_decision c a i t p sw w = Inr (True, wf)"
      by (simp add: nack_decision_def policy_ok_simps [OF pol] mp nolog wf(1))
    then show ?thesis
      using True wf that by blast
  next
    case False
    have "\<exists>nack. nack_decision c a i t p sw w = Inr (nack, w)
       \<and> (lazy_vm c \<and> \<not> isTransactionalRequest t \<and> \<not> m_policy_nack_non_transactional (conf w) \<longrightarrow> \<not> nack)"
      using False choose nc
      by (auto simp: nack_decision_def policy_ok_simps [OF pol] mp nolog)
    then show ?thesis
      using False tx that by (metis request_frame_refl)
  qed
qed

lemma remote_request_resolved:
  assumes tx: "in_tx c w" and rem: "remote_ok c a i ts sw w"
  obtains nack w' where "shouldNackRemoteRequest c a i ts t p sw w = Inr (nack, w')" "in_tx c w'" "request_frame w w'"
    "nack \<or> m_abortFlag w'"
    "getResolutionPolicy c = RequesterStalls \<and> conflict_resolution c \<noteq> requester_stalls_pic_base
       \<and> \<not> isTransactionalRequest t \<and> \<not> m_policy_nack_non_transactional (conf w) \<Longrightarrow> m_abortFlag w'"
proof (cases "m_abortFlag w")
  case True
  have "isAborting w"
    using tx True by (simp add: in_tx_def isAborting_def inTransaction_def)
  then have "shouldNackRemoteRequest c a i ts t p sw w = Inr (False, w)"
    by (simp add: shouldNackRemoteRequest_def)
  with True tx that show ?thesis by (metis request_frame_refl)
next
  case False
  obtain nack w1 where d: "nack_decision c a i t p sw w = Inr (nack, w1)" "in_tx c w1" "request_frame w w1"
    "\<not> lazy_vm c \<and> \<not> isTransactionalRequest t \<and> nack \<Longrightarrow>
       getResolutionPolicy c = RequesterStalls \<and> conflict_resolution c \<noteq> requester_stalls_pic_base
       \<and> \<not> m_policy_nack_non_transactional (conf w) \<Longrightarrow> m_abortFlag w1"
    "lazy_vm c \<and> \<not> isTransactionalRequest t \<and> \<not> m_policy_nack_non_transactional (conf w) \<Longrightarrow> \<not> nack"
    using nack_decision_resolved [OF tx rem] by metis
  have rem1: "remote_ok c a i ts sw w1"
    using rem d(3) by (rule remote_ok_request_frame)
  have alive: "\<not> isAborting w" "isDoomed c w = Inr False"
    using False tx by (simp_all add: isAborting_def isDoomed_def in_tx_def)
  have al: "a = line c a"
    using rem by (simp add: remote_ok_def)
  show ?thesis
  proof (cases nack)
    case True
    obtain w2 where w2: "notifySendNack c a ts i p sw w1 = Inr w2"
      using notifySendNack_total [OF d(2) rem1] by blast
    have f: "nack_frame w1 w2"
      using w2 by (rule notifySendNack_frame)
    have "in_tx c w2"
      using d(2) f by (rule in_tx_nack_frame)
    moreover have "request_frame w w2"
      using d(3) f by (blast intro: request_frame_trans request_frame_nack)
    moreover have "shouldNackRemoteRequest c a i ts t p sw w = Inr (nack, w2)"
      using True alive d(1) w2 al by (simp add: shouldNackRemoteRequest_def)
    ultimately show ?thesis
      using True d(4,5) nack_frame_sel(6) [OF f] that by metis
  next
    case False
    obtain w2 where w2: "setAbortFlag c a i t p sw no_why w1 = Inr w2" "in_tx c w2" "m_abortFlag w2" "request_frame w1 w2"
      using in_tx_setAbortFlag [OF d(2) rem1] by blast
    moreover have "shouldNackRemoteRequest c a i ts t p sw w = Inr (nack, w2)"
      using False alive d(1) w2(1) al by (simp add: shouldNackRemoteRequest_def)
    moreover have "request_frame w w2"
      using d(3) w2(4) by (rule request_frame_trans)
    ultimately show ?thesis
      using that by metis
  qed
qed

lemma load_resolved:
  assumes tx: "in_tx c w" and rem: "remote_ok c a i ts sw w" and mine: "a \<in> writes (iso w)"
  shows "\<exists>nack w'. shouldNackLoad c a i ts t p sw w = Inr (nack, w') \<and> (nack \<or> m_abortFlag w')
      \<and> in_tx c w' \<and> request_frame w w'"
proof -
  have sets: "sets_ok c w" "0 < m_transactionLevel w" and al: "a = line c a"
    using tx rem by (simp_all add: in_tx_def xact_ok_def remote_ok_def)
  have "checkWriteSignature c w a = Inr True"
    using sets_ok_signatures(2) [OF sets, of a] mine al by simp
  moreover obtain nack w' where "shouldNackRemoteRequest c a i ts t p sw w = Inr (nack, w')" "in_tx c w'"
      "request_frame w w'" "nack \<or> m_abortFlag w'"
    using remote_request_resolved [OF tx rem] by metis
  ultimately show ?thesis
    using rem al by (auto simp: shouldNackLoad_def cm_shouldNackLoad_def remote_ok_def machineIDToMachineType_def)
qed

lemma store_resolved:
  assumes tx: "in_tx c w" and rem: "remote_ok c a i ts sw w" and mine: "a \<in> reads (iso w) \<union> writes (iso w)"
    and hybrid: "conflict_resolution c \<noteq> requester_stalls_cda_hybrid"
  shows "\<exists>nack w'. shouldNackStore c a i ts t p sw w = Inr (nack, w') \<and> (nack \<or> m_abortFlag w')
      \<and> in_tx c w' \<and> request_frame w w'"
proof -
  have sets: "sets_ok c w" "0 < m_transactionLevel w" and al: "a = line c a"
    using tx rem by (simp_all add: in_tx_def xact_ok_def remote_ok_def)
  let ?wr = "a \<in> writes (iso w)"
  have sig: "checkWriteSignature c w a = Inr ?wr" "checkReadSignature c w a = Inr (a \<in> reads (iso w))"
    using sets_ok_signatures [OF sets, of a] al by simp_all
  obtain nack w1 where r: "shouldNackRemoteRequest c a i ts t p sw w = Inr (nack, w1)" "in_tx c w1"
      "request_frame w w1" "nack \<or> m_abortFlag w1"
      "getResolutionPolicy c = RequesterStalls \<and> conflict_resolution c \<noteq> requester_stalls_pic_base
       \<and> \<not> isTransactionalRequest t \<and> \<not> m_policy_nack_non_transactional (conf w) \<Longrightarrow> m_abortFlag w1"
    using remote_request_resolved [OF tx rem] by metis
  have pol: "policy_ok c w1" "m_policy (conf w1) = conflict_resolution c"
      "m_policy_nack_non_transactional (conf w1) = m_policy_nack_non_transactional (conf w)"
    using r(2,3) by (simp_all add: in_tx_def xact_ok_def policy_ok_def request_frame_def)
  obtain w2 where w2: "setAbortFlag c a i t p sw no_why w1 = Inr w2" "in_tx c w2" "m_abortFlag w2" "request_frame w1 w2"
    using in_tx_setAbortFlag [OF r(2) remote_ok_request_frame [OF rem r(3)]] by blast
  have f2: "request_frame w w2"
    using r(3) w2(4) by (rule request_frame_trans)
  have "\<exists>n w'. store_stalls c a i ts t p sw ?wr nack w1 = Inr (n, w') \<and> (n \<or> m_abortFlag w')
      \<and> in_tx c w' \<and> request_frame w w'" if "getResolutionPolicy c = RequesterStalls"
    using that r w2 f2 pol(2,3) hybrid unfolding store_stalls_def by auto
  then have "\<exists>n w'. cm_shouldNackStore c a i ts t p sw w = Inr (n, w') \<and> (n \<or> m_abortFlag w')
      \<and> in_tx c w' \<and> request_frame w w'"
    using sig r(1-4) rem mine
    by (cases "getResolutionPolicy c = RequesterStalls")
      (auto simp: cm_shouldNackStore_def remote_ok_def machineIDToMachineType_def policy_ok_simps [OF pol(1)])
  then show ?thesis
    using al by (simp add: shouldNackStore_def)
qed

lemma no_conflict_granted:
  assumes tx: "in_tx c w" and al: "a = line c a"
  shows "a \<notin> writes (iso w) \<Longrightarrow> shouldNackLoad c a i ts t p sw w = Inr (False, w)"
    and "a \<notin> reads (iso w) \<union> writes (iso w) \<Longrightarrow> shouldNackStore c a i ts t p sw w = Inr (False, w)"
proof -
  have sets: "sets_ok c w" "0 < m_transactionLevel w"
    using tx by (simp_all add: in_tx_def xact_ok_def)
  have sig: "checkWriteSignature c w a = Inr (a \<in> writes (iso w))"
      "checkReadSignature c w a = Inr (a \<in> reads (iso w))"
    using sets_ok_signatures [OF sets, of a] al by simp_all
  show "a \<notin> writes (iso w) \<Longrightarrow> shouldNackLoad c a i ts t p sw w = Inr (False, w)"
    using sig al by (simp add: shouldNackLoad_def cm_shouldNackLoad_def)
  show "a \<notin> reads (iso w) \<union> writes (iso w) \<Longrightarrow> shouldNackStore c a i ts t p sw w = Inr (False, w)"
    using sig al by (simp add: shouldNackStore_def cm_shouldNackStore_def)
qed

section \<open>The age of transactions\<close>

definition mach_of :: "xact \<Rightarrow> MachineID" where
  "mach_of w = \<lparr>mach_type = L1Cache, mach_num = m_version w\<rparr>"

definition age :: "xact \<Rightarrow> nat \<times> nat" where
  "age w = (m_timestamp (conf w), m_version w)"

lemma isRemoteOlder_age:
  assumes "m_version v \<noteq> m_version w"
  shows "isRemoteOlder w (m_timestamp (conf w)) (m_timestamp (conf v)) (mach_of v) = Inr (age v < age w)"
  using assms by (auto simp: isRemoteOlder_def mach_of_def age_def machineIDToNodeID_def)

lemma notifySendNack_base:
  assumes tx: "in_tx c w"
    and pol: "getResolutionPolicy c = RequesterStalls" "conflict_resolution c \<noteq> requester_stalls_pic_base"
    and mine: "a = line c a" "a \<in> reads (iso w) \<union> writes (iso w)" and ver: "m_version v \<noteq> m_version w"
  shows "notifySendNack c a (m_timestamp (conf v)) (mach_of v) p sw w =
           Inr (if age v < age w
                then w\<lparr>conf := setPossibleCycle ((conf w)\<lparr>m_sentNack := True, m_sentNackAddr := a\<rparr>)\<rparr> else w)"
proof -
  have ok: "policy_ok c w" "sets_ok c w" "0 < m_transactionLevel w" "m_policy (conf w) = conflict_resolution c"
    using tx by (simp_all add: in_tx_def xact_ok_def policy_ok_def)
  have sig: "checkWriteSignature c w a = Inr (a \<in> writes (iso w))"
      "checkReadSignature c w a = Inr (a \<in> reads (iso w))"
    using sets_ok_signatures [OF ok(2,3), of a] mine(1) by simp_all
  show ?thesis
    using pol mine(2) ok(3,4)
    by (auto simp: notifySendNack_def policy_ok_simps [OF ok(1)] sig getTimestamp_def isRemoteOlder_age [OF ver])
qed

lemma sent_to_older:
  assumes tx: "in_tx c w" and sent: "notifySendNack c a (m_timestamp (conf v)) (mach_of v) p sw w = Inr w'"
    and pol: "getResolutionPolicy c = RequesterStalls" "conflict_resolution c \<noteq> requester_stalls_pic_base"
    and mine: "a = line c a" "a \<in> reads (iso w) \<union> writes (iso w)"
    and age: "m_version v \<noteq> m_version w" "age v < age w"
  shows "m_possible_cycle (conf w')" "m_sentNackAddr (conf w') = a"
proof -
  have "w' = w\<lparr>conf := setPossibleCycle ((conf w)\<lparr>m_sentNack := True, m_sentNackAddr := a\<rparr>)\<rparr>"
    using notifySendNack_base [OF tx pol mine age(1)] sent age(2) by simp
  then show "m_possible_cycle (conf w')" "m_sentNackAddr (conf w') = a"
    by (simp_all add: setPossibleCycle_def)
qed

lemma nacked_by_older_aborts:
  assumes tx: "in_tx c w" and cycle: "m_possible_cycle (conf w)"
    and a: "m_sentNackAddr (conf w) = line c a0" "line c a0 \<noteq> 0"
    and pol: "getResolutionPolicy c = RequesterStalls" "conflict_resolution c \<noteq> requester_stalls_pic_base"
    and age: "m_version v \<noteq> m_version w" "age v < age w" "0 < m_timestamp (conf v)"
  shows "\<exists>w'. notifyReceiveNack c b (m_timestamp (conf v)) t p sw (mach_of v) w = Inr w' \<and> isAborting w'"
proof -
  define w1 where "w1 = w\<lparr>conf := (conf w)\<lparr>m_receivedNack := True\<rparr>\<rparr>"
  have f1: "nack_frame w w1" "m_possible_cycle (conf w1)" "m_sentNackAddr (conf w1) = line c a0"
      "m_timestamp (conf w1) = m_timestamp (conf w)" "m_version w1 = m_version w"
    using cycle a(1) by (simp_all add: nack_frame_def w1_def)
  then have tx1: "in_tx c w1"
    using tx by (blast intro: in_tx_nack_frame)
  have ok: "policy_ok c w1" "m_policy (conf w1) = conflict_resolution c"
    using tx1 by (simp_all add: in_tx_def xact_ok_def policy_ok_def)
  have older: "isRemoteOlder w1 (m_timestamp (conf w1)) (m_timestamp (conf v)) (mach_of v) = Inr True"
    using isRemoteOlder_age [of v w1] age f1 by (simp add: age_def)
  have "remote_ok c (line c a0) (mach_of v) (m_timestamp (conf v)) False w1"
    using a(2) age(1,3) f1 by (simp add: remote_ok_def mach_of_def line_idem)
  from in_tx_setAbortFlag [OF tx1 this] obtain w2 where w2:
      "setAbortFlag c (line c a0) (mach_of v) t (if sw then 1 else 0) (p \<noteq> 0) no_why w1 = Inr w2"
      "in_tx c w2" "m_abortFlag w2" by metis
  have pol2: "policy_ok c w2" "\<not> isPowerTMPolicy (conf w2)"
    using w2(2) pol(1) named_policies(1,2) [of c]
    by (auto simp: in_tx_def xact_ok_def policy_ok_def isPowerTMPolicy_def)
  have ab: "isAborting w2"
    using w2(2,3) by (simp add: in_tx_def isAborting_def inTransaction_def)
  have "nack_stalls c b (m_timestamp (conf v)) t p sw (mach_of v) (isAborting w1) w1 = Inr (w2, False)"
    using tx1 ok pol f1 older w2(1)
    by (simp add: nack_stalls_def nack_base_def getTimestamp_def policy_ok_simps [OF ok(1)] in_tx_def)
  then show ?thesis
    unfolding notifyReceiveNack_def w1_def [symmetric] Let_def
    using tx pol2 pol(1) ab by (simp add: in_tx_def policy_ok_simps isAborting_def inTransaction_def)
qed

lemma youngest_exists:
  assumes "ws \<noteq> []" and "distinct (map m_version ws)"
  obtains i where "i < length ws" "\<And>j. j < length ws \<Longrightarrow> j \<noteq> i \<Longrightarrow> age (ws ! j) < age (ws ! i)"
proof -
  have "Max (age ` set ws) \<in> age ` set ws"
    using assms(1) by (intro Max_in) auto
  then obtain i where i: "i < length ws" "age (ws ! i) = Max (age ` set ws)"
    by (metis imageE in_set_conv_nth)
  show ?thesis
  proof (rule that [OF i(1)])
    fix j assume j: "j < length ws" "j \<noteq> i"
    then have "age (ws ! j) \<le> age (ws ! i)"
      using i by simp
    moreover have "m_version (ws ! j) \<noteq> m_version (ws ! i)"
      using assms(2) i(1) j by (simp add: distinct_conv_nth)
    ultimately show "age (ws ! j) < age (ws ! i)"
      by (auto simp: age_def)
  qed
qed

lemma ring_neighbours:
  fixes i n :: nat
  assumes "2 \<le> n" and "i < n"
  obtains j where "j < n" "j \<noteq> i" "(j + 1) mod n = i" and "(i + 1) mod n < n" "(i + 1) mod n \<noteq> i"
proof (cases i)
  case 0
  then show ?thesis
    using assms that [of "n - 1"] by simp
next
  case (Suc k)
  then show ?thesis
    using assms that [of k] by (cases "i + 1 = n") auto
qed

section \<open>Example managers\<close>

definition holding :: "htm_params \<Rightarrow> nat \<Rightarrow> nat \<Rightarrow> addr \<Rightarrow> xact" where
  "holding c v ts a = (running_tx c)\<lparr>m_version := v, iso := iso_init\<lparr>m_writeSet := [(a, RETIRED_STORE)]\<rparr>,
     conf := (plain_conflict c)\<lparr>m_timestamp := ts\<rparr>\<rparr>"

definition reading :: "htm_params \<Rightarrow> nat \<Rightarrow> nat \<Rightarrow> addr \<Rightarrow> xact" where
  "reading c v ts a = (running_tx c)\<lparr>m_version := v, iso := iso_init\<lparr>m_readSet := [(a, RETIRED_LOAD)]\<rparr>,
     conf := (plain_conflict c)\<lparr>m_timestamp := ts\<rparr>\<rparr>"

lemma example_sel [simp]:
  "iso (holding c v ts a) = iso_init\<lparr>m_writeSet := [(a, RETIRED_STORE)]\<rparr>"
  "iso (reading c v ts a) = iso_init\<lparr>m_readSet := [(a, RETIRED_LOAD)]\<rparr>"
  "writes (iso_init\<lparr>m_writeSet := [(a, RETIRED_STORE)]\<rparr>) = {a}"
  "reads (iso_init\<lparr>m_writeSet := [(a, RETIRED_STORE)]\<rparr>) = {}"
  "reads (iso_init\<lparr>m_readSet := [(a, RETIRED_LOAD)]\<rparr>) = {a}"
  "writes (iso_init\<lparr>m_readSet := [(a, RETIRED_LOAD)]\<rparr>) = {}"
  "m_version (holding c v ts a) = v" "m_version (reading c v ts a) = v"
  "m_timestamp (conf (holding c v ts a)) = ts" "m_timestamp (conf (reading c v ts a)) = ts"
  "m_powered (conf (holding c v ts a)) = False" "m_powered (conf (reading c v ts a)) = False"
  "m_abortFlag (holding c v ts a) = False" "m_abortFlag (reading c v ts a) = False"
  by (simp_all add: holding_def reading_def reads_def writes_def iso_init_def smap_keys_def plain_conflict_def)

lemma example_in_tx:
  assumes "getResolutionPolicy c \<noteq> UndefinedPolicy" and "line c a = a" and "v < 2"
    and "conflict_resolution c \<noteq> requester_stalls_pic_base"
  shows "in_tx c (holding c v ts a)" "in_tx c (reading c v ts a)"
proof -
  have i: "iso_ok c (iso_init\<lparr>m_writeSet := [(a, RETIRED_STORE)]\<rparr>)" "iso_ok c (iso_init\<lparr>m_readSet := [(a, RETIRED_LOAD)]\<rparr>)"
    using assms(2) by (auto simp: iso_ok_def iso_init_def reads_def writes_def smap_keys_def smap_ok_def)
  have "xact_ok c (running_tx c)"
    using assms(1) by (rule running_tx_ok)
  then show "in_tx c (holding c v ts a)" "in_tx c (reading c v ts a)"
    using assms(3,4) i
    by (simp_all add: in_tx_def xact_ok_def policy_ok_def sets_ok_def consumed_ok_def holding_def reading_def
        isConsumer_def isUnrollingLog_def pic_ok_def plain_conflict_def isPowerTMPolicy_def running_tx_def
        tim_build_def quiet_env_def iso_init_def xic_ok_def)
qed

definition logtm_params :: "string \<Rightarrow> htm_params" where
  "logtm_params policy = default_params\<lparr>eager_cd := True, lazy_vm := False, conflict_resolution := policy\<rparr>"

lemma logtm_params_sel [simp]:
  "eager_cd (logtm_params s)" "\<not> lazy_vm (logtm_params s)" "conflict_resolution (logtm_params s) = s"
  "block_size_bits (logtm_params s) = 6"
  by (simp_all add: logtm_params_def)

lemma example_lines:
  "makeLineAddress 6 0x1200 = 0x1200" "makeLineAddress 6 0x1240 = 0x1240"
  by (simp_all add: makeLineAddress_def mask64_def mbits_def)

lemma example_policies:
  "getResolutionPolicy (logtm_params requester_stalls_cda_base) = RequesterStalls"
  "getResolutionPolicy (logtm_params requester_stalls_cda_hybrid) = RequesterStalls"
  "requester_stalls_cda_base \<noteq> requester_stalls_pic_base" "requester_stalls_cda_hybrid \<noteq> requester_stalls_pic_base"
  "requester_stalls_cda_base \<noteq> requester_stalls_cda_hybrid" "requester_wins \<noteq> requester_stalls_cda_hybrid"
  "requester_wins \<noteq> requester_stalls_pic_base"
  by (simp_all add: getResolutionPolicy_def starts_with_def policy_string_defs)

section \<open>Properties\<close>

text \<open>
  C3. Strong isolation of the conflict manager. For every policy but the hybrid one, when a remote
  processor asks for a line that the running transaction has written (for a load) or read or
  written (for a store), the request is answered without a failed assertion, and either it is
  nacked or the transaction is marked for abort; the read and write sets are kept. A request for
  any other line is granted and changes nothing.
\<close>

theorem conflict_never_granted:
  assumes "in_tx c w" and "remote_ok c a i ts sw w"
    and "conflict_resolution c \<noteq> requester_stalls_cda_hybrid"
  shows "(if a \<in> writes (iso w)
          then \<exists>nack w'. shouldNackLoad c a i ts t p sw w = Inr (nack, w') \<and> (nack \<or> isAborting w')
                 \<and> in_tx c w' \<and> iso w' = iso w
          else shouldNackLoad c a i ts t p sw w = Inr (False, w))
       \<and> (if a \<in> reads (iso w) \<union> writes (iso w)
          then \<exists>nack w'. shouldNackStore c a i ts t p sw w = Inr (nack, w') \<and> (nack \<or> isAborting w')
                 \<and> in_tx c w' \<and> iso w' = iso w
          else shouldNackStore c a i ts t p sw w = Inr (False, w))"
proof -
  have al: "a = line c a"
    using assms(2) by (simp add: remote_ok_def)
  have ab: "isAborting w'" if "in_tx c w'" "m_abortFlag w'" for w'
    using that by (simp add: in_tx_def isAborting_def inTransaction_def)
  have iso: "iso w' = iso w" if "request_frame w w'" for w'
    using that by (simp add: request_frame_def)
  have "if a \<in> writes (iso w)
         then \<exists>nack w'. shouldNackLoad c a i ts t p sw w = Inr (nack, w') \<and> (nack \<or> isAborting w')
                \<and> in_tx c w' \<and> iso w' = iso w
         else shouldNackLoad c a i ts t p sw w = Inr (False, w)"
  proof (cases "a \<in> writes (iso w)")
    case True
    then show ?thesis
      unfolding if_P [OF True] using load_resolved [OF assms(1,2) True] ab iso by blast
  next
    case False
    then show ?thesis
      unfolding if_not_P [OF False] by (rule no_conflict_granted(1) [OF assms(1) al])
  qed
  moreover have "if a \<in> reads (iso w) \<union> writes (iso w)
         then \<exists>nack w'. shouldNackStore c a i ts t p sw w = Inr (nack, w') \<and> (nack \<or> isAborting w')
                \<and> in_tx c w' \<and> iso w' = iso w
         else shouldNackStore c a i ts t p sw w = Inr (False, w)"
  proof (cases "a \<in> reads (iso w) \<union> writes (iso w)")
    case True
    then show ?thesis
      unfolding if_P [OF True] using store_resolved [OF assms(1,2) True assms(3)] ab iso by blast
  next
    case False
    then show ?thesis
      unfolding if_not_P [OF False] by (rule no_conflict_granted(2) [OF assms(1) al])
  qed
  ultimately show ?thesis ..
qed

theorem conflict_never_granted_witness:
  "\<exists>nack w'. shouldNackLoad el_params 0x1200 \<lparr>mach_type = L1Cache, mach_num = 0\<rparr> 3 TransactionBit_Trans 0 False
       (holding el_params 1 5 0x1200) = Inr (nack, w') \<and> (nack \<or> isAborting w')"
  using conflict_never_granted [of el_params "holding el_params 1 5 0x1200" "0x1200" "\<lparr>mach_type = L1Cache, mach_num = 0\<rparr>"
      3 False TransactionBit_Trans 0]
  by (auto simp: example_in_tx remote_ok_def example_lines example_policies)

text \<open>
  C19. No deadlock among stalled transactions. Take transactions in a ring, each stalled because
  the next one nacked its request for a line the next one has read or written. Under the
  timestamp-based stalling policies at least one of them, the youngest, aborts when it is nacked
  again, whatever the nack carries.
\<close>

theorem stall_cycle_broken:
  fixes ws ss :: "xact list" and xs :: "addr list"
  defines "nxt \<equiv> \<lambda>i. (i + 1) mod length ws"
  assumes n: "2 \<le> length ws" and ids: "distinct (map m_version ws)"
    and pol: "getResolutionPolicy c = RequesterStalls" "conflict_resolution c \<noteq> requester_stalls_pic_base"
    and tx: "\<forall>i<length ws. in_tx c (ws ! i) \<and> 0 < m_timestamp (conf (ws ! i)) \<and> xs ! i \<noteq> 0
               \<and> xs ! i = line c (xs ! i) \<and> xs ! i \<in> reads (iso (ws ! i)) \<union> writes (iso (ws ! i))"
    and sent: "\<forall>i<length ws. notifySendNack c (xs ! nxt i) (m_timestamp (conf (ws ! i))) (mach_of (ws ! i))
                 prio swprio (ws ! nxt i) = Inr (ss ! nxt i)"
  shows "\<exists>i<length ws. \<forall>b t p sw. \<exists>w'.
           notifyReceiveNack c b (m_timestamp (conf (ss ! nxt i))) t p sw (mach_of (ss ! nxt i)) (ss ! i) = Inr w'
           \<and> isAborting w'"
proof -
  have "ws \<noteq> []"
    using n by auto
  from youngest_exists [OF this ids] obtain i where
      i: "i < length ws" "\<And>j. j < length ws \<Longrightarrow> j \<noteq> i \<Longrightarrow> age (ws ! j) < age (ws ! i)"
    by blast
  obtain j where j: "j < length ws" "j \<noteq> i" "nxt j = i" and k: "nxt i < length ws" "nxt i \<noteq> i"
    using ring_neighbours [OF n i(1)] unfolding nxt_def by metis
  have si: "notifySendNack c (xs ! i) (m_timestamp (conf (ws ! j))) (mach_of (ws ! j)) prio swprio (ws ! i) = Inr (ss ! i)"
    and sk: "notifySendNack c (xs ! nxt i) (m_timestamp (conf (ws ! i))) (mach_of (ws ! i)) prio swprio
               (ws ! nxt i) = Inr (ss ! nxt i)"
    using sent [rule_format, OF j(1)] sent [rule_format, OF i(1)] j(3) by simp_all
  have vers: "m_version (ws ! j) \<noteq> m_version (ws ! i)" "m_version (ws ! nxt i) \<noteq> m_version (ws ! i)"
    using ids i(1) j k by (simp_all add: distinct_conv_nth)
  note fi = notifySendNack_frame [OF si] and fk = notifySendNack_frame [OF sk]
  have ages: "m_timestamp (conf (ss ! i)) = m_timestamp (conf (ws ! i))" "m_version (ss ! i) = m_version (ws ! i)"
    "m_timestamp (conf (ss ! nxt i)) = m_timestamp (conf (ws ! nxt i))" "m_version (ss ! nxt i) = m_version (ws ! nxt i)"
    using fi fk nack_frame_sel(5) [OF fi] nack_frame_sel(5) [OF fk] unfolding nack_frame_def by blast+
  have txi: "in_tx c (ss ! i)"
    using tx i(1) fi by (blast intro: in_tx_nack_frame)
  have cyc: "m_possible_cycle (conf (ss ! i))" "m_sentNackAddr (conf (ss ! i)) = xs ! i"
    using sent_to_older [OF _ si pol _ _ vers(1) i(2) [OF j(1,2)]] tx i(1) by blast+
  show ?thesis
  proof (intro exI [of _ i] conjI allI i(1))
    fix b t p sw
    show "\<exists>w'. notifyReceiveNack c b (m_timestamp (conf (ss ! nxt i))) t p sw (mach_of (ss ! nxt i)) (ss ! i) = Inr w'
        \<and> isAborting w'"
    proof (rule nacked_by_older_aborts [OF txi cyc(1) _ _ pol])
      show "m_sentNackAddr (conf (ss ! i)) = line c (xs ! i)" "line c (xs ! i) \<noteq> 0"
        using cyc(2) tx i(1) by metis+
      show "m_version (ss ! nxt i) \<noteq> m_version (ss ! i)" "age (ss ! nxt i) < age (ss ! i)"
          "0 < m_timestamp (conf (ss ! nxt i))"
        using ages vers i(2) [OF k] tx k(1) by (simp_all add: age_def)
    qed
  qed
qed

theorem stall_cycle_broken_witness:
  "\<exists>i<2. \<exists>w'. notifyReceiveNack (logtm_params requester_stalls_cda_base) 0x1200 (if i = 0 then 5 else 3)
       TransactionBit_Trans 0 False \<lparr>mach_type = L1Cache, mach_num = 1 - i\<rparr>
       (if i = 0 then holding (logtm_params requester_stalls_cda_base) 0 3 0x1200
        else (holding (logtm_params requester_stalls_cda_base) 1 5 0x1240)
               \<lparr>conf := setPossibleCycle ((conf (holding (logtm_params requester_stalls_cda_base) 1 5 0x1240))
                  \<lparr>m_sentNack := True, m_sentNackAddr := 0x1240\<rparr>)\<rparr>) = Inr w' \<and> isAborting w'"
proof -
  let ?c = "logtm_params requester_stalls_cda_base"
  let ?w0 = "holding ?c 0 3 0x1200" and ?w1 = "holding ?c 1 5 0x1240"
  let ?s1 = "?w1\<lparr>conf := setPossibleCycle ((conf ?w1)\<lparr>m_sentNack := True, m_sentNackAddr := 0x1240\<rparr>)\<rparr>"
  have tx: "in_tx ?c ?w0" "in_tx ?c ?w1"
    by (simp_all add: example_in_tx example_policies example_lines)
  have s1: "notifySendNack ?c 0x1240 3 (mach_of ?w0) 0 False ?w1 = Inr ?s1"
    using notifySendNack_base [OF tx(2), of "0x1240" ?w0 0 False]
    by (simp add: example_policies example_lines age_def)
  have s0: "notifySendNack ?c 0x1200 5 (mach_of ?w1) 0 False ?w0 = Inr ?w0"
    using notifySendNack_base [OF tx(1), of "0x1200" ?w1 0 False]
    by (simp add: example_policies example_lines age_def)
  have two: "(\<forall>i<length [?w0, ?w1]. P i) \<longleftrightarrow> P 0 \<and> P 1" "(\<exists>i<length [?w0, ?w1]. P i) \<longleftrightarrow> P 0 \<or> P 1" for P
    by (auto simp: less_Suc_eq)
  have "\<exists>i<length [?w0, ?w1]. \<forall>b t p sw. \<exists>w'.
           notifyReceiveNack ?c b (m_timestamp (conf ([?w0, ?s1] ! ((i + 1) mod length [?w0, ?w1])))) t p sw
             (mach_of ([?w0, ?s1] ! ((i + 1) mod length [?w0, ?w1]))) ([?w0, ?s1] ! i) = Inr w' \<and> isAborting w'"
  proof (rule stall_cycle_broken [of "[?w0, ?w1]" ?c "[0x1200, 0x1240]" 0 False "[?w0, ?s1]"])
    show "\<forall>i<length [?w0, ?w1]. in_tx ?c ([?w0, ?w1] ! i) \<and> 0 < m_timestamp (conf ([?w0, ?w1] ! i))
        \<and> [0x1200, 0x1240] ! i \<noteq> (0 :: addr) \<and> [0x1200, 0x1240] ! i = line ?c ([0x1200, 0x1240] ! i)
        \<and> [0x1200, 0x1240] ! i \<in> reads (iso ([?w0, ?w1] ! i)) \<union> writes (iso ([?w0, ?w1] ! i))"
      unfolding two using tx by (simp add: example_lines)
    show "\<forall>i<length [?w0, ?w1]. notifySendNack ?c ([0x1200, 0x1240] ! ((i + 1) mod length [?w0, ?w1]))
        (m_timestamp (conf ([?w0, ?w1] ! i))) (mach_of ([?w0, ?w1] ! i)) 0 False
        ([?w0, ?w1] ! ((i + 1) mod length [?w0, ?w1])) = Inr ([?w0, ?s1] ! ((i + 1) mod length [?w0, ?w1]))"
      unfolding two using s0 s1 by simp
  qed (simp_all add: example_policies)
  then show ?thesis
    unfolding two
    by (elim disjE; intro exI [of _ "0 :: nat"] exI [of _ "1 :: nat"])
      (simp_all add: mach_of_def setPossibleCycle_def)
qed

section \<open>Where the answers fall short\<close>

text \<open>
  C32. The hybrid policy grants a conflicting store. Under \<^verbatim>\<open>requester_stalls_cda_hybrid\<close> a
  transactional store from an older processor to a line that the local transaction has only read
  is granted (\<^verbatim>\<open>shouldNackStore\<close> line 557), although the common decision has already recorded a nack
  and nothing marks the local transaction for abort: both continue with the conflict unresolved.
\<close>

theorem hybrid_grants_conflict:
  assumes tx: "in_tx c w" "\<not> m_abortFlag w" and rem: "remote_ok c a (mach_of v) (m_timestamp (conf v)) sw w"
    and pol: "conflict_resolution c = requester_stalls_cda_hybrid" and t: "isTransactionalRequest t"
    and a: "a \<in> reads (iso w)" "a \<notin> writes (iso w)" and older: "age v < age w"
  shows "\<exists>w'. shouldNackStore c a (mach_of v) (m_timestamp (conf v)) t p sw w = Inr (False, w')
           \<and> \<not> m_abortFlag w' \<and> a \<in> reads (iso w')"
proof -
  have st: "getResolutionPolicy c = RequesterStalls" "conflict_resolution c \<noteq> requester_stalls_pic_base"
    using pol named_policies(5) by (simp_all add: policy_string_defs)
  have al: "a = line c a" and ver: "m_version v \<noteq> m_version w" and ts: "0 < m_timestamp (conf v)"
    using rem by (simp_all add: remote_ok_def mach_of_def)
  define w' where "w' = w\<lparr>conf := setPossibleCycle ((conf w)\<lparr>m_sentNack := True, m_sentNackAddr := a\<rparr>)\<rparr>"
  have ok: "policy_ok c w" "sets_ok c w" "0 < m_transactionLevel w" "m_policy (conf w) = conflict_resolution c"
      "isDoomed c w = Inr False" "\<not> isAborting w" "\<not> isUnrollingLog c w"
    using tx by (simp_all add: in_tx_def xact_ok_def policy_ok_def isDoomed_def isAborting_def)
  have sig: "checkWriteSignature c w a = Inr False" "checkReadSignature c w a = Inr True"
    using sets_ok_signatures [OF ok(2,3), of a] al a by simp_all
  have "notifySendNack c a (m_timestamp (conf v)) (mach_of v) p sw w = Inr w'"
    using notifySendNack_base [OF tx(1) st al _ ver] a older by (simp add: w'_def)
  then have "shouldNackRemoteRequest c a (mach_of v) (m_timestamp (conf v)) t p sw w = Inr (True, w')"
    using ok st t al by (simp add: shouldNackRemoteRequest_def nack_decision_def policy_ok_simps [OF ok(1)])
  moreover have "policy_ok c w'" "m_policy (conf w') = conflict_resolution c" "m_transactionLevel w' = m_transactionLevel w"
      "isRemoteOlder w' (m_timestamp (conf w')) (m_timestamp (conf v)) (mach_of v) = Inr True"
    using ok(1,4) isRemoteOlder_age [of v w'] ver older
    by (simp_all add: w'_def policy_ok_def setPossibleCycle_def isPowerTMPolicy_def age_def)
  ultimately have "shouldNackStore c a (mach_of v) (m_timestamp (conf v)) t p sw w = Inr (False, w')"
    using sig al ts t st pol ok(3)
    by (simp add: shouldNackStore_def cm_shouldNackStore_def store_stalls_def policy_ok_simps getTimestamp_def
        mach_of_def machineIDToMachineType_def)
  then show ?thesis
    using tx(2) a(1) by (simp add: w'_def)
qed

theorem hybrid_grants_conflict_witness:
  "\<exists>w'. shouldNackStore (logtm_params requester_stalls_cda_hybrid) 0x1200
       (mach_of (holding (logtm_params requester_stalls_cda_hybrid) 0 3 0x1240)) 3 TransactionBit_Trans 0 False
       (reading (logtm_params requester_stalls_cda_hybrid) 1 5 0x1200) = Inr (False, w') \<and> \<not> m_abortFlag w'"
proof -
  let ?c = "logtm_params requester_stalls_cda_hybrid"
  have "remote_ok ?c 0x1200 (mach_of (holding ?c 0 3 0x1240)) 3 False (reading ?c 1 5 0x1200)"
    by (simp add: remote_ok_def mach_of_def example_lines)
  then show ?thesis
    using hybrid_grants_conflict [of ?c "reading ?c 1 5 0x1200" "0x1200" "holding ?c 0 3 0x1240" False TransactionBit_Trans 0]
    by (auto simp: example_in_tx example_policies example_lines isTransactionalRequest_def age_def)
qed

text \<open>
  C33. A doomed LogTM transaction lets its uncommitted data be read. With eager versioning memory
  holds the new values until the log is unrolled, and the code says that requests are nacked until
  then; yet once the abort flag is set, and also while the log is being unrolled, a remote load of
  a line of the write set is granted and nothing is recorded.
\<close>

theorem doomed_logtm_load_granted:
  assumes log: "\<not> lazy_vm c" and sets: "sets_ok c w" and level: "0 < m_transactionLevel w"
    and a: "a = line c a" "a \<in> writes (iso w)" and rem: "mach_type i = L1Cache" "0 < ts"
    and doomed: "m_abortFlag w \<noteq> m_unrollingLogFlag w"
  shows "shouldNackLoad c a i ts t p sw w = Inr (False, w)"
proof -
  have "checkWriteSignature c w a = Inr True"
    using sets_ok_signatures(2) [OF sets level, of a] a by simp
  moreover have "isAborting w \<or> isDoomed c w = Inr True"
    using log doomed by (auto simp: isDoomed_def isUnrollingLog_def)
  ultimately show ?thesis
    using a rem
    by (auto simp: shouldNackLoad_def cm_shouldNackLoad_def shouldNackRemoteRequest_def machineIDToMachineType_def)
qed

theorem doomed_logtm_load_granted_witness:
  "shouldNackLoad (logtm_params requester_stalls_cda_base) 0x1200 \<lparr>mach_type = L1Cache, mach_num = 0\<rparr> 3
     TransactionBit_Trans 0 False
     ((holding (logtm_params requester_stalls_cda_base) 1 5 0x1200)\<lparr>m_unrollingLogFlag := True, m_escapeLevel := 1\<rparr>)
   = Inr (False, (holding (logtm_params requester_stalls_cda_base) 1 5 0x1200)
                   \<lparr>m_unrollingLogFlag := True, m_escapeLevel := 1\<rparr>)"
proof -
  let ?c = "logtm_params requester_stalls_cda_base"
  have "in_tx ?c (holding ?c 1 5 0x1200)"
    by (simp add: example_in_tx example_policies example_lines)
  then have "sets_ok ?c ((holding ?c 1 5 0x1200)\<lparr>m_unrollingLogFlag := True, m_escapeLevel := 1\<rparr>)"
    by (simp add: in_tx_def xact_ok_def sets_ok_def)
  then show ?thesis
    by (intro doomed_logtm_load_granted) (simp_all add: example_lines, simp add: holding_def)
qed

text \<open>
  The constructor looks for \<^verbatim>\<open>"_cda"\<close> and \<^verbatim>\<open>"_ntx"\<close> at the start of the policy string, where no stalling
  policy has them, so the policies with suffix \<^verbatim>\<open>_ntx\<close> never nack non-transactional requests.
\<close>

lemma str_find_0: "pat \<noteq> [] \<Longrightarrow> str_find pat s = Some 0 \<longleftrightarrow> starts_with pat s"
  by (cases s) (auto simp: starts_with_def)

lemma ntx_policy_ignored:
  assumes "conflict_init c a = Inr s"
  shows "\<not> m_policy_nack_non_transactional s"
proof (cases "str_find ''_cda'' (conflict_resolution c) = Some 0")
  case True
  then have "getResolutionPolicy c \<noteq> RequesterStalls"
    by (cases "conflict_resolution c") (auto simp: str_find_0 starts_with_def getResolutionPolicy_def Let_def)
  with True assms show ?thesis
    by (auto simp: conflict_init_def Let_def res_simps)
next
  case False
  with assms show ?thesis
    by (auto simp: conflict_init_def Let_def res_simps)
qed

text \<open>
  The swapped arguments of \<^verbatim>\<open>setAbortFlag\<close> (lines 629 and 663): a nack with a non-zero hardware
  priority is recorded as a conflict with a power transaction although there is none.
\<close>

lemma nack_cause_swapped:
  assumes "nack_base c lts ts t p False i w = Inr (w', False)" and "m_abortFlag w'" and "\<not> m_abortFlag w"
    and "p \<noteq> 0"
  shows "m_abortCause w' = ConflictPower"
proof -
  obtain w1 where "abort_set_cause i t True no_why w1 = Inr w'"
    using assms
    by (auto simp: nack_base_def setAbortFlag_def abort_raise_def res_simps Let_def
        dest: abort_release_checker_frame split: if_splits)
  then show ?thesis
    by (simp add: abort_set_cause_def no_why_def) (auto simp: no_why_def)
qed

end
