(* ===== verification/Forwarding.thy ===== *)
theory Forwarding
  imports Conflict_Manager
begin

text \<open>
  Value forwarding between transactions (CHATS) in \<^verbatim>\<open>TransactionInterfaceManager.cc\<close>: when a
  transaction hands speculative data to the one it nacks (producer side), how the receiver buffers
  it (consumer side), and how the receiver later validates what it consumed.
\<close>

section \<open>Producer side\<close>

text \<open>\<^verbatim>\<open>FwdInfo::modified\<close> has no initial value: it is an argument of the operations that build one.\<close>

definition fwd_refused ::
    "htm_params \<Rightarrow> addr \<Rightarrow> TransactionBit \<Rightarrow> int \<Rightarrow> bool \<Rightarrow> MachineID \<Rightarrow> abort_why \<Rightarrow> nat \<Rightarrow> xact \<Rightarrow> (bool \<times> xact) res" where
  "fwd_refused c addr remote_trans remote_priority remote_sw_priority consumer why panic_line w =
     rbind (isReqLosesPolicy (conf w)) (\<lambda>loses.
     rbind (if loses then Inr True else isRequesterStallsPolicy (conf w)) (\<lambda>keeps.
       if keeps then Inr (False, w)
       else rbind (isReqWinsPolicy (conf w)) (\<lambda>wins.
         if wins then rbind (setAbortFlag c addr consumer remote_trans remote_priority remote_sw_priority why w)
                        (\<lambda>w1. Inr (False, w1))
         else Inl (PanicAt TIM_cc panic_line))))"

definition fwd_mechanism_allows :: "htm_params \<Rightarrow> MachineID \<Rightarrow> xact \<Rightarrow> bool res" where
  "fwd_mechanism_allows c consumer w =
     (case fwdMechanism w of
        naive \<Rightarrow> Inl (PanicAt TIM_cc 347)
      | simple \<Rightarrow> asrt TIM_cc 354 (prioMechanism w = no_prio)
                    (if \<not> isConsumer w then Inr True else Inl (AssertFail TIM_cc 361))
      | W1_D1 \<Rightarrow> asrt TIM_cc 368 (\<not> isConsumer w)
                    (rbind (isProducer c w) (\<lambda>p. Inr (\<not> p \<or> mset_find (m_hasSentDataToConsumer w) consumer)))
      | WN_D1 \<Rightarrow> asrt TIM_cc 378 (\<not> isConsumer w) (Inr True)
      | W1_DN \<Rightarrow> rbind (isProducer c w) (\<lambda>p. Inr (\<not> p \<or> mset_find (m_hasSentDataToConsumer w) consumer))
      | WN_DM \<Rightarrow> Inr True
      | WX_DX \<Rightarrow> Inr (length (m_hasSentDataToConsumer w) < max_consumers c
                     \<or> mset_find (m_hasSentDataToConsumer w) consumer)
      | no_fwd \<Rightarrow> Inl (PanicAt TIM_cc 412))"

definition fwd_priority_allows :: "htm_params \<Rightarrow> int \<Rightarrow> bool \<Rightarrow> MachineID \<Rightarrow> xact \<Rightarrow> bool res" where
  "fwd_priority_allows c remote_priority remote_sw_priority consumer w =
     rbind (getSwTransactionPriority w) (\<lambda>isSwPrio.
       asrt TIM_cc 309 (\<not> remote_sw_priority)
        (if isSwPrio \<or> fwdMechanism w = naive then Inr True
         else if cint (getTransactionPriority w - 1) = NC_PRIO_VALUE then Inr False
         else if isConsumer w \<and> \<not> remote_priority < getTransactionPriority w then Inr False
         else fwd_mechanism_allows c consumer w))"

definition shouldBecomeProducer ::
    "htm_params \<Rightarrow> addr \<Rightarrow> TransactionBit \<Rightarrow> int \<Rightarrow> bool \<Rightarrow> MachineID \<Rightarrow> bool \<Rightarrow> xact \<Rightarrow> (bool \<times> xact) res" where
  "shouldBecomeProducer c addr remote_trans remote_priority remote_sw_priority consumer writeInFlight w =
     rbind (getSwTransactionPriority w) (\<lambda>_.
     asrt TIM_cc 232 (config_allowEarlyValueFwd w)
     (asrt TIM_cc 233 (inTransaction w)
     (asrt TIM_cc 234 (remote_trans = TransactionBit_Trans)
     (asrt TIM_cc 235 (\<not> isAborting w)
       (if no_produce_on_retry c \<and> isRetryingTx w then Inr (False, w)
        else rbind (if getAllowedDataFwd c = only_written
                    then rbind (checkWriteSignature c w addr) (\<lambda>written.
                           if written then Inr False else rbind (isPowered (conf w)) (\<lambda>p. Inr (\<not> p)))
                    else Inr False) (\<lambda>unwritten.
          if unwritten
          then fwd_refused c addr remote_trans remote_priority remote_sw_priority consumer
                 (no_why\<lparr>why_specReadConflict := True\<rparr>) 269 w
          else rbind (if getAllowedDataFwd c = no_write_in_flight \<and> writeInFlight
                      then rbind (isPowered (conf w)) (\<lambda>p. Inr (\<not> p)) else Inr False) (\<lambda>inflight.
            if inflight
            then fwd_refused c addr remote_trans remote_priority remote_sw_priority consumer
                   (no_why\<lparr>why_specWriteInFlight := True\<rparr>) 304 w
            else rbind (fwd_priority_allows c remote_priority remote_sw_priority consumer w) (\<lambda>b. Inr (b, w)))))))))"

definition shouldForwardDataToConsumer ::
    "htm_params \<Rightarrow> addr \<Rightarrow> MachineID \<Rightarrow> TransactionBit \<Rightarrow> int \<Rightarrow> bool \<Rightarrow> bool \<Rightarrow> xact \<Rightarrow> (bool \<times> xact) res" where
  "shouldForwardDataToConsumer c addr consumer remote_trans remote_priority remote_sw_prio writeInFlight w =
     (if config_allowEarlyValueFwd w \<and> \<not> m_abortFlag w
      then rbind (canProduce c w) (\<lambda>can.
             if can then shouldBecomeProducer c addr remote_trans remote_priority remote_sw_prio consumer writeInFlight w
             else Inr (False, w))
      else Inr (False, w))"

definition addBlockToNackReg :: "htm_params \<Rightarrow> addr \<Rightarrow> xact \<Rightarrow> xact res" where
  "addBlockToNackReg c addr w =
     rbind (isPowered (conf w)) (\<lambda>power.
       if \<not> power then Inr w
       else rbind (tryCacheAccess c addr ST (dcache w)) (\<lambda>hit.
         case hit of None \<Rightarrow> Inr w
         | Some db \<Rightarrow>
             if smap_find (m_nackedAddressesReg w) addr = None
             then Inr (w\<lparr>m_nackedAddressesReg := smap_insert addr db (m_nackedAddressesReg w)\<rparr>) else Inr w))"

definition record_consumer :: "bool \<Rightarrow> MachineID \<Rightarrow> ProducerInfo \<Rightarrow> ProducerInfo res" where
  "record_consumer uninit consumer pinfo =
     (let i1 = pinfo\<lparr>pi_consumers := mset_insert consumer (pi_consumers pinfo)\<rparr>; fs = forwardings i1 in
      if fs = [] then Inl (UndefinedAt TIM_cc 561)
      else Inr (i1\<lparr>forwardings :=
        (if fi_modified (last fs) then fs @ [\<lparr>fi_consumers = [consumer], fi_modified = uninit\<rparr>]
         else butlast fs @ [(last fs)\<lparr>fi_consumers := mset_insert consumer (fi_consumers (last fs))\<rparr>])\<rparr>))"

definition record_sent :: "bool \<Rightarrow> addr \<Rightarrow> MachineID \<Rightarrow> DataBlock \<Rightarrow> xact \<Rightarrow> xact res" where
  "record_sent uninit addr consumer db w =
     rbind (if smap_find (m_sentDataForwardedToConsumer w) addr \<noteq> None then
              (case smap_find (m_allSentData w) addr of
                 None \<Rightarrow> Inl (AssertFail TIM_cc 559)
               | Some pinfo \<Rightarrow> rbind (record_consumer uninit consumer pinfo) (\<lambda>i.
                   Inr (smap_assign addr i (m_allSentData w))))
            else Inr (smap_insert addr
                   \<lparr>pi_consumers = [consumer], tickProduced = curTick w, timesModifiedAfterSharing = 0,
                    forwardings = [\<lparr>fi_consumers = [consumer], fi_modified = uninit\<rparr>]\<rparr> (m_allSentData w))) (\<lambda>sent.
       Inr (w\<lparr>m_allSentData := sent,
              m_sentDataForwardedToConsumer := smap_insert addr db (m_sentDataForwardedToConsumer w)\<rparr>))"

definition addConsumer :: "htm_params \<Rightarrow> bool \<Rightarrow> addr \<Rightarrow> MachineID \<Rightarrow> int \<Rightarrow> bool \<Rightarrow> xact \<Rightarrow> xact res" where
  "addConsumer c uninit addr consumer remote_priority remote_sw_priority w =
     rbind (isProducer c w) (\<lambda>p.
     rbind (if p then Inr False else hasConsumedData w) (\<lambda>turned.
     let w1 = w\<lparr>m_consumerTurnedProducer := (if turned then True else m_consumerTurnedProducer w),
                m_hasSentDataToConsumer := mset_insert consumer (m_hasSentDataToConsumer w)\<rparr> in
     rbind (switchHwPrio c remote_priority remote_sw_priority False w1) (\<lambda>w2.
     rbind (if m_abortFlag w2 then Inr False else canProduce c w2) (\<lambda>can.
     asrt TIM_cc 528 can
       (rbind (tryCacheAccess c addr ST (dcache w2)) (\<lambda>hit.
        rbind (case hit of None \<Rightarrow> tryCacheAccess c addr LD (dcache w2) | Some d \<Rightarrow> Inr (Some d)) (\<lambda>hit2.
          case hit2 of
            None \<Rightarrow> Inl (AssertFail TIM_cc 554)
          | Some db \<Rightarrow> rbind (record_sent uninit addr consumer db w2) (\<lambda>w3.
              rbind (hasConsumedData w3) (\<lambda>_. Inr w3)))))))))"

definition setAccessOnProducedBlock :: "addr \<Rightarrow> bool \<Rightarrow> xact \<Rightarrow> xact res" where
  "setAccessOnProducedBlock addr write w =
     (case smap_find (m_allSentData w) addr of
        None \<Rightarrow> Inl (AssertFail TIM_cc 817)
      | Some pinfo \<Rightarrow>
          if write then
            (if forwardings pinfo = [] then Inl (UndefinedAt TIM_cc 820)
             else Inr (w\<lparr>m_allSentData := smap_assign addr
                    (pinfo\<lparr>timesModifiedAfterSharing := timesModifiedAfterSharing pinfo + 1,
                          forwardings := butlast (forwardings pinfo)
                            @ [(last (forwardings pinfo))\<lparr>fi_modified := True\<rparr>]\<rparr>) (m_allSentData w)\<rparr>))
          else Inr w)"

section \<open>Consumer side\<close>

datatype ActionOnIllegalWriteData = ActionRetry | ActionAbort | ActionDiscard

definition getActionOnIllegalData :: "htm_params \<Rightarrow> xact \<Rightarrow> ActionOnIllegalWriteData \<times> xact" where
  "getActionOnIllegalData c w =
     (if m_discardFwdData w then (ActionAbort, w\<lparr>m_discardFwdData := False\<rparr>)
      else (case getFwdCycleSolveStrategy c of
              cycle_retry \<Rightarrow> (ActionRetry, w)
            | cycle_abort \<Rightarrow> (ActionAbort, w)
            | no_strategy \<Rightarrow> (ActionAbort, w)))"

definition shouldAcceptForwardedDataFromProducer :: "htm_params \<Rightarrow> xact \<Rightarrow> bool res" where
  "shouldAcceptForwardedDataFromProducer c w =
     (case fwdMechanism w of
        simple \<Rightarrow> asrt TIM_cc 938 (prioMechanism w = no_prio) (rbind (isProducer c w) (\<lambda>p. Inr (\<not> p)))
      | W1_D1 \<Rightarrow> rbind (isProducer c w) (\<lambda>p. Inr (\<not> p))
      | WN_D1 \<Rightarrow> rbind (isProducer c w) (\<lambda>p. Inr (\<not> p))
      | WX_DX \<Rightarrow> (if max_prio_diff c = 1 then rbind (isProducer c w) (\<lambda>p. Inr (\<not> p)) else Inr True)
      | W1_DN \<Rightarrow> Inr True
      | WN_DM \<Rightarrow> Inr True
      | naive \<Rightarrow> Inr True
      | no_fwd \<Rightarrow> Inl (PanicAt TIM_cc 951))"

definition shouldReloadIfStale :: "htm_params \<Rightarrow> xact \<Rightarrow> bool" where
  "shouldReloadIfStale c w \<longleftrightarrow>
     (if inTransaction w \<and> getTransactionPriority w > NC_PRIO_VALUE then True else reload_if_stale c)"

definition setAccessOnForwardBlock :: "addr \<Rightarrow> nat \<Rightarrow> nat \<Rightarrow> bool \<Rightarrow> xact \<Rightarrow> xact res" where
  "setAccessOnForwardBlock addr offset len write w =
     (case (smap_find (m_recvDataForwardedFromProducer w) addr, smap_find (m_allReceivedData w) addr) of
        (Some f, Some i) \<Rightarrow>
          rbind (setMask offset len True (fwd_mask f)) (\<lambda>m.
          rbind (setMask offset len True (accessMask i)) (\<lambda>am.
            if write then
              rbind (setMask offset len True (wMask i)) (\<lambda>wm.
                Inr (w\<lparr>m_recvDataForwardedFromProducer :=
                         smap_assign addr (f\<lparr>fwd_mask := m, fwd_modified := True\<rparr>) (m_recvDataForwardedFromProducer w),
                       m_allReceivedData :=
                         smap_assign addr (i\<lparr>accessMask := am, locallyModified := True, wMask := wm\<rparr>) (m_allReceivedData w)\<rparr>))
            else
              Inr (w\<lparr>m_recvDataForwardedFromProducer :=
                       smap_assign addr (f\<lparr>fwd_mask := m\<rparr>) (m_recvDataForwardedFromProducer w),
                     m_allReceivedData := smap_assign addr (i\<lparr>accessMask := am\<rparr>) (m_allReceivedData w)\<rparr>)))
      | _ \<Rightarrow> Inl (AssertFail TIM_cc 788))"

text \<open>The event is scheduled a number of cycles ahead; it carries the line to validate.\<close>

definition scheduleValidationOfConsumedData :: "htm_params \<Rightarrow> addr \<Rightarrow> bool \<Rightarrow> xact \<Rightarrow> xact res" where
  "scheduleValidationOfConsumedData c addr retry w =
     asrt TIM_cc 1026 (validationEvent w = None)
     (asrt TIM_cc 1029 (smap_find (m_recvDataForwardedFromProducer w) addr \<noteq> None)
     (asrt TIM_cc 1030 (smap_find (m_allReceivedData w) addr \<noteq> None)
     (asrt TIM_cc 1031 (\<not> isAborting w)
       (Inr (w\<lparr>validationEvent := Some (addr,
          if retry \<or> m_atCommit w \<or> m_hasValidatedAnyData w then 1 else nat (cycles_to_validate c))\<rparr>)))))"

definition insert_consumed :: "htm_params \<Rightarrow> addr \<Rightarrow> DataBlock \<Rightarrow> MachineID \<Rightarrow> xact \<Rightarrow> xact" where
  "insert_consumed c addr db producer w =
     (let m0 = WriteMask_block (getBlockSizeBytes (block_size_bits c)) in
      w\<lparr>m_allReceivedData := smap_insert addr
           \<lparr>producers = [producer], ci_data = db, tickConsumed = curTick w, tickValidated = 0, wMask = m0,
            accessMask = m0, timesVal = 0, locallyModified = False\<rparr> (m_allReceivedData w),
         m_recvDataForwardedFromProducer := smap_insert addr
           \<lparr>fwd_data = db, fwd_modified = False, fwd_mask = m0, nVal = 0\<rparr> (m_recvDataForwardedFromProducer w)\<rparr>)"

definition consume_block :: "htm_params \<Rightarrow> addr \<Rightarrow> DataBlock \<Rightarrow> MachineID \<Rightarrow> xact \<Rightarrow> xact res" where
  "consume_block c addr db producer w =
     (if \<not> isConsumer w then
        rbind (hasConsumedData w) (\<lambda>before.
        rbind (if \<not> before then asrt TIM_cc 671 (smap_find (m_allReceivedData w) addr = None) (Inr w)
               else Inr (w\<lparr>m_reconsumer := True\<rparr>)) (\<lambda>w1.
          let w2 = (insert_consumed c addr db producer w1)
                     \<lparr>m_consumerLowPrio := True, m_hasReceivedDataFromProducer := producer\<rparr> in
          asrt TIM_cc 694 (validationEvent w2 = None)
            (if \<not> isAborting w2 then scheduleValidationOfConsumedData c addr False w2 else Inr w2)))
      else Inr (insert_consumed c addr db producer w))"

definition consumed_overflow :: "htm_params \<Rightarrow> addr \<Rightarrow> MachineID \<Rightarrow> int \<Rightarrow> bool \<Rightarrow> xact \<Rightarrow> xact res" where
  "consumed_overflow c addr producer remote_priority remote_sw_priority w =
     rbind (if length (m_recvDataForwardedFromProducer w) > max_consumed_blocks c
            then setAbortFlag c addr producer TransactionBit_Trans remote_priority remote_sw_priority
                   (no_why\<lparr>why_specMaxCapacityOverflow := True\<rparr>) w
            else Inr w) (\<lambda>w1.
       if fwdMechanism w1 = WX_DX
          \<and> cint \<bar>cint (INITIAL_PRIO_VALUE - m_hwTransPrio w1)\<bar> > max_prio_diff c
       then setAbortFlag c addr producer TransactionBit_Trans remote_priority remote_sw_priority
              (no_why\<lparr>why_specDepthOverflow := True\<rparr>) w1
       else Inr w1)"

definition notifyForwardedDataFromProducer ::
    "htm_params \<Rightarrow> addr \<Rightarrow> DataBlock \<Rightarrow> MachineID \<Rightarrow> nat \<Rightarrow> int \<Rightarrow> bool \<Rightarrow> xact \<Rightarrow> xact res" where
  "notifyForwardedDataFromProducer c addr db producer remote_timestamp remote_priority remote_sw_priority w =
     rbind (hasConsumedData w) (\<lambda>consumed.
     rbind (if consumed then Inr w
            else rbind (isProducer c w) (\<lambda>p.
              if p then asrt TIM_cc 609 (\<not> m_producerTurnedConsumer w \<and> \<not> m_consumerTurnedProducer w)
                          (Inr (w\<lparr>m_producerTurnedConsumer := True\<rparr>))
              else Inr w)) (\<lambda>w1.
     asrt TIM_cc 614 (addr = line c addr)
     (asrt TIM_cc 615 (\<not> isBlockConsumed c w1 addr)
       (rbind (getPacketFromRequestTable c addr w1) (\<lambda>uid.
          if \<not> inTransaction w1 \<or> uid < tim_currentHtmUid w1 then Inl (AssertFail TIM_cc 622)
          else rbind (isRequesterStallsPolicy (conf w1)) (\<lambda>stalls.
               rbind (if stalls
                      then notifyReceiveNack c addr remote_timestamp TransactionBit_Trans remote_priority
                             remote_sw_priority producer w1
                      else switchHwPrio c remote_priority remote_sw_priority True w1) (\<lambda>w2.
               rbind (consume_block c addr db producer w2)
                 (consumed_overflow c addr producer remote_priority remote_sw_priority))))))))"

section \<open>Validation\<close>

abbreviation block_bytes :: "htm_params \<Rightarrow> nat" where
  "block_bytes c \<equiv> getBlockSizeBytes (block_size_bits c)"

text \<open>The comparison: the verdict, the buffered copy and the cache block afterwards.\<close>

definition validation_compare ::
    "htm_params \<Rightarrow> bool \<Rightarrow> DataForwarded \<Rightarrow> DataBlock \<Rightarrow> DataBlock \<Rightarrow> (bool \<times> DataBlock \<times> DataBlock) res" where
  "validation_compare c dirty f cacheData validatedData =
     (let n = block_bytes c; consumedData = fwd_data f in
      if remove_false_sharing_forward c then
        rbind (comparePartial n consumedData validatedData (fwd_mask f)) (\<lambda>check.
          if \<not> db_equal n consumedData validatedData then
            (if dirty
             then rbind (copyPartial n cacheData (fwd_mask f) (db_assign n cacheData validatedData)) (\<lambda>cd.
                    Inr (check, db_assign n consumedData validatedData, cd))
             else Inr (check, db_assign n consumedData validatedData, db_assign n cacheData validatedData))
          else Inr (check, consumedData, cacheData))
      else if dirty then Inr (db_equal n consumedData validatedData, consumedData, cacheData)
      else Inr (db_equal n cacheData validatedData, consumedData, cacheData))"

definition validation_verdict :: "htm_params \<Rightarrow> bool \<Rightarrow> nat \<Rightarrow> xact \<Rightarrow> bool" where
  "validation_verdict c check n w \<longleftrightarrow>
     (if fwdMechanism w = naive then check \<and> int n \<le> n_val_fwd c mod 4294967296 else check)"

definition schedule_next :: "htm_params \<Rightarrow> addr \<Rightarrow> xact \<Rightarrow> xact res" where
  "schedule_next c addr w =
     (case smap_next (m_recvDataForwardedFromProducer w) addr of
        Some a \<Rightarrow> scheduleValidationOfConsumedData c a False w
      | None \<Rightarrow> (case m_recvDataForwardedFromProducer w of
                   [] \<Rightarrow> Inl (UndefinedAt TIM_cc 1177)
                 | e # _ \<Rightarrow> scheduleValidationOfConsumedData c (fst e) False w))"

text \<open>
  Data with permissions removes the block from the buffer. The code then advances the iterator of
  the erased entry when other blocks are left, which is undefined.
\<close>

definition validated_with_data :: "htm_params \<Rightarrow> addr \<Rightarrow> ConsumerInfo \<Rightarrow> xact \<Rightarrow> xact res" where
  "validated_with_data c addr cinfo w =
     asrt TIM_cc 1135 (isBlockConsumed c w addr)
       (let w1 = w\<lparr>m_recvDataForwardedFromProducer := smap_erase addr (m_recvDataForwardedFromProducer w),
                   m_allReceivedData := smap_assign addr (cinfo\<lparr>tickValidated := curTick w\<rparr>) (m_allReceivedData w),
                   m_hasValidatedAnyData := True\<rparr> in
        if \<not> isConsumer w1 \<and> \<not> isAborting w1
        then Inr (w1\<lparr>m_hasConsumedValidData := True, m_consumerLowPrio := False\<rparr>)
        else if \<not> isAborting w1 then Inl (UndefinedAt TIM_cc 1149)
        else Inr w1)"

definition validated_with_nack :: "htm_params \<Rightarrow> addr \<Rightarrow> MachineID \<Rightarrow> nat \<Rightarrow> xact \<Rightarrow> xact res" where
  "validated_with_nack c addr source remote_timestamp w =
     rbind (isRequesterStallsPolicy (conf w)) (\<lambda>stalls.
     rbind (if stalls
            then notifyReceiveNack c addr remote_timestamp TransactionBit_Trans NC_PRIO_VALUE False source w
            else Inr w) (\<lambda>w1.
       if \<not> isAborting w1 then schedule_next c addr w1 else Inr w1))"

definition validateDataBlock ::
    "htm_params \<Rightarrow> addr \<Rightarrow> MachineID \<Rightarrow> DataBlock \<Rightarrow> DataBlock \<Rightarrow> nat \<Rightarrow> bool \<Rightarrow> bool \<Rightarrow> xact
       \<Rightarrow> (bool \<times> DataBlock \<times> xact) res" where
  "validateDataBlock c addr source cacheData validatedData remote_timestamp dirty isNack w =
     asrt TIM_cc 1054 (config_allowEarlyValueFwd w)
     (asrt TIM_cc 1055 (isConsumer w)
       (case (smap_find (m_recvDataForwardedFromProducer w) addr, smap_find (m_allReceivedData w) addr) of
          (Some f, Some i) \<Rightarrow>
            (let f1 = f\<lparr>nVal := nVal f + 1\<rparr>;
                 i1 = i\<lparr>timesVal := timesVal i + 1, producers := mset_insert source (producers i)\<rparr> in
             rbind (validation_compare c dirty f1 cacheData validatedData) (\<lambda>(check, consumed, cache).
             let verdict = validation_verdict c check (nVal f1) w;
                 w1 = w\<lparr>m_recvDataForwardedFromProducer :=
                          smap_assign addr (f1\<lparr>fwd_data := consumed\<rparr>) (m_recvDataForwardedFromProducer w),
                        m_allReceivedData := smap_assign addr i1 (m_allReceivedData w)\<rparr> in
             rbind (if verdict then Inr w1
                    else setAbortFlag c addr createInvalidMachineID TransactionBit_NonTrans NC_PRIO_VALUE False
                           (no_why\<lparr>why_validation := True\<rparr>) w1) (\<lambda>w2.
             rbind (if isNack then validated_with_nack c addr source remote_timestamp w2
                    else validated_with_data c addr i1 w2) (\<lambda>w3. Inr (verdict, cache, w3)))))
        | (None, _) \<Rightarrow> Inl (AssertFail TIM_cc 1058)
        | (Some _, None) \<Rightarrow> Inl (AssertFail TIM_cc 1059)))"

section \<open>What validation compares\<close>

definition block_ok :: "htm_params \<Rightarrow> DataForwarded \<Rightarrow> DataBlock \<Rightarrow> DataBlock \<Rightarrow> bool" where
  "block_ok c f cache valid \<longleftrightarrow>
     length (fwd_data f) = block_bytes c \<and> length cache = block_bytes c \<and> length valid = block_bytes c
     \<and> mask_ok (fwd_mask f) \<and> mSize (fwd_mask f) = block_bytes c"

definition agrees :: "htm_params \<Rightarrow> bool \<Rightarrow> DataForwarded \<Rightarrow> DataBlock \<Rightarrow> DataBlock \<Rightarrow> bool" where
  "agrees c dirty f cache valid \<longleftrightarrow>
     (if remove_false_sharing_forward c then \<forall>i \<in> mask_set (fwd_mask f). fwd_data f ! i = valid ! i
      else if dirty then fwd_data f = valid else cache = valid)"

definition refreshed :: "htm_params \<Rightarrow> bool \<Rightarrow> DataForwarded \<Rightarrow> DataBlock \<Rightarrow> DataBlock \<Rightarrow> DataBlock" where
  "refreshed c dirty f cache valid =
     (if remove_false_sharing_forward c \<and> fwd_data f \<noteq> valid
      then map (\<lambda>i. if dirty \<and> i \<in> mask_set (fwd_mask f) then cache ! i else valid ! i) [0..<block_bytes c]
      else cache)"

lemma validation_compare_eq:
  assumes "block_ok c f cache valid"
  shows "validation_compare c dirty f cache valid =
           Inr (agrees c dirty f cache valid,
                if remove_false_sharing_forward c then valid else fwd_data f, refreshed c dirty f cache valid)"
proof -
  let ?n = "block_bytes c"
  have len: "length (fwd_data f) = ?n" "length cache = ?n" "length valid = ?n"
      and m: "mask_ok (fwd_mask f)" "mSize (fwd_mask f) = ?n"
    using assms by (simp_all add: block_ok_def)
  have eq: "db_equal ?n d valid \<longleftrightarrow> d = valid" "db_assign ?n d valid = valid" if "length d = ?n" for d
    using that len by (simp_all add: db_equal_def db_assign_def)
  have cp: "copyPartial ?n cache (fwd_mask f) valid =
      Inr (map (\<lambda>i. if i \<in> mask_set (fwd_mask f) then cache ! i else valid ! i) [0..<?n])"
    using m len by (simp add: copyPartial_eq)
  have all: "map (\<lambda>i. valid ! i) [0..<?n] = valid"
    using len(3) by (metis map_nth)
  show ?thesis
    using len by (auto simp: validation_compare_def agrees_def refreshed_def eq comparePartial_eq m cp all Let_def)
qed

lemma setAbortFlag_flag: "setAbortFlag c a i t p sw why w = Inr w' \<Longrightarrow> m_abortFlag w'"
  by (rule setAbortFlag_frame)

lemma switchHwPrio_flag: "switchHwPrio c p sw r w = Inr w' \<Longrightarrow> m_abortFlag w' = m_abortFlag w"
  by (drule switchHwPrio_ex) auto

lemma isIllegalNack_shape:
  assumes "isIllegalNack c a p w = Inr (b, w')"
  shows "w' = w \<or> w' = w\<lparr>m_discardFwdData := True\<rparr>"
  using assms unfolding isIllegalNack_def rbind_eq_Inr
  by (elim exE conjE) (simp only: asrt_eq_Inr sum.inject prod.inject split: if_split_asm, blast+)

lemma isIllegalNack_flag: "isIllegalNack c a p w = Inr (b, w') \<Longrightarrow> m_abortFlag w' = m_abortFlag w"
  by (drule isIllegalNack_shape) auto

lemma nack_pic_flag:
  assumes "nack_pic c a t p sw i w = Inr w'" and "m_abortFlag w"
  shows "m_abortFlag w'"
proof -
  from assms(1) obtain b w1 w2 where "isIllegalNack c a p w = Inr (b, w1)"
      and r: "(if b then setAbortFlag c a i t (if sw then 1 else 0) (p \<noteq> 0) no_why w1 else Inr w1) = Inr w2"
      and s: "switchHwPrio c p sw True w2 = Inr w'"
    unfolding nack_pic_def by (auto simp only: rbind_eq_Inr rbind_pair_eq_Inr)
  then have "m_abortFlag w1"
    using assms(2) isIllegalNack_flag by metis
  then have "m_abortFlag w2"
    using r by (cases b) (auto dest: setAbortFlag_flag)
  then show ?thesis
    using s switchHwPrio_flag by metis
qed

lemma nack_base_flag:
  assumes "nack_base c lts ts t p sw i w = Inr (w', r)" and "m_abortFlag w"
  shows "m_abortFlag w'"
  using assms unfolding nack_base_def
  by (auto simp only: rbind_eq_Inr asrt_eq_Inr sum.inject prod.inject dest: setAbortFlag_flag split: if_split_asm)

lemma nack_stalls_flag:
  assumes "nack_stalls c a ts t p sw i b w = Inr (w', r)" and "m_abortFlag w"
  shows "m_abortFlag w'"
  using assms unfolding nack_stalls_def
  by (auto simp only: rbind_eq_Inr sum.inject prod.inject dest: nack_pic_flag nack_base_flag split: if_split_asm)

lemma notifyReceiveNack_flag:
  assumes "notifyReceiveNack c a ts t p sw i w = Inr w'" and "m_abortFlag w"
  shows "m_abortFlag w'"
proof (cases "m_transactionLevel w = 0")
  case False
  let ?w1 = "w\<lparr>conf := (conf w)\<lparr>m_receivedNack := True\<rparr>\<rparr>"
  from assms(1) False obtain w2 r where st: "nack_stalls c a ts t p sw i (isAborting ?w1) ?w1 = Inr (w2, r)"
      and rest: "(if r then Inr w2 else rbind (isReqLosesPolicy (conf w2)) (\<lambda>loses.
               rbind (if loses \<or> isPowerTMPolicy (conf w2) then setAbortFlag c a i t p False no_why w2
                      else Inr w2) (\<lambda>w3.
                 Inr (if \<not> isAborting ?w1 \<and> isAborting w3
                      then w3\<lparr>conf := (conf w3)\<lparr>m_abortedByNack := True\<rparr>\<rparr> else w3)))) = Inr w'"
    unfolding notifyReceiveNack_def Let_def if_not_P [OF False] rbind_pair_eq_Inr by blast
  from st assms(2) have "m_abortFlag w2"
    by (auto dest: nack_stalls_flag)
  then show ?thesis
    using rest by (auto simp: rbind_eq_Inr dest: setAbortFlag_flag split: if_split_asm)
qed (use assms in \<open>simp add: notifyReceiveNack_def\<close>)

lemma schedule_shape:
  "scheduleValidationOfConsumedData c a retry w = Inr w' \<Longrightarrow> \<exists>e. w' = w\<lparr>validationEvent := e\<rparr>"
  unfolding scheduleValidationOfConsumedData_def by (auto simp only: asrt_eq_Inr sum.inject)

lemma schedule_next_shape: "schedule_next c a w = Inr w' \<Longrightarrow> \<exists>e. w' = w\<lparr>validationEvent := e\<rparr>"
  unfolding schedule_next_def by (auto split: option.splits list.splits dest: schedule_shape)

lemma validated_with_data_flag:
  assumes "validated_with_data c a i w = Inr w'"
  shows "m_abortFlag w' = m_abortFlag w"
  using assms unfolding validated_with_data_def Let_def asrt_eq_Inr by (auto split: if_split_asm)

lemma validated_with_nack_flag:
  assumes "validated_with_nack c a s ts w = Inr w'" and "m_abortFlag w"
  shows "m_abortFlag w'"
proof -
  obtain st w1 where "(if st then notifyReceiveNack c a ts TransactionBit_Trans NC_PRIO_VALUE False s w
            else Inr w) = Inr w1"
      and next_step: "(if \<not> isAborting w1 then schedule_next c a w1 else Inr w1) = Inr w'"
    using assms(1) unfolding validated_with_nack_def rbind_eq_Inr by blast
  then have "m_abortFlag w1"
    using assms(2) by (cases st) (auto dest: notifyReceiveNack_flag)
  then show ?thesis
    using next_step by (auto split: if_split_asm dest: schedule_next_shape)
qed

text \<open>A run of the validation, step by step.\<close>

lemma validateDataBlock_steps:
  assumes sizes: "block_ok c f cache valid" and f: "smap_find (m_recvDataForwardedFromProducer w) addr = Some f"
    and i: "smap_find (m_allReceivedData w) addr = Some i"
    and en: "config_allowEarlyValueFwd w" "isConsumer w"
  shows "validateDataBlock c addr src cache valid ts dirty isNack w =
     (let verdict = validation_verdict c (agrees c dirty f cache valid) (nVal f + 1) w;
          i1 = i\<lparr>timesVal := timesVal i + 1, producers := mset_insert src (producers i)\<rparr>;
          w1 = w\<lparr>m_recvDataForwardedFromProducer := smap_assign addr
                    (f\<lparr>nVal := nVal f + 1, fwd_data := if remove_false_sharing_forward c then valid else fwd_data f\<rparr>)
                    (m_recvDataForwardedFromProducer w),
                 m_allReceivedData := smap_assign addr i1 (m_allReceivedData w)\<rparr>
      in rbind (if verdict then Inr w1
                else setAbortFlag c addr createInvalidMachineID TransactionBit_NonTrans NC_PRIO_VALUE False
                       (no_why\<lparr>why_validation := True\<rparr>) w1) (\<lambda>w2.
         rbind (if isNack then validated_with_nack c addr src ts w2 else validated_with_data c addr i1 w2)
           (\<lambda>w3. Inr (verdict, refreshed c dirty f cache valid, w3))))"
proof -
  have "block_ok c (f\<lparr>nVal := nVal f + 1\<rparr>) cache valid"
    using sizes by (simp add: block_ok_def)
  from validation_compare_eq [OF this]
  have cmp: "validation_compare c dirty (f\<lparr>nVal := nVal f + 1\<rparr>) cache valid =
           Inr (agrees c dirty f cache valid,
                if remove_false_sharing_forward c then valid else fwd_data f, refreshed c dirty f cache valid)"
    by (simp add: agrees_def refreshed_def)
  show ?thesis
    unfolding validateDataBlock_def f i Let_def by (simp only: en asrt_True option.case prod.case cmp rbind_Inr) simp
qed

lemma validateDataBlock_run:
  assumes sizes: "block_ok c f cache valid" and f: "smap_find (m_recvDataForwardedFromProducer w) addr = Some f"
    and run: "validateDataBlock c addr src cache valid ts dirty isNack w = Inr (ok, cache', w')"
  shows "ok = validation_verdict c (agrees c dirty f cache valid) (nVal f + 1) w"
    and "cache' = refreshed c dirty f cache valid" and "\<not> ok \<Longrightarrow> m_abortFlag w'"
proof -
  have en: "config_allowEarlyValueFwd w" "isConsumer w"
    using run unfolding validateDataBlock_def asrt_eq_Inr by blast+
  have "smap_find (m_allReceivedData w) addr \<noteq> None"
    using run unfolding validateDataBlock_def asrt_eq_Inr f by (cases "smap_find (m_allReceivedData w) addr") simp_all
  then obtain i where i: "smap_find (m_allReceivedData w) addr = Some i"
    by blast
  note run' = run [unfolded validateDataBlock_steps [OF sizes f i en] Let_def rbind_eq_Inr]
  show "ok = validation_verdict c (agrees c dirty f cache valid) (nVal f + 1) w"
    and "cache' = refreshed c dirty f cache valid"
    using run' by blast+
  show "m_abortFlag w'" if bad: "\<not> ok"
  proof -
    obtain w1 w2 i1 where "setAbortFlag c addr createInvalidMachineID TransactionBit_NonTrans NC_PRIO_VALUE False
        (no_why\<lparr>why_validation := True\<rparr>) w1 = Inr w2"
        and step: "(if isNack then validated_with_nack c addr src ts w2 else validated_with_data c addr i1 w2) = Inr w'"
      using run' bad by auto
    then have "m_abortFlag w2"
      by (blast dest: setAbortFlag_flag)
    then show ?thesis
      using step validated_with_data_flag validated_with_nack_flag by (metis (full_types))
  qed
qed

section \<open>A consuming transaction, for the examples\<close>

definition consuming_tx :: "htm_params \<Rightarrow> addr \<Rightarrow> DataBlock \<Rightarrow> xact" where
  "consuming_tx c a db = insert_consumed c a db \<lparr>mach_type = L1Cache, mach_num = 0\<rparr>
     ((running_tx c)\<lparr>m_hasReceivedDataFromProducer := \<lparr>mach_type = L1Cache, mach_num = 0\<rparr>\<rparr>)"

definition fwd_params :: htm_params where
  "fwd_params = default_params\<lparr>eager_cd := True, lazy_vm := True, conflict_resolution := requester_loses,
     fwd_mechanism := ''WN_DM'', prio_mechanism := ''numeric'', fwd_cycle_solve_strategy := ''abort'',
     block_size_bits := 3, remove_false_sharing_forward := False\<rparr>"

lemma fwd_params_sel [simp]:
  "eager_cd fwd_params" "lazy_vm fwd_params" "conflict_resolution fwd_params = requester_loses"
  "getFwdMechanism fwd_params = WN_DM" "getHwPrioMechanism fwd_params = numeric"
  "getFwdCycleSolveStrategy fwd_params = cycle_abort" "block_size_bits fwd_params = 3"
  "\<not> remove_false_sharing_forward fwd_params"
  by (simp_all add: fwd_params_def getFwdMechanism_def getHwPrioMechanism_def getFwdCycleSolveStrategy_def)

lemma consuming_tx_sel [simp]:
  "m_recvDataForwardedFromProducer (consuming_tx c a db) =
     [(a, \<lparr>fwd_data = db, fwd_modified = False, fwd_mask = WriteMask_block (block_bytes c), nVal = 0\<rparr>)]"
  "fwdMechanism (consuming_tx c a db) = getFwdMechanism c"
  "\<exists>i. m_allReceivedData (consuming_tx c a db) = [(a, i)]"
  "m_abortFlag (consuming_tx c a db) = False" "m_escapeLevel (consuming_tx c a db) = 0"
  "m_transactionLevel (consuming_tx c a db) = 1"
  by (simp_all add: consuming_tx_def insert_consumed_def smap_insert_def Let_def)
    (simp_all add: running_tx_def tim_build_def)

abbreviation core0 :: MachineID where
  "core0 \<equiv> \<lparr>mach_type = L1Cache, mach_num = 0\<rparr>"

lemma consuming_tx_ok:
  assumes "length db = 8" "length cache = 8" "length valid = 8"
  shows "block_ok fwd_params \<lparr>fwd_data = db, fwd_modified = False, fwd_mask = WriteMask_block 8, nVal = 0\<rparr> cache valid"
  using assms by (simp add: block_ok_def getBlockSizeBytes_def WriteMask_block_def mask_ok_def)

lemma example_validation:
  assumes "length db = 8"
  shows "\<exists>w'. validateDataBlock fwd_params 0x1200 core0 db db 0 False False (consuming_tx fwd_params 0x1200 db)
           = Inr (True, db, w')"
proof -
  obtain i where i: "m_allReceivedData (consuming_tx fwd_params 0x1200 db) = [(0x1200, i)]"
    using consuming_tx_sel(3) by blast
  have blocked: "makeLineAddress 3 0x1200 = 0x1200"
    by (simp add: makeLineAddress_def maskLowOrderBits_def mask64_def mbits_def)
  have bb: "getBlockSizeBytes 3 = 8"
    by (simp add: getBlockSizeBytes_def)
  show ?thesis
    by (subst validateDataBlock_steps [OF consuming_tx_ok [OF assms assms assms], where i = i])
      (simp_all add: i bb blocked config_allowEarlyValueFwd_def isConsumer_def agrees_def refreshed_def
        validation_verdict_def validated_with_data_def isBlockConsumed_def smap_simps smap_erase_def Let_def
        isAborting_def inTransaction_def)
qed

section \<open>Properties of validation\<close>



text \<open>
  C34. The last validation frees the transaction; an earlier one runs into undefined behaviour.
  Receiving matching data with permissions for a consumed block of a transaction that is not
  aborting completes when it is the only consumed block left, and the transaction is then no
  longer a consumer. With another block left, the code increments the iterator of the entry it has
  just erased (line 1149).
\<close>

theorem validation_completes:
  assumes sizes: "block_ok c f cache valid" and f: "smap_find (m_recvDataForwardedFromProducer w) addr = Some f"
    and i: "smap_find (m_allReceivedData w) addr = Some i" and map: "smap_ok (m_recvDataForwardedFromProducer w)"
    and en: "config_allowEarlyValueFwd w" "\<not> isAborting w" and line: "addr = line c addr"
    and fits: "validation_verdict c (agrees c dirty f cache valid) (nVal f + 1) w"
  shows "if length (m_recvDataForwardedFromProducer w) = 1
         then \<exists>w'. validateDataBlock c addr src cache valid ts dirty False w
                     = Inr (True, refreshed c dirty f cache valid, w')
                   \<and> \<not> isConsumer w' \<and> m_hasConsumedValidData w' \<and> \<not> isAborting w'
         else validateDataBlock c addr src cache valid ts dirty False w = Inl (UndefinedAt TIM_cc 1149)"
proof -
  have con: "isConsumer w"
    using f by (auto simp: isConsumer_def)
  let ?m = "smap_assign addr (f\<lparr>nVal := nVal f + 1, fwd_data := if remove_false_sharing_forward c then valid else fwd_data f\<rparr>)
                    (m_recvDataForwardedFromProducer w)"
  let ?i1 = "i\<lparr>timesVal := timesVal i + 1, producers := mset_insert src (producers i)\<rparr>"
  let ?w1 = "w\<lparr>m_recvDataForwardedFromProducer := ?m, m_allReceivedData := smap_assign addr ?i1 (m_allReceivedData w)\<rparr>"
  have "smap_erase addr ?m = smap_erase addr (m_recvDataForwardedFromProducer w)"
    using map by (intro smap_ext) (auto simp: smap_simps)
  moreover have "smap_erase addr (m_recvDataForwardedFromProducer w) = []
      \<longleftrightarrow> length (m_recvDataForwardedFromProducer w) = 1"
  proof -
    have "set (smap_keys (m_recvDataForwardedFromProducer w)) \<noteq> {}" "addr \<in> set (smap_keys (m_recvDataForwardedFromProducer w))"
      using f by (auto simp: smap_keys_find)
    moreover have "distinct (smap_keys (m_recvDataForwardedFromProducer w))"
      using map by (rule smap_keys_distinct)
    ultimately show ?thesis
      unfolding smap_erase_def smap_keys_def
      by (cases "m_recvDataForwardedFromProducer w"; cases "tl (m_recvDataForwardedFromProducer w)")
        (auto simp: filter_empty_conv)
  qed
  moreover have "isBlockConsumed c ?w1 addr"
    using map line by (simp add: isBlockConsumed_def smap_simps flip: line)
  ultimately have "validated_with_data c addr ?i1 ?w1 =
      (if length (m_recvDataForwardedFromProducer w) = 1
       then Inr (?w1\<lparr>m_recvDataForwardedFromProducer := [],
                   m_allReceivedData := smap_assign addr (?i1\<lparr>tickValidated := curTick w\<rparr>) (m_allReceivedData ?w1),
                   m_hasValidatedAnyData := True, m_hasConsumedValidData := True, m_consumerLowPrio := False\<rparr>)
       else Inl (UndefinedAt TIM_cc 1149))"
    using en(2) by (auto simp: validated_with_data_def isConsumer_def isAborting_def inTransaction_def Let_def)
  then show ?thesis
    unfolding validateDataBlock_steps [OF sizes f i en(1) con] Let_def
    using fits en(2) by (auto simp: isConsumer_def isAborting_def inTransaction_def)
qed

theorem validation_completes_witness:
  "\<exists>w'. validateDataBlock fwd_params 0x1200 core0 (replicate 8 5) (replicate 8 5) 0 False False
          (consuming_tx fwd_params 0x1200 (replicate 8 5)) = Inr (True, replicate 8 5, w')
      \<and> \<not> isConsumer w' \<and> m_hasConsumedValidData w'"
proof -
  let ?db = "replicate 8 5 :: DataBlock" and ?w = "consuming_tx fwd_params 0x1200 (replicate 8 5)"
  let ?f = "\<lparr>fwd_data = ?db, fwd_modified = False, fwd_mask = WriteMask_block 8, nVal = 0\<rparr>"
  obtain i where i: "m_allReceivedData ?w = [(0x1200, i)]"
    using consuming_tx_sel(3) by blast
  have "line fwd_params 0x1200 = 0x1200"
    by (simp add: makeLineAddress_def maskLowOrderBits_def mask64_def mbits_def)
  then show ?thesis
    using validation_completes [OF consuming_tx_ok [of ?db ?db ?db], of ?w "0x1200" i False core0 0] i
    by (auto simp: smap_simps smap_ok_def getBlockSizeBytes_def config_allowEarlyValueFwd_def isAborting_def
        inTransaction_def agrees_def refreshed_def validation_verdict_def)
qed

end
