(* ===== verification/Commit_Arbiter.thy ===== *)
theory Commit_Arbiter
  imports Forwarding
begin

text \<open>
  The arbitration of lazy commits (\<^verbatim>\<open>mem/ruby/htm/LazyTransactionCommitArbiter.cc\<close>). A transaction
  that reached its commit asks its arbiter for permission to write its buffer back. With the
  \<^verbatim>\<open>magic\<close> policy the arbiter compares the transaction with every validated one, with the
  \<^verbatim>\<open>token\<close> policy it queues for the commit token of the HTM object. The operations act on the
  manager that owns the arbiter; the token queue is the part of the HTM object it sees.
\<close>

section \<open>Operations\<close>

definition arb_begin :: "arbiter \<Rightarrow> arbiter res" where
  "arb_begin s = asrt LCA_cc 40 (\<not> m_validated s) (asrt LCA_cc 41 (\<not> m_validating s) (Inr s))"

definition arb_restart :: "xact \<Rightarrow> xact res" where
  "arb_restart w =
     rbind (if arb_policy (arb w) = token then
              (if m_validating (arb w) then removeCommitTokenRequest (int (m_version w)) (commitTokens w)
               else if m_validated (arb w) then releaseCommitToken (int (m_version w)) (commitTokens w)
               else Inr (commitTokens w))
            else Inr (commitTokens w)) (\<lambda>ts.
       Inr (w\<lparr>commitTokens := ts, arb := (arb w)\<lparr>m_validated := False, m_validating := False\<rparr>\<rparr>))"

definition arb_commit :: "xact \<Rightarrow> xact res" where
  "arb_commit w =
     asrt LCA_cc 64 (m_validated (arb w))
       (asrt LCA_cc 65 (\<not> m_validating (arb w))
         (rbind (if arb_policy (arb w) = token
                 then releaseCommitToken (int (m_version w)) (commitTokens w)
                 else Inr (commitTokens w)) (\<lambda>ts.
            Inr (w\<lparr>commitTokens := ts, arb := (arb w)\<lparr>m_validated := False, m_validating := False\<rparr>\<rparr>))))"

definition shouldValidateTransaction :: "arbiter \<Rightarrow> bool res" where
  "shouldValidateTransaction s =
     (if arb_policy s = magic then Inr True
      else if arb_policy s = token then Inr True
      else Inl (PanicAt LCA_cc 84))"

definition tim_hasConflictWith :: "htm_params \<Rightarrow> xact \<Rightarrow> xact \<Rightarrow> bool res" where
  "tim_hasConflictWith c w other = hasConflictWith c (m_transactionLevel other) (iso w) (iso other)"

text \<open>The loop over the managers of the system; it does not stop at the first conflict.\<close>

fun magic_scan :: "htm_params \<Rightarrow> xact \<Rightarrow> xact list \<Rightarrow> bool \<Rightarrow> bool res" where
  "magic_scan c new_committer [] found = Inr found"
| "magic_scan c new_committer (ongoing # mgrs) found =
     (if m_validated (arb ongoing) then
        rbind (tim_hasConflictWith c ongoing new_committer) (\<lambda>x.
        rbind (if x then Inr True else tim_hasConflictWith c new_committer ongoing) (\<lambda>y.
          magic_scan c new_committer mgrs (if y then True else found)))
      else magic_scan c new_committer mgrs found)"

definition initiateValidateTransaction :: "htm_params \<Rightarrow> xact list \<Rightarrow> xact \<Rightarrow> xact res" where
  "initiateValidateTransaction c mgrs w =
     asrt LCA_cc 91 (\<not> m_validated (arb w))
      (rbind
        (if arb_policy (arb w) = magic then
           (let w1 = w\<lparr>arb := (arb w)\<lparr>m_validating := True\<rparr>\<rparr> in
            rbind (magic_scan c w1 mgrs False) (\<lambda>conflicting. Inr (w1, conflicting)))
         else if arb_policy (arb w) = token then
           rbind (if \<not> m_validating (arb w)
                  then rbind (requestCommitToken (int (m_version w)) (commitTokens w)) (\<lambda>ts.
                         Inr (w\<lparr>commitTokens := ts, arb := (arb w)\<lparr>m_validating := True\<rparr>\<rparr>))
                  else Inr w) (\<lambda>w1.
             Inr (w1, getTokenOwner (commitTokens w1) \<noteq> int (m_version w1)))
         else Inl (PanicAt LCA_cc 137))
        (\<lambda>(w1, failed).
           Inr (if \<not> failed then w1\<lparr>arb := (arb w1)\<lparr>m_validating := False, m_validated := True\<rparr>\<rparr> else w1)))"

section \<open>The system of arbiters\<close>

text \<open>
  All managers share one token queue. A manager steps with the current queue and leaves the queue
  it ends with to the others. Between arbitration steps a manager that is not validated may change
  its read set and its redirected stores at will; a validated one has executed all its accesses,
  so both can only shrink.
\<close>

record arb_system =
  managers :: "xact list"
  tokenQueue :: tokens

definition conflicting :: "xact \<Rightarrow> xact \<Rightarrow> bool" where
  "conflicting w v \<longleftrightarrow> redirected (iso w) \<inter> (reads (iso v) \<union> redirected (iso v)) \<noteq> {}"

definition aligned :: "htm_params \<Rightarrow> xact \<Rightarrow> bool" where
  "aligned c w \<longleftrightarrow> (\<forall>a \<in> redirected (iso w). line c a = a)"

definition sys_update :: "nat \<Rightarrow> xact \<Rightarrow> arb_system \<Rightarrow> arb_system" where
  "sys_update i w S = \<lparr>managers = (managers S)[i := w], tokenQueue = commitTokens w\<rparr>"

definition sys_get :: "arb_system \<Rightarrow> nat \<Rightarrow> xact" where
  "sys_get S i = (managers S ! i)\<lparr>commitTokens := tokenQueue S\<rparr>"

definition executes :: "htm_params \<Rightarrow> xact \<Rightarrow> xact \<Rightarrow> bool" where
  "executes c w w' \<longleftrightarrow> m_version w' = m_version w \<and> arb w' = arb w \<and> commitTokens w' = commitTokens w
     \<and> aligned c w'
     \<and> (m_validated (arb w) \<longrightarrow> reads (iso w') \<subseteq> reads (iso w) \<and> redirected (iso w') \<subseteq> redirected (iso w))"

inductive arb_step :: "htm_params \<Rightarrow> arb_system \<Rightarrow> arb_system \<Rightarrow> bool" for c where
  Validate: "i < length (managers S) \<Longrightarrow>
    initiateValidateTransaction c (managers S) (sys_get S i) = Inr w \<Longrightarrow> arb_step c S (sys_update i w S)"
| Commit: "i < length (managers S) \<Longrightarrow> arb_commit (sys_get S i) = Inr w \<Longrightarrow> arb_step c S (sys_update i w S)"
| Restart: "i < length (managers S) \<Longrightarrow> arb_restart (sys_get S i) = Inr w \<Longrightarrow> arb_step c S (sys_update i w S)"
| Execute: "i < length (managers S) \<Longrightarrow> executes c (sys_get S i) w \<Longrightarrow> arb_step c S (sys_update i w S)"

definition arb_start :: "htm_params \<Rightarrow> arb_system \<Rightarrow> bool" where
  "arb_start c S \<longleftrightarrow> tokenQueue S = []
     \<and> (\<forall>i < length (managers S). m_version (managers S ! i) = i \<and> aligned c (managers S ! i)
          \<and> arb (managers S ! i) = arbiter_init (lazy_arbitration c))"

section \<open>What the operations change\<close>

definition with_arb :: "xact \<Rightarrow> tokens \<Rightarrow> bool \<Rightarrow> bool \<Rightarrow> xact" where
  "with_arb w ts v p = w\<lparr>commitTokens := ts, arb := (arb w)\<lparr>m_validated := v, m_validating := p\<rparr>\<rparr>"

lemma with_arb_sel [simp]:
  "m_validated (arb (with_arb w ts v p)) = v" "m_validating (arb (with_arb w ts v p)) = p"
  "arb_policy (arb (with_arb w ts v p)) = arb_policy (arb w)" "commitTokens (with_arb w ts v p) = ts"
  "m_version (with_arb w ts v p) = m_version w" "iso (with_arb w ts v p) = iso w"
  "m_transactionLevel (with_arb w ts v p) = m_transactionLevel w"
  by (simp_all add: with_arb_def)

lemma magic_not_token [simp]: "magic \<noteq> token" "token \<noteq> magic"
  by (simp_all add: magic_def token_def)

lemma restart_shape:
  assumes "arb_restart w = Inr w'"
  shows "\<exists>ts. w' = with_arb w ts False False"
  using assms unfolding arb_restart_def by (auto simp: rbind_eq_Inr with_arb_def)

lemma commit_shape:
  assumes "arb_commit w = Inr w'"
  shows "m_validated (arb w) \<and> (\<exists>ts. w' = with_arb w ts False False)"
  using assms unfolding arb_commit_def by (auto simp: rbind_eq_Inr asrt_eq_Inr with_arb_def)

lemma validate_token:
  assumes "arb_policy (arb w) = token"
  shows "initiateValidateTransaction c mgrs w =
    asrt LCA_cc 91 (\<not> m_validated (arb w))
      (rbind (if m_validating (arb w) then Inr (commitTokens w)
              else requestCommitToken (int (m_version w)) (commitTokens w)) (\<lambda>ts.
         Inr (with_arb w ts (getTokenOwner ts = int (m_version w)) (getTokenOwner ts \<noteq> int (m_version w)))))"
proof (cases "m_validated (arb w)")
  case False
  then show ?thesis
    using assms
    by (cases "requestCommitToken (int (m_version w)) (commitTokens w)")
      (simp_all add: initiateValidateTransaction_def with_arb_def)
qed (simp add: initiateValidateTransaction_def)

lemma conflict_scan_partial:
  assumes "conflict_scan c level n m = Inr b" and "\<forall>a \<in> set (smap_keys m). line c a = a"
  shows "b \<longleftrightarrow> set (smap_keys m) \<inter> (reads n \<union> redirected n) \<noteq> {}"
  using assms
proof (induction m arbitrary: b)
  case (Cons e m)
  then show ?case
    by (cases e) (auto simp: smap_keys_def rbind_eq_Inr isRedirectedStoreToWriteBuffer_def redirected_find
        dest!: isInReadSet_partial split: if_splits)
qed (simp add: smap_keys_def)

lemma hasConflict_partial:
  assumes "tim_hasConflictWith c w v = Inr b" and "aligned c w"
  shows "b \<longleftrightarrow> conflicting w v"
  using assms conflict_scan_partial
  unfolding tim_hasConflictWith_def hasConflictWith_def conflicting_def aligned_def redirected_def by metis

lemma magic_scan_partial:
  assumes "magic_scan c w ms found = Inr b" and "aligned c w" and "\<forall>v \<in> set ms. aligned c v"
  shows "b \<longleftrightarrow> found \<or> (\<exists>v \<in> set ms. m_validated (arb v) \<and> (conflicting v w \<or> conflicting w v))"
  using assms
proof (induction c w ms found rule: magic_scan.induct)
  case (2 c w v ms found)
  show ?case
  proof (cases "m_validated (arb v)")
    case True
    with 2(3) obtain x y where x: "tim_hasConflictWith c v w = Inr x"
        and y: "(if x then Inr True else tim_hasConflictWith c w v) = Inr y"
        and rest: "magic_scan c w ms (if y then True else found) = Inr b"
      by (auto simp: rbind_eq_Inr)
    have "x \<longleftrightarrow> conflicting v w"
      using hasConflict_partial [OF x] 2(5) by simp
    moreover have "y \<longleftrightarrow> x \<or> conflicting w v"
      using y hasConflict_partial [of c w v y] 2(4) by (cases x) auto
    ultimately show ?thesis
      using 2(1) [OF True x y rest] 2(4,5) True by auto
  next
    case False
    then show ?thesis using 2 by auto
  qed
qed simp

lemma validate_magic:
  assumes "initiateValidateTransaction c ms w = Inr w'" and "arb_policy (arb w) = magic"
    and "aligned c w" and "\<forall>v \<in> set ms. aligned c v"
  shows "\<exists>v p. w' = with_arb w (commitTokens w) v p \<and> \<not> m_validated (arb w) \<and> \<not> (v \<and> p)
     \<and> (v \<longrightarrow> (\<forall>u \<in> set ms. m_validated (arb u) \<longrightarrow> \<not> conflicting u w \<and> \<not> conflicting w u))"
proof -
  let ?w1 = "w\<lparr>arb := (arb w)\<lparr>m_validating := True\<rparr>\<rparr>"
  from assms(1,2) obtain b where b: "magic_scan c ?w1 ms False = Inr b" and nv: "\<not> m_validated (arb w)"
      and w': "w' = (if \<not> b then ?w1\<lparr>arb := (arb ?w1)\<lparr>m_validating := False, m_validated := True\<rparr>\<rparr> else ?w1)"
    unfolding initiateValidateTransaction_def by (auto simp: rbind_eq_Inr asrt_eq_Inr Let_def)
  have "aligned c ?w1" and same: "conflicting u ?w1 = conflicting u w" "conflicting ?w1 u = conflicting w u" for u
    using assms(3) by (simp_all add: aligned_def conflicting_def)
  then have "b \<longleftrightarrow> (\<exists>v \<in> set ms. m_validated (arb v) \<and> (conflicting v w \<or> conflicting w v))"
    using magic_scan_partial [OF b] assms(4) by auto
  moreover have "w' = with_arb w (commitTokens w) (\<not> b) b"
    using w' nv by (cases b) (simp_all add: with_arb_def)
  ultimately show ?thesis
    using nv by blast
qed

section \<open>The invariant\<close>

definition token_inv :: "arb_system \<Rightarrow> bool" where
  "token_inv S \<longleftrightarrow>
     tokens_ok (tokenQueue S)
     \<and> (\<forall>i < length (managers S). int i \<in> set (tokenQueue S)
          \<longleftrightarrow> m_validated (arb (managers S ! i)) \<or> m_validating (arb (managers S ! i)))
     \<and> (\<forall>i < length (managers S). m_validated (arb (managers S ! i)) \<longrightarrow> getTokenOwner (tokenQueue S) = int i)
     \<and> set (tokenQueue S) \<subseteq> int ` {..<length (managers S)}"

definition magic_inv :: "arb_system \<Rightarrow> bool" where
  "magic_inv S \<longleftrightarrow>
     (\<forall>i < length (managers S). \<forall>j < length (managers S). i \<noteq> j \<longrightarrow>
        m_validated (arb (managers S ! i)) \<longrightarrow> m_validated (arb (managers S ! j)) \<longrightarrow>
        \<not> conflicting (managers S ! i) (managers S ! j))"

definition arb_inv :: "htm_params \<Rightarrow> arb_system \<Rightarrow> bool" where
  "arb_inv c S \<longleftrightarrow>
     (\<forall>i < length (managers S). m_version (managers S ! i) = i \<and> aligned c (managers S ! i)
        \<and> arb_policy (arb (managers S ! i)) = lazy_arbitration c
        \<and> \<not> (m_validated (arb (managers S ! i)) \<and> m_validating (arb (managers S ! i))))
     \<and> (lazy_arbitration c = token \<longrightarrow> token_inv S) \<and> (lazy_arbitration c = magic \<longrightarrow> magic_inv S)"

lemma arb_start_inv: "arb_start c S \<Longrightarrow> arb_inv c S"
  by (auto simp: arb_start_def arb_inv_def token_inv_def magic_inv_def arbiter_init_def tokens_ok_def)

lemma sys_update_sel [simp]:
  "length (managers (sys_update i w S)) = length (managers S)" "tokenQueue (sys_update i w S) = commitTokens w"
  "i < length (managers S) \<Longrightarrow> managers (sys_update i w S) ! j = (if j = i then w else managers S ! j)"
  by (auto simp: sys_update_def nth_list_update)

lemma sys_get_sel [simp]:
  "arb (sys_get S i) = arb (managers S ! i)" "iso (sys_get S i) = iso (managers S ! i)"
  "m_version (sys_get S i) = m_version (managers S ! i)" "commitTokens (sys_get S i) = tokenQueue S"
  by (simp_all add: sys_get_def)

lemma conflicting_cong:
  "iso w = iso w' \<Longrightarrow> iso v = iso v' \<Longrightarrow> conflicting w v = conflicting w' v'"
  by (simp add: conflicting_def)

text \<open>A manager that keeps its accesses and ends up not validated.\<close>

lemma magic_inv_leave:
  assumes "magic_inv S" and "i < length (managers S)" and "\<not> m_validated (arb w)"
  shows "magic_inv (sys_update i w S)"
  using assms by (auto simp: magic_inv_def)

lemma magic_inv_enter:
  assumes "magic_inv S" and "i < length (managers S)"
    and "m_validated (arb w) \<longrightarrow> (\<forall>u \<in> set (managers S). m_validated (arb u) \<longrightarrow> \<not> conflicting u w \<and> \<not> conflicting w u)"
  shows "magic_inv (sys_update i w S)"
  using assms by (auto simp: magic_inv_def)

lemma conflicting_mono:
  assumes "conflicting w v" and "redirected (iso w) \<subseteq> redirected (iso w')"
    and "reads (iso v) \<subseteq> reads (iso v')" "redirected (iso v) \<subseteq> redirected (iso v')"
  shows "conflicting w' v'"
  using assms unfolding conflicting_def by blast

lemma magic_inv_shrink:
  assumes "magic_inv S" and "i < length (managers S)" and "arb w = arb (managers S ! i)"
    and "m_validated (arb w) \<longrightarrow> reads (iso w) \<subseteq> reads (iso (managers S ! i))
                               \<and> redirected (iso w) \<subseteq> redirected (iso (managers S ! i))"
  shows "magic_inv (sys_update i w S)"
proof (cases "m_validated (arb w)")
  case True
  then have "conflicting w u \<Longrightarrow> conflicting (managers S ! i) u"
    and "conflicting u w \<Longrightarrow> conflicting u (managers S ! i)" for u
    using assms(4) conflicting_mono by blast+
  with True show ?thesis
    using assms(1-3) unfolding magic_inv_def by auto
next
  case False
  then show ?thesis using magic_inv_leave [OF assms(1,2)] by simp
qed

text \<open>The token queue around one manager.\<close>

lemma token_owner: "getTokenOwner ts = int i \<longleftrightarrow> (\<exists>r. ts = int i # r)"
  by (cases ts) (auto simp: getTokenOwner_def)

lemma token_inv_update:
  assumes inv: "token_inv S" and i: "i < length (managers S)" and ok: "tokens_ok ts"
    and others: "\<And>j. j \<noteq> i \<Longrightarrow> int j \<in> set ts \<longleftrightarrow> int j \<in> set (tokenQueue S)"
    and front: "\<And>j r. j \<noteq> i \<Longrightarrow> tokenQueue S = int j # r \<Longrightarrow> \<exists>r'. ts = int j # r'"
    and own: "int i \<in> set ts \<longleftrightarrow> v \<or> p" "v \<longrightarrow> getTokenOwner ts = int i"
    and range: "set ts \<subseteq> int ` {..<length (managers S)}"
    and w: "m_validated (arb w) = v" "m_validating (arb w) = p" "commitTokens w = ts"
  shows "token_inv (sys_update i w S)"
proof -
  have "getTokenOwner ts = int j" if "j < length (managers S)" "j \<noteq> i" "m_validated (arb (managers S ! j))" for j
    using inv that front [of j] unfolding token_inv_def token_owner by blast
  then show ?thesis
    using inv i ok others own range w unfolding token_inv_def by auto
qed

lemma token_validate:
  assumes inv: "token_inv S" and i: "i < length (managers S)" and v: "m_version (managers S ! i) = i"
    and pol: "arb_policy (arb (managers S ! i)) = token" and nv: "\<not> m_validated (arb (managers S ! i))"
  obtains ts where
    "initiateValidateTransaction c ms (sys_get S i) =
       Inr (with_arb (sys_get S i) ts (getTokenOwner ts = int i) (getTokenOwner ts \<noteq> int i))"
    "ts = (if int i \<in> set (tokenQueue S) then tokenQueue S else tokenQueue S @ [int i])"
    "token_inv (sys_update i (with_arb (sys_get S i) ts (getTokenOwner ts = int i) (getTokenOwner ts \<noteq> int i)) S)"
proof -
  let ?ts = "if int i \<in> set (tokenQueue S) then tokenQueue S else tokenQueue S @ [int i]"
  let ?w = "with_arb (sys_get S i) ?ts (getTokenOwner ?ts = int i) (getTokenOwner ?ts \<noteq> int i)"
  have mem: "int i \<in> set (tokenQueue S) \<longleftrightarrow> m_validating (arb (managers S ! i))"
      and tok: "tokens_ok (tokenQueue S)" and sub: "set (tokenQueue S) \<subseteq> int ` {..<length (managers S)}"
    using inv i nv unfolding token_inv_def by auto
  have req: "requestCommitToken (int i) (tokenQueue S) = Inr (tokenQueue S @ [int i])"
      "tokens_ok (tokenQueue S @ [int i])" if "int i \<notin> set (tokenQueue S)"
    using requestCommitToken_ok [OF tok _ that] by auto
  have run: "initiateValidateTransaction c ms (sys_get S i) = Inr ?w"
    using pol nv v mem req by (subst validate_token) auto
  have "token_inv (sys_update i ?w S)"
    by (rule token_inv_update [OF inv i, where v = "getTokenOwner ?ts = int i" and p = "getTokenOwner ?ts \<noteq> int i"])
      (use tok req sub i in \<open>auto split: if_splits\<close>)
  with run show ?thesis
    by (rule that [OF _ refl])
qed

lemma token_leave:
  assumes inv: "token_inv S" and i: "i < length (managers S)"
    and ts: "ts = remove1 (int i) (tokenQueue S)" and w: "w = with_arb (sys_get S i) ts False False"
  shows "token_inv (sys_update i w S)"
proof (rule token_inv_update [OF inv i, where v = False and p = False])
  show "tokens_ok ts"
    using inv ts by (auto simp: token_inv_def tokens_ok_def dest: notin_set_remove1)
  show "set ts \<subseteq> int ` {..<length (managers S)}"
    using inv ts unfolding token_inv_def by (meson order_trans set_remove1_subset)
  have "distinct (tokenQueue S)"
    using inv by (simp add: token_inv_def tokens_ok_def)
  then show "int j \<in> set ts \<longleftrightarrow> int j \<in> set (tokenQueue S)" if "j \<noteq> i" for j
    using that ts by simp
  show "\<exists>r'. ts = int j # r'" if "j \<noteq> i" "tokenQueue S = int j # r" for j r
    using that ts by simp
  show "int i \<in> set ts \<longleftrightarrow> False \<or> False"
    using \<open>distinct (tokenQueue S)\<close> ts by simp
qed (simp_all add: w)

lemma token_restart:
  assumes inv: "token_inv S" and i: "i < length (managers S)" and v: "m_version (managers S ! i) = i"
    and pol: "arb_policy (arb (managers S ! i)) = token"
  shows "arb_restart (sys_get S i) = Inr (with_arb (sys_get S i) (remove1 (int i) (tokenQueue S)) False False)"
proof -
  let ?a = "arb (managers S ! i)"
  have tok: "tokens_ok (tokenQueue S)" and mem: "int i \<in> set (tokenQueue S) \<longleftrightarrow> m_validated ?a \<or> m_validating ?a"
      and own: "m_validated ?a \<Longrightarrow> \<exists>r. tokenQueue S = int i # r"
    using inv i unfolding token_inv_def token_owner by auto
  consider "m_validating ?a" | "\<not> m_validating ?a" "m_validated ?a" | "\<not> m_validating ?a" "\<not> m_validated ?a"
    by blast
  then show ?thesis
  proof cases
    case 1
    then show ?thesis
      using removeCommitTokenRequest_ok [OF tok] mem pol v by (simp add: arb_restart_def with_arb_def)
  next
    case 2
    then obtain r where "tokenQueue S = int i # r"
      using own by blast
    then show ?thesis
      using 2 pol v releaseCommitToken_ok [of "int i" r] tok by (simp add: arb_restart_def with_arb_def)
  next
    case 3
    then have "remove1 (int i) (tokenQueue S) = tokenQueue S"
      using mem by (simp add: remove1_idem)
    then show ?thesis
      using 3 pol by (simp add: arb_restart_def with_arb_def)
  qed
qed

lemma token_commit:
  assumes inv: "token_inv S" and i: "i < length (managers S)" and v: "m_version (managers S ! i) = i"
    and pol: "arb_policy (arb (managers S ! i)) = token" and va: "m_validated (arb (managers S ! i))"
    and np: "\<not> m_validating (arb (managers S ! i))"
  shows "arb_commit (sys_get S i) = Inr (with_arb (sys_get S i) (remove1 (int i) (tokenQueue S)) False False)"
proof -
  obtain r where "tokenQueue S = int i # r"
    using inv i va unfolding token_inv_def token_owner by auto
  moreover have "tokens_ok (tokenQueue S)"
    using inv by (simp add: token_inv_def)
  ultimately show ?thesis
    using releaseCommitToken_ok [of "int i" r] assms(3-6) by (simp add: arb_commit_def with_arb_def)
qed

lemma arb_inv_parts:
  assumes "arb_inv c S" and "i < length (managers S)"
  shows "m_version (managers S ! i) = i" "aligned c (managers S ! i)"
    "arb_policy (arb (managers S ! i)) = lazy_arbitration c"
    "\<not> (m_validated (arb (managers S ! i)) \<and> m_validating (arb (managers S ! i)))"
  using assms by (auto simp: arb_inv_def)

lemma arb_inv_update:
  assumes "arb_inv c S" and "i < length (managers S)"
    and "m_version w = i" "aligned c w" "arb_policy (arb w) = lazy_arbitration c"
    and "\<not> (m_validated (arb w) \<and> m_validating (arb w))"
    and "lazy_arbitration c = token \<Longrightarrow> token_inv (sys_update i w S)"
    and "lazy_arbitration c = magic \<Longrightarrow> magic_inv (sys_update i w S)"
  shows "arb_inv c (sys_update i w S)"
  using assms unfolding arb_inv_def by auto

lemma arb_leave_inv:
  assumes inv: "arb_inv c S" and i: "i < length (managers S)" and w: "w = with_arb (sys_get S i) ts False False"
    and "lazy_arbitration c = token \<Longrightarrow> token_inv (sys_update i w S)"
  shows "arb_inv c (sys_update i w S)"
proof (rule arb_inv_update [OF inv i])
  show "magic_inv (sys_update i w S)" if "lazy_arbitration c = magic"
    using inv that w by (intro magic_inv_leave i) (simp_all add: arb_inv_def)
qed (use arb_inv_parts [OF inv i] w assms(4) in \<open>simp_all add: aligned_def\<close>)

lemma arb_validate_inv:
  assumes inv: "arb_inv c S" and i: "i < length (managers S)"
    and run: "initiateValidateTransaction c (managers S) (sys_get S i) = Inr w"
  shows "arb_inv c (sys_update i w S)"
proof -
  note parts = arb_inv_parts [OF inv i]
  have nv: "\<not> m_validated (arb (managers S ! i))"
    using run by (auto simp: initiateValidateTransaction_def asrt_eq_Inr)
  have "lazy_arbitration c = magic \<or> lazy_arbitration c = token"
    using run parts(3) by (auto simp: initiateValidateTransaction_def asrt_eq_Inr rbind_eq_Inr split: if_splits)
  then show ?thesis
  proof
    assume pol: "lazy_arbitration c = magic"
    have "\<forall>v \<in> set (managers S). aligned c v" "aligned c (sys_get S i)"
      using inv i by (auto simp: arb_inv_def in_set_conv_nth aligned_def)
    from validate_magic [OF run _ this(2,1)] pol parts(3)
    obtain v p where w: "w = with_arb (sys_get S i) (tokenQueue S) v p" and "\<not> (v \<and> p)"
        and free: "v \<longrightarrow> (\<forall>u \<in> set (managers S). m_validated (arb u) \<longrightarrow>
                     \<not> conflicting u (sys_get S i) \<and> \<not> conflicting (sys_get S i) u)"
      by auto
    have "magic_inv (sys_update i w S)"
      using inv pol free w by (intro magic_inv_enter i) (auto simp: arb_inv_def conflicting_def)
    then show ?thesis
      using parts w pol \<open>\<not> (v \<and> p)\<close> by (intro arb_inv_update [OF inv i]) (simp_all add: aligned_def)
  next
    assume pol: "lazy_arbitration c = token"
    have "token_inv S"
      using inv pol by (simp add: arb_inv_def)
    from token_validate [OF this i parts(1) _ nv, of c "managers S"] pol parts(3) run
    obtain ts where "w = with_arb (sys_get S i) ts (getTokenOwner ts = int i) (getTokenOwner ts \<noteq> int i)"
        and "token_inv (sys_update i w S)"
      by auto
    then show ?thesis
      using parts pol by (intro arb_inv_update [OF inv i]) (simp_all add: aligned_def)
  qed
qed

lemma arb_execute_inv:
  assumes inv: "arb_inv c S" and i: "i < length (managers S)" and ex: "executes c (sys_get S i) w"
  shows "arb_inv c (sys_update i w S)"
proof (rule arb_inv_update [OF inv i])
  note parts = arb_inv_parts [OF inv i]
  have same: "m_version w = i" "arb w = arb (managers S ! i)" "commitTokens w = tokenQueue S" "aligned c w"
    using ex parts by (simp_all add: executes_def)
  then show "m_version w = i" "aligned c w" "arb_policy (arb w) = lazy_arbitration c"
    "\<not> (m_validated (arb w) \<and> m_validating (arb w))"
    using parts by simp_all
  show "token_inv (sys_update i w S)" if "lazy_arbitration c = token"
    using inv that same i by (auto simp: arb_inv_def token_inv_def)
  show "magic_inv (sys_update i w S)" if "lazy_arbitration c = magic"
    using inv that ex same by (intro magic_inv_shrink i) (simp_all add: arb_inv_def executes_def)
qed

lemma arb_step_inv:
  assumes inv: "arb_inv c S" and "arb_step c S T"
  shows "arb_inv c T"
  using assms(2)
proof cases
  case (Validate i w)
  then show ?thesis using arb_validate_inv [OF inv] by simp
next
  case (Commit i w)
  note parts = arb_inv_parts [OF inv Commit(2)]
  obtain ts where w: "w = with_arb (sys_get S i) ts False False" and va: "m_validated (arb (managers S ! i))"
    using commit_shape [OF Commit(3)] by auto
  have "token_inv (sys_update i w S)" if pol: "lazy_arbitration c = token"
    using token_leave [OF _ Commit(2) refl] token_commit [OF _ Commit(2) parts(1) _ va] Commit(3) parts inv pol va
    by (auto simp: arb_inv_def)
  then show ?thesis
    unfolding Commit(1) by (rule arb_leave_inv [OF inv Commit(2) w])
next
  case (Restart i w)
  note parts = arb_inv_parts [OF inv Restart(2)]
  obtain ts where w: "w = with_arb (sys_get S i) ts False False"
    using restart_shape [OF Restart(3)] by auto
  have "token_inv (sys_update i w S)" if pol: "lazy_arbitration c = token"
    using token_leave [OF _ Restart(2) refl] token_restart [OF _ Restart(2) parts(1)] Restart(3) parts inv pol
    by (auto simp: arb_inv_def)
  then show ?thesis
    unfolding Restart(1) by (rule arb_leave_inv [OF inv Restart(2) w])
next
  case (Execute i w)
  then show ?thesis using arb_execute_inv [OF inv] by simp
qed

interpretation arbs: invariant_system "arb_start c" "arb_step c" "arb_inv c" for c
  by unfold_locales (auto intro: arb_start_inv arb_step_inv)

lemma validated_compatible:
  assumes inv: "arb_inv c T" and "lazy_arbitration c \<in> {magic, token}"
    and "i < length (managers T)" and "j < length (managers T)" and "i \<noteq> j"
    and "m_validated (arb (managers T ! i))" and "m_validated (arb (managers T ! j))"
  shows "lazy_arbitration c = magic \<and> \<not> conflicting (managers T ! i) (managers T ! j)
     \<and> \<not> conflicting (managers T ! j) (managers T ! i)"
proof -
  have "lazy_arbitration c \<noteq> token"
  proof
    assume "lazy_arbitration c = token"
    then have "getTokenOwner (tokenQueue T) = int i" "getTokenOwner (tokenQueue T) = int j"
      using inv assms(3,4,6,7) unfolding arb_inv_def token_inv_def by blast+
    then show False
      using assms(5) by simp
  qed
  then show ?thesis
    using inv assms(2-7) by (auto simp: arb_inv_def magic_inv_def)
qed

section \<open>Properties\<close>

text \<open>
  C5. Validated transactions do not interfere. In every state that the arbiters can reach, two
  transactions that have been allowed to write back at the same time share no line that one of
  them writes and the other reads or writes; with the token there are never two of them.
\<close>

theorem committers_compatible:
  assumes "arb_start c S" and "(arb_step c)\<^sup>*\<^sup>* S T" and "lazy_arbitration c \<in> {magic, token}"
    and "i < length (managers T)" and "j < length (managers T)" and "i \<noteq> j"
    and "m_validated (arb (managers T ! i))" and "m_validated (arb (managers T ! j))"
  shows "lazy_arbitration c = magic \<and> \<not> conflicting (managers T ! i) (managers T ! j)
     \<and> \<not> conflicting (managers T ! j) (managers T ! i)"
  by (rule validated_compatible [OF arbs.reachable_inv [OF assms(1,2)] assms(3-8)])

definition storing_tx :: "htm_params \<Rightarrow> nat \<Rightarrow> addr \<Rightarrow> xact" where
  "storing_tx c i a = (running_tx c)\<lparr>m_version := i, iso := redirectedStoreToWriteBuffer a iso_init\<rparr>"

lemma storing_tx_sel [simp]:
  "m_version (storing_tx c i a) = i" "arb (storing_tx c i a) = arbiter_init (lazy_arbitration c)"
  "redirected (redirectedStoreToWriteBuffer a iso_init) = {a}" "reads (redirectedStoreToWriteBuffer a iso_init) = {}"
  "m_transactionLevel (storing_tx c i a) = 1"
  "iso (storing_tx c i a) = redirectedStoreToWriteBuffer a iso_init"
  by (auto simp: storing_tx_def running_tx_def tim_build_def redirectedStoreToWriteBuffer_def iso_init_def
      redirected_def reads_def smap_insert_def smap_keys_def)

lemma hasConflict_stores:
  "a \<noteq> b \<Longrightarrow> line c a = a \<Longrightarrow> hasConflictWith c 1 (redirectedStoreToWriteBuffer a iso_init)
     (redirectedStoreToWriteBuffer b iso_init) = Inr False"
  by (simp add: hasConflictWith_def redirectedStoreToWriteBuffer_def iso_init_def smap_insert_def
      isInReadSetPerfectFilter_def isRedirectedStoreToWriteBuffer_def)

abbreviation two_storing :: "htm_params \<Rightarrow> arb_system" where
  "two_storing c \<equiv> \<lparr>managers = [storing_tx c 0 0x40, storing_tx c 1 0x80], tokenQueue = []\<rparr>"

lemma two_storing_start: "block_size_bits c = 6 \<Longrightarrow> arb_start c (two_storing c)"
  by (auto simp: arb_start_def nth_Cons' aligned_def makeLineAddress_def maskLowOrderBits_def mask64_def
      mbits_def)

theorem committers_compatible_witness:
  "\<exists>T. (arb_step el_params)\<^sup>*\<^sup>* (two_storing el_params) T
     \<and> m_validated (arb (managers T ! 0)) \<and> m_validated (arb (managers T ! 1))
     \<and> \<not> conflicting (managers T ! 0) (managers T ! 1)"
proof -
  let ?S = "two_storing el_params"
  have pol: "lazy_arbitration el_params = magic"
    by (simp add: el_params_def default_params_def magic_def)
  have ln: "line el_params 0x40 = 0x40" "line el_params 0x80 = 0x80"
    by (simp_all add: makeLineAddress_def maskLowOrderBits_def mask64_def mbits_def)
  let ?w0 = "with_arb (sys_get ?S 0) [] True False"
  let ?T = "sys_update 0 ?w0 ?S"
  let ?w1 = "with_arb (sys_get ?T 1) [] True False"
  have "initiateValidateTransaction el_params (managers ?S) (sys_get ?S 0) = Inr ?w0"
    by (simp add: initiateValidateTransaction_def arbiter_init_def pol with_arb_def)
  then have 1: "arb_step el_params ?S ?T"
    by (intro arb_step.Validate) simp
  have "initiateValidateTransaction el_params (managers ?T) (sys_get ?T 1) = Inr ?w1"
    using hasConflict_stores [OF _ ln(1), of "0x80"] hasConflict_stores [OF _ ln(2), of "0x40"]
    by (simp add: initiateValidateTransaction_def arbiter_init_def pol with_arb_def sys_update_def
        tim_hasConflictWith_def sys_get_def)
  then have "arb_step el_params ?T (sys_update 1 ?w1 ?T)"
    by (intro arb_step.Validate) simp
  with 1 have run: "(arb_step el_params)\<^sup>*\<^sup>* ?S (sys_update 1 ?w1 ?T)"
    by (meson r_into_rtranclp rtranclp.rtrancl_into_rtrancl)
  show ?thesis
    using run committers_compatible [OF two_storing_start run, of 0 1] pol
    by (intro exI [of _ "sys_update 1 ?w1 ?T"]) simp
qed

text \<open>
  C13. The commit token never gets stuck. In every state that the arbiters reach under the token
  policy no operation fails an assertion: a manager that is not validated can always ask, it is
  validated exactly when it then holds the token, a validated manager can always commit, every manager can
  always restart, and whenever the queue is not empty its owner is validated or becomes so with
  its next attempt.
\<close>

theorem token_never_stuck:
  assumes "arb_start c S" and "(arb_step c)\<^sup>*\<^sup>* S T" and "lazy_arbitration c = token"
    and "i < length (managers T)"
  shows "(\<not> m_validated (arb (managers T ! i)) \<longrightarrow>
            (\<exists>w. initiateValidateTransaction c (managers T) (sys_get T i) = Inr w
               \<and> (m_validated (arb w) \<longleftrightarrow> getTokenOwner (commitTokens w) = int i)
               \<and> (getTokenOwner (tokenQueue T) \<in> {int i, -1} \<longrightarrow> m_validated (arb w))))
       \<and> (m_validated (arb (managers T ! i)) \<longrightarrow> (\<exists>w. arb_commit (sys_get T i) = Inr w))
       \<and> (\<exists>w. arb_restart (sys_get T i) = Inr w)
       \<and> (tokenQueue T \<noteq> [] \<longrightarrow> (\<exists>j < length (managers T). getTokenOwner (tokenQueue T) = int j))"
proof -
  have inv: "arb_inv c T"
    by (rule arbs.reachable_inv [OF assms(1,2)])
  note parts = arb_inv_parts [OF inv assms(4)]
  have tok: "token_inv T" and pol: "arb_policy (arb (managers T ! i)) = token"
    using inv parts(3) assms(3) by (simp_all add: arb_inv_def)
  have "\<exists>w. initiateValidateTransaction c (managers T) (sys_get T i) = Inr w
      \<and> (m_validated (arb w) \<longleftrightarrow> getTokenOwner (commitTokens w) = int i)
      \<and> (getTokenOwner (tokenQueue T) \<in> {int i, -1} \<longrightarrow> m_validated (arb w))"
    if "\<not> m_validated (arb (managers T ! i))"
  proof -
    from token_validate [OF tok assms(4) parts(1) pol that, of c "managers T"]
    obtain ts where run: "initiateValidateTransaction c (managers T) (sys_get T i) =
          Inr (with_arb (sys_get T i) ts (getTokenOwner ts = int i) (getTokenOwner ts \<noteq> int i))"
        and ts: "ts = (if int i \<in> set (tokenQueue T) then tokenQueue T else tokenQueue T @ [int i])"
      by metis
    have "getTokenOwner ts = int i" if "getTokenOwner (tokenQueue T) \<in> {int i, -1}"
      using that ts tok by (cases "tokenQueue T") (auto simp: getTokenOwner_def token_inv_def)
    with run show ?thesis by auto
  qed
  moreover have "\<exists>j < length (managers T). getTokenOwner (tokenQueue T) = int j" if "tokenQueue T \<noteq> []"
    using that tok by (cases "tokenQueue T") (auto simp: getTokenOwner_def token_inv_def)
  ultimately show ?thesis
    using token_restart [OF tok assms(4) parts(1) pol] token_commit [OF tok assms(4) parts(1) pol] parts(4) by blast
qed

definition token_params :: htm_params where
  "token_params = el_params\<lparr>eager_cd := False, lazy_arbitration := token\<rparr>"

theorem token_never_stuck_witness:
  "\<exists>w. initiateValidateTransaction token_params (managers (two_storing token_params))
         (sys_get (two_storing token_params) 1) = Inr w \<and> m_validated (arb w)"
proof -
  have "arb_start token_params (two_storing token_params)"
    by (rule two_storing_start) (simp add: token_params_def)
  moreover have "lazy_arbitration token_params = token"
    by (simp add: token_params_def)
  ultimately show ?thesis
    using token_never_stuck [OF _ rtranclp.rtrancl_refl, of token_params "two_storing token_params" 1]
    by (auto simp: arbiter_init_def getTokenOwner_def)
qed

end
