(* ===== verification/Lifecycle.thy ===== *)
theory Lifecycle
  imports Commit_Arbiter
begin

text \<open>
  The life of a transaction at its interface manager
  (\<^verbatim>\<open>mem/ruby/htm/TransactionInterfaceManager.cc\<close>): begin, the start of a commit, the commit, the
  abort for the three kinds of system (eager conflicts with lazy versions in the L0 cache, lazy
  conflicts with a write buffer, and LogTM with an undo log), and the end of a log unroll. Each
  handler is whole: the calls to the isolation, conflict and version managers, the arbiter and the
  checkers, and every assertion, those of the profiling code included. Of the statistics only the
  forwarding profile is modelled; cycle counts and the annotated-region profiler are left out.
\<close>

section \<open>Packets\<close>

text \<open>What the handlers read of a packet and its request.\<close>

record htm_packet =
  pkt_uid :: nat
  pkt_xid :: int
  pkt_power :: bool
  pkt_requestorId :: nat
  pkt_time :: tick
  pkt_abortCause :: HtmFailureFaultCause

section \<open>Begin\<close>

definition begin_fwd_clean :: "htm_params \<Rightarrow> xact \<Rightarrow> unit res" where
  "begin_fwd_clean c w =
     rbind (isProducer c w) (\<lambda>p. asrt TIM_cc 1216 (\<not> p)
       (asrt TIM_cc 1217 (\<not> isConsumer w)
         (rbind (hasConsumedData w) (\<lambda>d. asrt TIM_cc 1218 (\<not> d)
           (asrt TIM_cc 1219 (m_sentDataForwardedToConsumer w = [])
             (asrt TIM_cc 1220 (m_allReceivedData w = [])
               (asrt TIM_cc 1221 (m_allSentData w = [])
                 (asrt TIM_cc 1222 (\<not> m_consumerTurnedProducer w)
                   (asrt TIM_cc 1223 (\<not> m_producerTurnedConsumer w) (Inr ()))))))))))"

definition begin_versions :: "htm_params \<Rightarrow> htm_packet \<Rightarrow> xact \<Rightarrow> xact res" where
  "begin_versions c pkt w =
     (if lazy_vm c then
        (if eager_cd c then Inr w
         else rbind (lazy_begin (pkt_requestorId pkt) (pkt_uid pkt) (lvm w)) (\<lambda>l.
              rbind (arb_begin (arb w)) (\<lambda>a. Inr (w\<lparr>lvm := l, arb := a\<rparr>))))
      else rbind (eager_begin (evm w)) (\<lambda>e. Inr (w\<lparr>evm := e\<rparr>)))"

definition begin_outermost :: "htm_params \<Rightarrow> htm_packet \<Rightarrow> xact \<Rightarrow> xact res" where
  "begin_outermost c pkt w =
     asrt TIM_cc 1207 (\<not> m_unrollingLogFlag w)
      (asrt TIM_cc 1208 (tim_currentHtmUid w < pkt_uid pkt)
       (asrt TIM_cc 1209 (m_htmXid w = XID_NONE)
        (rbind (conflict_begin (m_transactionLevel w) (curCycle w) (pkt_power pkt) (conf w)) (\<lambda>s.
           let w1 = w\<lparr>tim_currentHtmUid := pkt_uid pkt, m_htmXid := pkt_xid pkt, iso := iso_begin (iso w), conf := s\<rparr> in
           rbind (if config_allowEarlyValueFwd w1 then begin_fwd_clean c w1 else Inr ()) (\<lambda>_.
           rbind (begin_versions c pkt w1) (\<lambda>w2.
           rbind (isPowered (conf w2)) (\<lambda>_.
             let w3 = w2\<lparr>m_htmstart_tick := pkt_time pkt\<rparr> in
             asrt TIM_cc 1263 (config_allowEarlyValueFwd w3 \<longrightarrow> m_hwTransPrio w3 = NC_PRIO_VALUE) (Inr w3))))))))"

definition beginTransaction :: "htm_params \<Rightarrow> htm_packet \<Rightarrow> xact \<Rightarrow> xact res" where
  "beginTransaction c pkt w =
     asrt TIM_cc 1201 (m_transactionLevel w = 0)
      (asrt TIM_cc 1202 (m_escapeLevel w = 0)
       (asrt TIM_cc 1203 (\<not> m_atCommit w)
         (let w1 = w\<lparr>m_transactionLevel := m_transactionLevel w + 1\<rparr> in
          if m_transactionLevel w1 = 1 then begin_outermost c pkt w1 else Inr w1)))"

section \<open>Start of a commit\<close>

definition canCommitTransaction :: "htm_params \<Rightarrow> xact \<Rightarrow> bool res" where
  "canCommitTransaction c w =
     (if eager_cd c then
        Inr (if config_allowEarlyValueFwd w
             then (if m_abortFlag w then True else m_recvDataForwardedFromProducer w = []) else True)
      else if m_committed (lvm w) then Inr True
      else if m_committing (lvm w) then Inr False
      else rbind (shouldValidateTransaction (arb w)) (\<lambda>v. Inr (v \<and> m_abortFlag w)))"

text \<open>
  A lazy commit first validates and, once validated, flushes the write buffer; the flush profiles
  the written bytes at the other managers, so it returns them too. \<open>issue\<close> says which lines the
  sequencer accepts a request for.
\<close>

definition initiateCommitTransaction ::
    "htm_params \<Rightarrow> (addr \<Rightarrow> bool) \<Rightarrow> xact list \<Rightarrow> lazyvm list \<Rightarrow> xact \<Rightarrow> (lazyvm list \<times> xact) res" where
  "initiateCommitTransaction c issue mgrs remotes w =
     (if config_allowEarlyValueFwd w then asrt TIM_cc 1313 (eager_cd c) (Inr (remotes, w\<lparr>m_atCommit := True\<rparr>))
      else asrt TIM_cc 1321 (\<not> eager_cd c)
        (let w1 = w\<lparr>m_atCommit := True\<rparr> in
         if \<not> m_committed (lvm w1) then
           rbind (shouldValidateTransaction (arb w1)) (\<lambda>v.
             if v \<and> \<not> m_validated (arb w1)
             then rbind (initiateValidateTransaction c mgrs w1) (\<lambda>w2. Inr (remotes, w2))
             else rbind (lazy_commit c (m_transactionLevel w1) issue remotes (lvm w1)) (\<lambda>(rs, l).
                    Inr (rs, w1\<lparr>lvm := l\<rparr>)))
         else Inr (remotes, w1)))"

section \<open>Profiling\<close>

text \<open>
  The statistics of value forwarding: which counter is incremented at which index, in order. A
  sampled distribution is recorded with its value (the delay in ticks instead of cycles).
\<close>

datatype fwd_stat =
  n_modified_produced_data int | htm_forwardings nat | producer_nprod_commit nat | produced_consumed_same
| consumer_nprod_abort nat | delayed_time_fwd_on_abort nat | consumer_nprod_commit nat
| reconsumer_tx int | executed_type_rate nat | powered_tx int | producers_consumers_tx int
| producer_consumer_transactions | consumer_producer_transactions | consumers_tx int | producers_tx int

definition profile_sent :: "bool \<Rightarrow> ProducerInfo \<Rightarrow> fwd_stat list res" where
  "profile_sent aborted p =
     (let fs = forwardings p in
      if fs = [] then Inl (UndefinedAt TIM_cc (if aborted then 1649 else 1654))
      else asrt TIM_cc 1663 (list_all fi_modified (butlast fs))
        (Inr (n_modified_produced_data (timesModifiedAfterSharing p)
              # replicate (length (fi_consumers (last fs)))
                  (htm_forwardings (if aborted then 2 else if fi_modified (last fs) then 1 else 0))
              @ concat (map (\<lambda>f. replicate (length (fi_consumers f)) (htm_forwardings 1)) (rev (butlast fs))))))"

definition profile_role :: "bool \<Rightarrow> int \<Rightarrow> bool \<Rightarrow> bool \<Rightarrow> xact \<Rightarrow> fwd_stat list res" where
  "profile_role aborted idx producer consumed w =
     (let modified = list_ex (\<lambda>e. timesModifiedAfterSharing (snd e) > 0) (m_allSentData w);
          modifiedConsumed = list_ex (\<lambda>e. locallyModified (snd e)) (m_allReceivedData w);
          rate = (\<lambda>k. executed_type_rate (2 * k + (if aborted then 1 else 0))) in
      rbind (isPowered (conf w)) (\<lambda>power.
        if power then
          (if consumed then Inl (PanicAt TIM_cc 1723)
           else if producer then Inr [rate 5, powered_tx (if aborted then idx + 3 else if modified then 2 else 1)]
           else Inr [powered_tx 0, rate 4])
        else if producer \<and> consumed then
          rbind (if m_producerTurnedConsumer w
                 then asrt TIM_cc 1758 (\<not> m_consumerTurnedProducer w) (Inr producer_consumer_transactions)
                 else if m_consumerTurnedProducer w
                 then asrt TIM_cc 1761 (\<not> m_producerTurnedConsumer w) (Inr consumer_producer_transactions)
                 else Inl (PanicAt TIM_cc 1764)) (\<lambda>order.
            Inr [rate 3, producers_consumers_tx (if aborted then idx + 2 else if modified then 1 else 0), order])
        else if consumed then
          Inr [rate 2, consumers_tx (if aborted then idx + 2 else if modifiedConsumed then 1 else 0)]
        else if producer then Inr [rate 1, producers_tx (if aborted then idx + 2 else if modified then 1 else 0)]
        else Inr [rate 0]))"

definition profile_common :: "bool \<Rightarrow> int \<Rightarrow> bool \<Rightarrow> bool \<Rightarrow> bool \<Rightarrow> xact \<Rightarrow> fwd_stat list" where
  "profile_common aborted idx producer consumed both w =
     (let machines = fold mset_insert;
          consumers = fold (\<lambda>e. machines (pi_consumers (snd e))) (m_allSentData w) [];
          prods = fold (\<lambda>e. machines (producers (snd e))) (m_allReceivedData w) [];
          first = foldr (\<lambda>e. min (tickConsumed (snd e))) (m_allReceivedData w) (2 ^ 64 - 1) in
      (if producer then producer_nprod_commit (length consumers) # (if both then [produced_consumed_same] else []) else [])
      @ (if consumed then
           (if aborted then [consumer_nprod_abort (length prods),
                delayed_time_fwd_on_abort (nat ((int (curTick w) - int first) mod 2 ^ 64))]
            else [consumer_nprod_commit (length prods)]) else [])
      @ (if m_reconsumer w then [reconsumer_tx (if aborted then idx + 1 else 0)] else []))"

definition profileHtmFwdTransaction :: "htm_params \<Rightarrow> bool \<Rightarrow> int \<Rightarrow> xact \<Rightarrow> fwd_stat list res" where
  "profileHtmFwdTransaction c aborted idx w =
     rbind (isProducer c w) (\<lambda>producer.
     rbind (if producer then rfold (\<lambda>e st. rbind (profile_sent aborted (snd e)) (\<lambda>x. Inr (st @ x))) (m_allSentData w) []
            else Inr []) (\<lambda>sent.
     rbind (hasConsumedData w) (\<lambda>consumed.
     asrt TIM_cc 1674 (consumed \<longrightarrow> isConsumer w \<and> aborted \<or> \<not> isConsumer w)
     (let both = (producer \<and> list_ex (\<lambda>e. smap_find (m_allReceivedData w) (fst e) \<noteq> None) (m_allSentData w)) in
      asrt TIM_cc 1695 (both \<longrightarrow> consumed)
      (rbind (profile_role aborted idx producer consumed w) (\<lambda>role.
        Inr (sent @ profile_common aborted idx producer consumed both w @ role)))))))"

definition precise_capacity :: "HtmFailureFaultCause \<Rightarrow> xact \<Rightarrow> HtmFailureFaultCause res" where
  "precise_capacity cause w =
     (if cause = SIZE then
        Inr (if m_abortCause w = L2Capacity then SIZE_LLC
             else if m_abortCause w = WrongL0 then SIZE_WRONG_CACHE
             else if m_abortCause w = L1Capacity then SIZE_L1PRIV
             else if m_capacityAbortWriteSet w then SIZE_WSET else SIZE_RSET)
      else asrt TIM_cc 2386 (cause = EXCEPTION \<or> cause = LSQ \<or> cause = INTERRUPT) (Inr cause))"

definition precise_conflict :: "htm_params \<Rightarrow> HtmFailureFaultCause \<Rightarrow> xact \<Rightarrow> HtmFailureFaultCause res" where
  "precise_conflict c cause w =
     (if cause = MEMORY \<or> cause = LSQ then
        asrt TIM_cc 2457 (cause = LSQ \<longrightarrow> \<not> reload_if_stale c)
          (Inr (if m_abortCause w = FallbackLock then MEMORY_FALLBACKLOCK
                else if m_abortCause w = ConflictStale then MEMORY_STALEDATA
                else if m_abortCause w = ConflictPower then MEMORY_POWER
                else if \<not> eager_cd c \<and> lazy_arbitration c = token
                        \<and> m_numReadBytesWrittenRemotely (lvm w) = 0
                        \<and> m_numWrittenBytesWrittenRemotely (lvm w) = 0
                then MEMORY_FALSESHARING else MEMORY))
      else asrt TIM_cc 2484 (cause = EXCEPTION \<or> cause = INTERRUPT) (Inr cause))"

definition precise_cause :: "htm_params \<Rightarrow> HtmFailureFaultCause \<Rightarrow> xact \<Rightarrow> HtmFailureFaultCause res" where
  "precise_cause c cause w =
     (case m_abortCause w of
        Undefined \<Rightarrow>
          asrt TIM_cc 2342 (\<not> isAborting w)
           (asrt TIM_cc 2343 (cause = EXCEPTION \<or> cause = INTERRUPT \<or> cause = DISABLED \<or> cause = LSQ)
             (asrt TIM_cc 2353 (cause = LSQ \<longrightarrow> \<not> reload_if_stale c) (Inr cause)))
      | Explicit \<Rightarrow> asrt TIM_cc 2361 (cause = EXPLICIT \<or> cause = EXPLICIT_FALLBACKLOCK) (Inr cause)
      | L0Capacity \<Rightarrow> precise_capacity cause w
      | L1Capacity \<Rightarrow> precise_capacity cause w
      | L2Capacity \<Rightarrow> precise_capacity cause w
      | WrongL0 \<Rightarrow> precise_capacity cause w
      | ConflictStale \<Rightarrow>
          rbind (if precise_read_set_tracking c then Inr True else checkReadSignature c w (m_abortAddress w)) (\<lambda>r.
            asrt TIM_cc 2399 r (asrt TIM_cc 2401 (cause = MEMORY \<or> cause = LSQ) (Inr MEMORY_STALEDATA)))
      | FallbackLock \<Rightarrow> precise_conflict c cause w
      | ConflictPower \<Rightarrow> precise_conflict c cause w
      | Conflict \<Rightarrow> precise_conflict c cause w
      | IllegalData \<Rightarrow> Inr SPEC_ILLEGAL
      | SpecValidation \<Rightarrow> Inr SPEC_VALIDATION
      | SpecDepthOverflow \<Rightarrow> Inr SPEC_DEPTH
      | SpecMaxCapacityOverflow \<Rightarrow> Inr SPEC_MAX_CAPACITY
      | SpecWriteInFlight \<Rightarrow> Inr SPEC_WRITE_IN_FLIGHT
      | SpecReadConflict \<Rightarrow> Inr SPEC_READ_CONFLICT
      | _ \<Rightarrow> Inl (PanicAt TIM_cc 2511))"

definition profileHtmFailureFaultCause :: "htm_params \<Rightarrow> HtmFailureFaultCause \<Rightarrow> xact \<Rightarrow> (HtmFailureFaultCause \<times> xact) res" where
  "profileHtmFailureFaultCause c cause w =
     asrt TIM_cc 2335 (cause \<noteq> INVALID)
       (let w1 = w\<lparr>m_lastFailureCause := cause\<rparr> in
        rbind (precise_cause c cause w1) (\<lambda>precise.
        rbind (profileHtmFwdTransaction c True (cause_code precise) w1) (\<lambda>_. Inr (precise, w1))))"

section \<open>Commit\<close>

text \<open>
  The cached copy of a line, for the comparison with what was forwarded or nacked: a write hit,
  else a read hit. The second access takes the address as it is.
\<close>

definition cached_copy :: "htm_params \<Rightarrow> xact \<Rightarrow> addr \<Rightarrow> DataBlock option res" where
  "cached_copy c w addr =
     rbind (tryCacheAccess c (line c addr) ST (dcache w)) (\<lambda>hit.
       case hit of Some d \<Rightarrow> Inr (Some d) | None \<Rightarrow> tryCacheAccess c addr LD (dcache w))"

fun nacked_modified :: "htm_params \<Rightarrow> xact \<Rightarrow> (addr, DataBlock) smap \<Rightarrow> bool res" where
  "nacked_modified c w [] = Inr False"
| "nacked_modified c w ((addr, db) # reg) =
     rbind (cached_copy c w addr) (\<lambda>hit.
       if (case hit of None \<Rightarrow> False | Some d \<Rightarrow> \<not> db_equal (getBlockSizeBytes (block_size_bits c)) d db)
       then Inr True else nacked_modified c w reg)"

definition commit_forwarding :: "htm_params \<Rightarrow> xact \<Rightarrow> xact res" where
  "commit_forwarding c w =
     asrt TIM_cc 1450 (\<not> isConsumer w)
      (rbind (hasConsumedData w) (\<lambda>_.
         let w1 = w\<lparr>m_atCommit := False\<rparr> in
         rbind (isProducer c w1) (\<lambda>prod.
         rbind (if prod then rfold (\<lambda>e u. rbind (cached_copy c w1 (fst e)) (\<lambda>_. Inr u))
                               (m_sentDataForwardedToConsumer w1) ()
                else Inr ()) (\<lambda>_.
           asrt TIM_cc 1547 (validationEvent w1 = None)
             (Inr (w1\<lparr>m_sentDataForwardedToConsumer := [], m_hasReceivedDataFromProducer := createInvalidMachineID,
                m_hasSentDataToConsumer := [], m_allReceivedData := [], m_allSentData := [],
                m_consumerTurnedProducer := False, m_producerTurnedConsumer := False,
                m_hasConsumedValidData := False, m_hasValidatedAnyData := False,
                m_dataConsumedFromPower := False, m_consumerLowPrio := False, m_reconsumer := False,
                m_currentValidationAddress := 0\<rparr>))))))"

definition check_nacked :: "htm_params \<Rightarrow> xact \<Rightarrow> xact res" where
  "check_nacked c w =
     (if m_nackedAddressesReg w \<noteq> [] then
        rbind (nacked_modified c w (m_nackedAddressesReg w)) (\<lambda>_. Inr (w\<lparr>m_nackedAddressesReg := []\<rparr>))
      else Inr w)"

definition commit_eager_cd :: "htm_params \<Rightarrow> xact \<Rightarrow> xact res" where
  "commit_eager_cd c w =
     rbind (check_nacked c w) (\<lambda>w1.
     rbind (profileHtmFwdTransaction c False 0 w1) (\<lambda>_.
       if config_allowEarlyValueFwd w1 then commit_forwarding c w1 else Inr w1))"

definition commit_lazy_cd :: "xact \<Rightarrow> xact res" where
  "commit_lazy_cd w =
     asrt TIM_cc 1553 (m_atCommit w)
       (rbind (notifyCommittedTransaction (m_transactionLevel w) (lvm w)) (\<lambda>l.
        rbind (arb_commit (w\<lparr>lvm := l\<rparr>)) (\<lambda>w1. Inr (w1\<lparr>m_atCommit := False\<rparr>))))"

definition commit_log :: "xact \<Rightarrow> xact res" where
  "commit_log w =
     rbind (checkHtmLogPendingClear (dcache w)) (\<lambda>_. Inr (w\<lparr>evm := eager_commit (evm w)\<rparr>))"

text \<open>The read and write sets of the isolation checker, cleared together.\<close>

definition clear_checker_sets :: "htm_params \<Rightarrow> xact \<Rightarrow> xact res" where
  "clear_checker_sets c w =
     (if isolation_checker c then
        rbind (xic_clearReadSet (m_version w) (xic w)) (\<lambda>x.
        rbind (xic_clearWriteSet (m_version w) x) (\<lambda>y. Inr (w\<lparr>xic := y\<rparr>)))
      else Inr w)"

definition cache_store_hit :: "htm_params \<Rightarrow> xact \<Rightarrow> addr \<Rightarrow> DataBlock option" where
  "cache_store_hit c w a = (case tryCacheAccess c a ST (dcache w) of Inr d \<Rightarrow> d | Inl _ \<Rightarrow> None)"

definition commit_outermost :: "htm_params \<Rightarrow> xact \<Rightarrow> xact res" where
  "commit_outermost c w =
     rbind (if value_checker c
            then rbind (xvc_commitTransaction c (m_version w) (cache_store_hit c w) (xvc w)) (\<lambda>x. Inr (w\<lparr>xvc := x\<rparr>))
            else Inr w) (\<lambda>w1.
     rbind (if lazy_vm c then (if eager_cd c then commit_eager_cd c w1 else commit_lazy_cd w1)
            else commit_log w1) (\<lambda>w2.
     rbind (conflict_commit (m_transactionLevel w2) (conf w2)) (\<lambda>s.
     rbind (iso_commit c (iso w2)) (\<lambda>i.
     rbind (clear_checker_sets c (w2\<lparr>conf := s, iso := i\<rparr>)) (\<lambda>w3.
       asrt TIM_cc 1571 (m_writeSetDiscarded w3 = [])
        (asrt TIM_cc 1572 (m_abortCause w3 = Undefined)
          (Inr (w3\<lparr>m_lastFailureCause := INVALID, m_hwTransPrio := NC_PRIO_VALUE, m_retriesTicks := [],
                   m_htmstart_tick := 0\<rparr>))))))))"

definition commitTransaction :: "htm_params \<Rightarrow> xact \<Rightarrow> xact res" where
  "commitTransaction c w =
     (if m_transactionLevel w < 1 then Inl (PanicAt TIM_cc 1350)
      else asrt TIM_cc 1354 (\<not> m_abortFlag w)
       (asrt TIM_cc 1355 (m_htmXid w \<noteq> XID_NONE)
         (rbind (if m_transactionLevel w = 1 then commit_outermost c w else Inr w) (\<lambda>w1.
            Inr (w1\<lparr>m_htmXid := XID_NONE, m_transactionLevel := m_transactionLevel w1 - 1\<rparr>)))))"

section \<open>Abort\<close>

definition discard_written :: "htm_params \<Rightarrow> addr \<Rightarrow> xact \<Rightarrow> xact res" where
  "discard_written c addr w =
     (let discarded = (smap_find (m_writeSetDiscarded w) addr \<noteq> None);
          w1 = w\<lparr>m_writeSetDiscarded := smap_erase addr (m_writeSetDiscarded w)\<rparr> in
      rbind (tryCacheAccess c (line c addr) ST (dcache w1)) (\<lambda>hit.
        if discarded then asrt TIM_cc 1814 (hit = None) (Inr w1)
        else asrt TIM_cc 1816 (hit \<noteq> None)
               (rbind (cache_deallocate c addr (dcache w1)) (\<lambda>m. Inr (w1\<lparr>dcache := m\<rparr>)))))"

definition discardWriteSetFromL1DataCache :: "htm_params \<Rightarrow> xact \<Rightarrow> xact res" where
  "discardWriteSetFromL1DataCache c w =
     rbind (rfold (discard_written c) (getWriteSet (iso w)) w) (\<lambda>w1.
       asrt TIM_cc 1824 (m_writeSetDiscarded w1 = []) (Inr w1))"

definition discard_forwarded :: "htm_params \<Rightarrow> addr \<Rightarrow> xact \<Rightarrow> xact res" where
  "discard_forwarded c addr w =
     rbind (tryCacheAccess c (line c addr) LD (dcache w)) (\<lambda>hit.
       asrt TIM_cc 1841 (hit \<noteq> None)
        (rbind (cache_deallocate c addr (dcache w)) (\<lambda>m.
         rbind (checkWriteSignature c w addr) (\<lambda>wr.
           Inr (if wr then w\<lparr>dcache := m, m_writeSetDiscarded := smap_insert addr CHR ''y'' (m_writeSetDiscarded w)\<rparr>
                else w\<lparr>dcache := m\<rparr>)))))"

definition discardForwardedDataFromL1DataCache :: "htm_params \<Rightarrow> xact \<Rightarrow> xact res" where
  "discardForwardedDataFromL1DataCache c w =
     rfold (discard_forwarded c) (smap_keys (m_recvDataForwardedFromProducer w)) w"

definition abort_forwarding :: "htm_params \<Rightarrow> xact \<Rightarrow> xact res" where
  "abort_forwarding c w =
     rbind (isProducer c w) (\<lambda>_.
     rbind (hasConsumedData w) (\<lambda>_.
     rbind (discardForwardedDataFromL1DataCache c w) (\<lambda>w1.
       Inr (w1\<lparr>m_hasReceivedDataFromProducer := createInvalidMachineID, m_hasSentDataToConsumer := [],
               m_sentDataForwardedToConsumer := [], m_recvDataForwardedFromProducer := [],
               m_allReceivedData := [], m_allSentData := [], m_consumerTurnedProducer := False,
               m_producerTurnedConsumer := False, m_hasConsumedValidData := False,
               m_hasValidatedAnyData := False, m_dataConsumedFromPower := False,
               m_consumerLowPrio := False, m_reconsumer := False, validationEvent := None\<rparr>))))"

definition abort_eager_cd :: "htm_params \<Rightarrow> xact \<Rightarrow> xact res" where
  "abort_eager_cd c w =
     rbind (isPowered (conf w)) (\<lambda>power.
     rbind (let w1 = (if power then w\<lparr>m_nackedAddressesReg := []\<rparr> else w) in
            if config_allowEarlyValueFwd w1 then abort_forwarding c w1 else Inr w1) (\<lambda>w2.
     rbind (discardWriteSetFromL1DataCache c (w2\<lparr>m_hwTransPrio := NC_PRIO_VALUE\<rparr>)) (\<lambda>w3.
       if m_atCommit w3 then asrt TIM_cc 1965 (config_allowEarlyValueFwd w3) (Inr (w3\<lparr>m_atCommit := False\<rparr>))
       else Inr w3)))"

text \<open>
  Why a validated transaction may still abort. \<open>downgrade\<close> is the system setting
  \<^verbatim>\<open>enableL0DowngradeOnL1Gets\<close>.
\<close>

definition validated_abort_cause :: "htm_params \<Rightarrow> bool \<Rightarrow> xact \<Rightarrow> unit res" where
  "validated_abort_cause c downgrade w =
     (case m_abortCause w of
        FallbackLock \<Rightarrow> asrt TIM_cc 2001 (m_abortSourceNonTransactional w \<or> \<not> downgrade) (Inr ())
      | Conflict \<Rightarrow> asrt TIM_cc 2007 (conflict_resolution c = requester_wins) (Inr ())
      | ConflictStale \<Rightarrow> asrt TIM_cc 2007 (conflict_resolution c = requester_wins) (Inr ())
      | L2Capacity \<Rightarrow> Inr ()
      | L1Capacity \<Rightarrow> Inr ()
      | L0Capacity \<Rightarrow> asrt TIM_cc 2016 (m_capacityAbortWriteSet w \<or> \<not> allow_read_set_l0_cache_evictions c) (Inr ())
      | Undefined \<Rightarrow> Inr ()
      | _ \<Rightarrow> Inl (PanicAt TIM_cc 2023))"

definition abort_at_commit :: "htm_params \<Rightarrow> bool \<Rightarrow> xact \<Rightarrow> xact res" where
  "abort_at_commit c downgrade w =
     rbind (if m_committing (lvm w) then
              rbind (if \<not> m_abortFlag w
                     then rbind (cancelWriteBufferFlush (m_transactionLevel w) (lvm w)) (\<lambda>l. Inr (w\<lparr>lvm := l\<rparr>))
                     else Inr w)
                (discardWriteSetFromL1DataCache c)
            else if m_validated (arb w) then rbind (validated_abort_cause c downgrade w) (\<lambda>_. Inr w)
            else asrt TIM_cc 2027 (m_validating (arb w)) (Inr w)) (\<lambda>w1.
       Inr (w1\<lparr>m_atCommit := False\<rparr>))"

definition abort_lazy_cd :: "htm_params \<Rightarrow> bool \<Rightarrow> xact \<Rightarrow> xact res" where
  "abort_lazy_cd c downgrade w =
     rbind (if m_atCommit w then abort_at_commit c downgrade w else Inr w) (\<lambda>w1.
     rbind (lazy_restart (m_transactionLevel w1) (lvm w1)) (\<lambda>l. arb_restart (w1\<lparr>lvm := l\<rparr>)))"

definition abort_lazy_vm :: "htm_params \<Rightarrow> bool \<Rightarrow> htm_packet \<Rightarrow> xact \<Rightarrow> xact res" where
  "abort_lazy_vm c downgrade pkt w =
     rbind (if value_checker c
            then rbind (xvc_restartTransaction c (m_version w) (xvc w)) (\<lambda>x. Inr (w\<lparr>xvc := x\<rparr>))
            else Inr w) (\<lambda>w1.
     rbind (if eager_cd c then abort_eager_cd c w1 else abort_lazy_cd c downgrade w1) (\<lambda>w2.
       clear_checker_sets c
         (w2\<lparr>m_retriesTicks := nat ((int (pkt_time pkt) - int (m_htmstart_tick w2)) mod 2 ^ 64) # m_retriesTicks w2,
             conf := conflict_restart (conf w2), m_htmXid := XID_NONE, iso := releaseIsolation (iso w2)\<rparr>)))"

definition abort_log :: "htm_params \<Rightarrow> xact \<Rightarrow> xact res" where
  "abort_log c w =
     rbind (getLogNumEntries (evm w)) (\<lambda>n.
       if n = 0 then
         rbind (clear_checker_sets c (w\<lparr>iso := releaseIsolation (iso w)\<rparr>)) (\<lambda>w1.
           Inr (w1\<lparr>evm := eager_restart (evm w1), conf := conflict_restart (conf w1)\<rparr>))
       else
         (let w1 = w\<lparr>iso := releaseReadIsolation (iso w)\<rparr> in
          rbind (if isolation_checker c
                 then rbind (xic_clearReadSet (m_version w1) (xic w1)) (\<lambda>x. Inr (w1\<lparr>xic := x\<rparr>))
                 else Inr w1) (\<lambda>w2.
            let ws = getWriteSetSize (iso w2) in
            asrt TIM_cc 2101 (ws = n \<or> ws + 1 = n)
             (asrt TIM_cc 2113 (m_transactionLevel w2 = 1)
               (Inr (w2\<lparr>m_unrollingLogFlag := True, m_escapeLevel := 1\<rparr>))))))"

definition abort_finish :: "htm_params \<Rightarrow> xact \<Rightarrow> xact res" where
  "abort_finish c w =
     rbind (if \<not> eager_cd c \<and> m_atCommit w then
              rbind (shouldValidateTransaction (arb w)) (\<lambda>v.
                if m_validated (arb w)
                then asrt TIM_cc 2120 v (asrt TIM_cc 2121 (conflict_resolution c \<noteq> committer_wins) (Inr ()))
                else if v then Inr () else Inl (PanicAt TIM_cc 2128))
            else asrt TIM_cc 2132 (\<not> config_allowEarlyValueFwd w \<longrightarrow> \<not> m_atCommit w) (Inr ())) (\<lambda>_.
     rbind (if \<not> m_unrollingLogFlag w then Inr (w\<lparr>m_transactionLevel := 0\<rparr>)
            else asrt TIM_cc 2141 (\<not> lazy_vm c)
              (asrt TIM_cc 2142 (m_transactionLevel w = 1)
                (rbind (getLogNumEntries (evm w)) (\<lambda>n. asrt TIM_cc 2143 (n > 0) (Inr w))))) (\<lambda>w1.
       Inr (if m_abortFlag w1
            then w1\<lparr>m_abortFlag := False, m_abortCause := Undefined, m_abortAddress := 0\<rparr> else w1)))"

definition abortTransaction :: "htm_params \<Rightarrow> bool \<Rightarrow> htm_packet \<Rightarrow> xact \<Rightarrow> xact res" where
  "abortTransaction c downgrade pkt w =
     asrt TIM_cc 1862 (m_transactionLevel w = 1)
      (asrt TIM_cc 1863 (m_escapeLevel w = 0)
       (asrt TIM_cc 1864 (m_htmXid w \<noteq> XID_NONE)
        (rbind (profileHtmFailureFaultCause c (pkt_abortCause pkt) w) (\<lambda>(_, w1).
         rbind (if lazy_vm c then abort_lazy_vm c downgrade pkt w1 else abort_log c w1) (abort_finish c)))))"

definition endLogUnroll :: "htm_params \<Rightarrow> xact \<Rightarrow> xact res" where
  "endLogUnroll c w =
     asrt TIM_cc 3110 (m_transactionLevel w = 1)
      (asrt TIM_cc 3111 (m_escapeLevel w = 1)
       (asrt TIM_cc 3112 (\<not> lazy_vm c)
        (asrt TIM_cc 3113 (m_unrollingLogFlag w)
         (rbind (clear_checker_sets c (w\<lparr>evm := eager_restart (evm w), conf := conflict_restart (conf w),
                                           iso := releaseIsolation (iso w)\<rparr>)) (\<lambda>w1.
            let w2 = w1\<lparr>m_escapeLevel := 0, m_transactionLevel := 0, m_unrollingLogFlag := False\<rparr> in
            if value_checker c
            then rbind (xvc_restartTransaction c (m_version w2) (xvc w2)) (\<lambda>x. Inr (w2\<lparr>xvc := x\<rparr>))
            else Inr w2)))))"

section \<open>Between transactions\<close>

text \<open>
  A manager between transactions: no accesses are recorded, nothing is forwarded, the version
  managers and the arbiter are at rest.
\<close>

definition fwd_idle :: "xact \<Rightarrow> bool" where
  "fwd_idle w \<longleftrightarrow>
     m_hasSentDataToConsumer w = [] \<and> m_sentDataForwardedToConsumer w = [] \<and> \<not> isConsumer w
     \<and> m_hasReceivedDataFromProducer w = createInvalidMachineID \<and> m_allReceivedData w = [] \<and> m_allSentData w = []
     \<and> \<not> m_consumerTurnedProducer w \<and> \<not> m_producerTurnedConsumer w \<and> \<not> m_hasConsumedValidData w
     \<and> validationEvent w = None"

definition sets_empty :: "isolation \<Rightarrow> bool" where
  "sets_empty i \<longleftrightarrow> m_readSet i = [] \<and> m_writeSet i = [] \<and> m_writeSetInWriteBuffer i = []"

definition log_ready :: "eagervm \<Rightarrow> bool" where
  "log_ready e \<longleftrightarrow> m_initStatus e = Ready \<and> m_logTLB e \<noteq> []"

definition versions_idle :: "htm_params \<Rightarrow> xact \<Rightarrow> bool" where
  "versions_idle c w \<longleftrightarrow>
     (lazy_vm c \<and> \<not> eager_cd c \<longrightarrow>
        \<not> m_lazyAborting (lvm w) \<and> m_writeBuffer (lvm w) = [] \<and> m_writeBufferBlocks (lvm w) = []
        \<and> \<not> m_validated (arb w) \<and> \<not> m_validating (arb w) \<and> m_currentHtmUid (lvm w) \<le> tim_currentHtmUid w)
     \<and> (\<not> lazy_vm c \<longrightarrow> log_ready (evm w) \<and> m_logNumEntries (evm w) = 0)"

definition idle :: "htm_params \<Rightarrow> xact \<Rightarrow> bool" where
  "idle c w \<longleftrightarrow>
     m_transactionLevel w = 0 \<and> m_escapeLevel w = 0 \<and> \<not> m_atCommit w \<and> \<not> m_unrollingLogFlag w
     \<and> m_htmXid w = XID_NONE \<and> m_hwTransPrio w = NC_PRIO_VALUE \<and> \<not> m_abortFlag w \<and> m_abortCause w = Undefined
     \<and> \<not> m_powered (conf w) \<and> sets_empty (iso w) \<and> fwd_idle w \<and> versions_idle c w"

text \<open>What a manager keeps while a transaction runs.\<close>

definition active :: "htm_params \<Rightarrow> xact \<Rightarrow> bool" where
  "active c w \<longleftrightarrow>
     m_transactionLevel w = 1 \<and> m_escapeLevel w = 0 \<and> \<not> m_unrollingLogFlag w \<and> m_htmXid w \<noteq> XID_NONE
     \<and> (config_allowEarlyValueFwd w \<longrightarrow> lazy_vm c \<and> eager_cd c)
     \<and> (\<not> config_allowEarlyValueFwd w \<longrightarrow> fwd_idle w \<and> m_hwTransPrio w = NC_PRIO_VALUE)
     \<and> (\<not> config_allowEarlyValueFwd w \<and> eager_cd c \<longrightarrow> \<not> m_atCommit w)
     \<and> (\<not> lazy_vm c \<longrightarrow> eager_cd c \<and> log_ready (evm w))
     \<and> (lazy_vm c \<and> \<not> eager_cd c \<longrightarrow> m_currentHtmUid (lvm w) \<le> tim_currentHtmUid w)
     \<and> (\<not> m_abortFlag w \<longrightarrow> m_abortCause w = Undefined)"

lemma clear_checker_shape:
  "clear_checker_sets c w = Inr w' \<Longrightarrow> \<exists>x. w' = w\<lparr>xic := x\<rparr>"
  by (auto simp: clear_checker_sets_def rbind_eq_Inr split: if_splits intro: exI [of _ "xic w"])

lemma conflict_commit_powered:
  "conflict_commit 1 s = Inr s' \<Longrightarrow>
     \<not> m_powered s' \<and> m_default_policy s' = m_default_policy s \<and> m_policy s' = m_policy s"
  by (auto simp: conflict_commit_def asrt_eq_Inr clearPossibleCycle_def)

lemma iso_commit_empty: "iso_commit c i = Inr i' \<Longrightarrow> sets_empty i'"
  by (auto simp: iso_commit_def rbind_eq_Inr sets_empty_def clearReadSetPerfectFilter_def
      clearWriteSetPerfectFilter_def)

lemma releaseIsolation_empty: "sets_empty (releaseIsolation i)"
  by (simp add: releaseIsolation_def sets_empty_def clearReadSetPerfectFilter_def clearWriteSetPerfectFilter_def)

text \<open>The part of the state that the version-management branches of a commit or abort leave alone.\<close>

definition same_control :: "xact \<Rightarrow> xact \<Rightarrow> bool" where
  "same_control w w' \<longleftrightarrow>
     m_transactionLevel w' = m_transactionLevel w \<and> m_escapeLevel w' = m_escapeLevel w
     \<and> m_unrollingLogFlag w' = m_unrollingLogFlag w \<and> m_abortFlag w' = m_abortFlag w
     \<and> m_abortCause w' = m_abortCause w \<and> fwdMechanism w' = fwdMechanism w \<and> m_version w' = m_version w
     \<and> m_htmXid w' = m_htmXid w \<and> tim_currentHtmUid w' = tim_currentHtmUid w
     \<and> prioMechanism w' = prioMechanism w \<and> iso w' = iso w \<and> conf w' = conf w \<and> xic w' = xic w"

text \<open>The configuration that a manager was built with.\<close>

definition same_policy :: "xact \<Rightarrow> xact \<Rightarrow> bool" where
  "same_policy w w' \<longleftrightarrow>
     fwdMechanism w' = fwdMechanism w \<and> prioMechanism w' = prioMechanism w
     \<and> m_default_policy (conf w') = m_default_policy (conf w) \<and> m_policy (conf w') = m_policy (conf w)"

lemma same_control_refl [simp]: "same_control w w"
  by (simp add: same_control_def)

lemma same_control_trans: "same_control u v \<Longrightarrow> same_control v w \<Longrightarrow> same_control u w"
  by (simp add: same_control_def)

lemma commit_forwarding_ends:
  assumes "commit_forwarding c w = Inr w'"
  shows "same_control w w'" "fwd_idle w'" "\<not> m_atCommit w'" "evm w' = evm w" "lvm w' = lvm w" "arb w' = arb w"
  using assms unfolding commit_forwarding_def
  by (auto simp: same_control_def fwd_idle_def isConsumer_def asrt_eq_Inr rbind_eq_Inr Let_def)

lemma check_nacked_shape: "check_nacked c w = Inr w' \<Longrightarrow> \<exists>reg. w' = w\<lparr>m_nackedAddressesReg := reg\<rparr>"
  by (auto simp: check_nacked_def rbind_eq_Inr split: if_splits intro: exI [of _ "m_nackedAddressesReg w"])

lemma commit_eager_cd_ends:
  assumes "commit_eager_cd c w = Inr w'"
  shows "same_control w w' \<and> evm w' = evm w \<and> lvm w' = lvm w \<and> arb w' = arb w
     \<and> (config_allowEarlyValueFwd w \<longrightarrow> fwd_idle w' \<and> \<not> m_atCommit w')
     \<and> (\<not> config_allowEarlyValueFwd w \<longrightarrow> fwd_idle w' = fwd_idle w \<and> m_atCommit w' = m_atCommit w)"
proof -
  obtain reg where reg: "(if config_allowEarlyValueFwd w then commit_forwarding c (w\<lparr>m_nackedAddressesReg := reg\<rparr>)
      else Inr (w\<lparr>m_nackedAddressesReg := reg\<rparr>)) = Inr w'"
  proof -
    obtain w1 where w1: "check_nacked c w = Inr w1"
        and rest: "(if config_allowEarlyValueFwd w1 then commit_forwarding c w1 else Inr w1) = Inr w'"
      using assms unfolding commit_eager_cd_def rbind_eq_Inr by blast
    from check_nacked_shape [OF w1] obtain reg where "w1 = w\<lparr>m_nackedAddressesReg := reg\<rparr>"
      by blast
    with rest show thesis
      by (intro that [of reg]) (cases "fwdMechanism w = no_fwd"; simp add: config_allowEarlyValueFwd_def)
  qed
  show ?thesis
  proof (cases "config_allowEarlyValueFwd w")
    case True
    then show ?thesis
      using reg commit_forwarding_ends [of c "w\<lparr>m_nackedAddressesReg := reg\<rparr>" w'] by (simp add: same_control_def)
  next
    case False
    then have "w' = w\<lparr>m_nackedAddressesReg := reg\<rparr>"
      using reg by simp
    then show ?thesis
      using False by (simp add: same_control_def fwd_idle_def isConsumer_def)
  qed
qed

lemma commit_lazy_cd_ends:
  assumes "commit_lazy_cd w = Inr w'"
  shows "same_control w w' \<and> evm w' = evm w \<and> fwd_idle w' = fwd_idle w \<and> \<not> m_atCommit w'
     \<and> \<not> m_lazyAborting (lvm w') \<and> m_writeBuffer (lvm w') = [] \<and> m_writeBufferBlocks (lvm w') = []
     \<and> \<not> m_validated (arb w') \<and> \<not> m_validating (arb w') \<and> m_currentHtmUid (lvm w') = m_currentHtmUid (lvm w)"
proof -
  obtain l ts where l: "notifyCommittedTransaction (m_transactionLevel w) (lvm w) = Inr l"
      and w': "w' = (with_arb (w\<lparr>lvm := l\<rparr>) ts False False)\<lparr>m_atCommit := False\<rparr>"
    using assms commit_shape unfolding commit_lazy_cd_def asrt_eq_Inr rbind_eq_Inr by blast
  have "\<not> m_lazyAborting l \<and> m_writeBuffer l = [] \<and> m_writeBufferBlocks l = []
      \<and> m_currentHtmUid l = m_currentHtmUid (lvm w)"
    using l by (auto simp: notifyCommittedTransaction_def asrt_eq_Inr Let_def)
  then show ?thesis
    unfolding w' by (simp add: same_control_def fwd_idle_def isConsumer_def with_arb_def)
qed

lemma commit_log_ends:
  "commit_log w = Inr w' \<Longrightarrow> w' = w\<lparr>evm := eager_commit (evm w)\<rparr>"
  by (auto simp: commit_log_def rbind_eq_Inr)


lemma commit_outermost_steps:
  assumes "commit_outermost c w = Inr w'"
  obtains x w2 s i y where "(if lazy_vm c then (if eager_cd c then commit_eager_cd c (w\<lparr>xvc := x\<rparr>)
          else commit_lazy_cd (w\<lparr>xvc := x\<rparr>)) else commit_log (w\<lparr>xvc := x\<rparr>)) = Inr w2"
    and "conflict_commit (m_transactionLevel w2) (conf w2) = Inr s" and "iso_commit c (iso w2) = Inr i"
    and "m_abortCause w2 = Undefined"
    and "w' = w2\<lparr>conf := s, iso := i, xic := y, m_lastFailureCause := INVALID, m_hwTransPrio := NC_PRIO_VALUE,
                m_retriesTicks := [], m_htmstart_tick := 0\<rparr>"
proof -
  obtain w1 w2 s i w3 where w1: "(if value_checker c
            then rbind (xvc_commitTransaction c (m_version w) (cache_store_hit c w) (xvc w)) (\<lambda>x. Inr (w\<lparr>xvc := x\<rparr>))
            else Inr w) = Inr w1"
      and w2: "(if lazy_vm c then (if eager_cd c then commit_eager_cd c w1 else commit_lazy_cd w1)
            else commit_log w1) = Inr w2"
      and s: "conflict_commit (m_transactionLevel w2) (conf w2) = Inr s" and i: "iso_commit c (iso w2) = Inr i"
      and w3: "clear_checker_sets c (w2\<lparr>conf := s, iso := i\<rparr>) = Inr w3"
      and rest: "m_abortCause w3 = Undefined" "w' = w3\<lparr>m_lastFailureCause := INVALID, m_hwTransPrio := NC_PRIO_VALUE,
                m_retriesTicks := [], m_htmstart_tick := 0\<rparr>"
    using assms unfolding commit_outermost_def rbind_eq_Inr asrt_eq_Inr sum.inject by (blast dest: sym)
  have "\<exists>x. w1 = w\<lparr>xvc := x\<rparr>"
    using w1 by (auto simp: rbind_eq_Inr split: if_splits intro: exI [of _ "xvc w"])
  then obtain x where x: "w1 = w\<lparr>xvc := x\<rparr>"
    by blast
  from clear_checker_shape [OF w3] obtain y where y: "w3 = w2\<lparr>conf := s, iso := i, xic := y\<rparr>"
    by blast
  have "m_abortCause w2 = Undefined"
    using rest(1) y by simp
  from that [OF w2 [unfolded x] s i this rest(2) [unfolded y]] show thesis .
qed

lemma commit_outermost_ends:
  assumes run: "commit_outermost c w = Inr w'" and act: "active c w" and nf: "\<not> m_abortFlag w"
  shows "m_transactionLevel w' = 1 \<and> m_escapeLevel w' = 0 \<and> \<not> m_atCommit w' \<and> \<not> m_unrollingLogFlag w'
     \<and> m_hwTransPrio w' = NC_PRIO_VALUE \<and> \<not> m_abortFlag w' \<and> m_abortCause w' = Undefined
     \<and> \<not> m_powered (conf w') \<and> sets_empty (iso w') \<and> fwd_idle w' \<and> versions_idle c w'
     \<and> tim_currentHtmUid w' = tim_currentHtmUid w \<and> same_policy w w'"
proof -
  obtain x w2 s i y where branch: "(if lazy_vm c then (if eager_cd c then commit_eager_cd c (w\<lparr>xvc := x\<rparr>)
          else commit_lazy_cd (w\<lparr>xvc := x\<rparr>)) else commit_log (w\<lparr>xvc := x\<rparr>)) = Inr w2"
      and s: "conflict_commit (m_transactionLevel w2) (conf w2) = Inr s" and i: "iso_commit c (iso w2) = Inr i"
      and cause: "m_abortCause w2 = Undefined"
      and w': "w' = w2\<lparr>conf := s, iso := i, xic := y, m_lastFailureCause := INVALID, m_hwTransPrio := NC_PRIO_VALUE,
                      m_retriesTicks := [], m_htmstart_tick := 0\<rparr>"
    by (rule commit_outermost_steps [OF run])
  let ?w1 = "w\<lparr>xvc := x\<rparr>"
  have 1: "fwd_idle ?w1 = fwd_idle w" "same_control w ?w1"
    by (simp_all add: fwd_idle_def isConsumer_def same_control_def)
  have a: "config_allowEarlyValueFwd ?w1 = config_allowEarlyValueFwd w"
    by (simp add: config_allowEarlyValueFwd_def)
  have "same_control ?w1 w2 \<and> fwd_idle w2 \<and> \<not> m_atCommit w2 \<and> versions_idle c w2"
  proof (cases "lazy_vm c")
    case True
    then show ?thesis
      using branch act commit_eager_cd_ends [of c ?w1 w2] commit_lazy_cd_ends [of ?w1 w2] 1 a
      by (cases "eager_cd c") (auto simp: versions_idle_def active_def same_control_def)
  next
    case False
    then have "w2 = ?w1\<lparr>evm := eager_commit (evm w)\<rparr>"
      using branch commit_log_ends [of ?w1 w2] by simp
    then show ?thesis
      using act False by (simp add: versions_idle_def active_def same_control_def fwd_idle_def isConsumer_def
          log_ready_def eager_commit_def)
  qed
  moreover have "sets_empty i"
    by (rule iso_commit_empty [OF i])
  moreover have "same_control w w2"
    using calculation(1) 1(2) same_control_trans by blast
  moreover have "\<not> m_powered s \<and> m_default_policy s = m_default_policy (conf w2) \<and> m_policy s = m_policy (conf w2)"
    using s act \<open>same_control w w2\<close> by (intro conflict_commit_powered [of "conf w2"]) (simp add: same_control_def active_def)
  ultimately show ?thesis
    unfolding w' using act nf cause
    by (auto simp: same_control_def same_policy_def active_def fwd_idle_def isConsumer_def versions_idle_def)
qed

section \<open>What an abort discards\<close>

definition writable :: "(addr, cache_line) smap \<Rightarrow> addr \<Rightarrow> bool" where
  "writable m a \<longleftrightarrow> (\<exists>e. smap_find m a = Some e \<and> m_Permission e = Read_Write)"

lemma store_access:
  "a = line c a \<Longrightarrow> tryCacheAccess c a ST m =
     Inr (case smap_find m a of Some e \<Rightarrow> if m_Permission e = Read_Write then Some (m_DataBlk e) else None | None \<Rightarrow> None)"
  by (auto simp: tryCacheAccess_def cache_lookup_def split: option.splits)

lemma deallocate_shape: "cache_deallocate c a m = Inr m' \<Longrightarrow> m' = smap_erase a m"
  by (auto simp: cache_deallocate_def rbind_eq_Inr asrt_eq_Inr)

lemma discard_written_step:
  assumes "discard_written c a w = Inr w'" and "a = line c a"
  shows "\<exists>m d. w' = w\<lparr>m_writeSetDiscarded := d, dcache := m\<rparr> \<and> \<not> writable m a
     \<and> (\<forall>b. b \<noteq> a \<longrightarrow> smap_find m b = smap_find (dcache w) b)
     \<and> (smap_find (dcache w) a = None \<longrightarrow> smap_find m a = None)"
proof -
  let ?w1 = "w\<lparr>m_writeSetDiscarded := smap_erase a (m_writeSetDiscarded w)\<rparr>"
  let ?hit = "case smap_find (dcache w) a of Some e \<Rightarrow> if m_Permission e = Read_Write then Some (m_DataBlk e) else None
                | None \<Rightarrow> None"
  from assms have "if smap_find (m_writeSetDiscarded w) a \<noteq> None then ?hit = None \<and> w' = ?w1
      else (\<exists>m. cache_deallocate c a (dcache w) = Inr m \<and> w' = ?w1\<lparr>dcache := m\<rparr>)"
    unfolding discard_written_def Let_def
    by (auto simp: store_access asrt_eq_Inr rbind_eq_Inr simp flip: assms(2) split: if_splits)
  then show ?thesis
  proof (cases "smap_find (m_writeSetDiscarded w) a = None")
    case True
    with \<open>if _ then _ else _\<close> obtain m where "cache_deallocate c a (dcache w) = Inr m" "w' = ?w1\<lparr>dcache := m\<rparr>"
      by auto
    then show ?thesis
      by (intro exI [of _ m] exI [of _ "smap_erase a (m_writeSetDiscarded w)"])
        (auto simp: writable_def dest!: deallocate_shape)
  next
    case False
    with \<open>if _ then _ else _\<close> have "?hit = None" "w' = ?w1"
      by auto
    then show ?thesis
      by (intro exI [of _ "dcache w"] exI [of _ "smap_erase a (m_writeSetDiscarded w)"])
        (auto simp: writable_def split: option.splits if_splits)
  qed
qed

lemma discard_written_fold:
  assumes "rfold (discard_written c) as w = Inr w'" and "\<forall>a \<in> set as. a = line c a"
  shows "\<exists>m d. w' = w\<lparr>m_writeSetDiscarded := d, dcache := m\<rparr> \<and> (\<forall>a \<in> set as. \<not> writable m a)
     \<and> (\<forall>b. b \<notin> set as \<longrightarrow> smap_find m b = smap_find (dcache w) b)
     \<and> (\<forall>b. smap_find (dcache w) b = None \<longrightarrow> smap_find m b = None)
     \<and> (\<forall>b. \<not> writable (dcache w) b \<longrightarrow> \<not> writable m b)"
  using assms
proof (induction "as" arbitrary: w)
  case Nil
  then show ?case
    by (intro exI [of _ "dcache w"] exI [of _ "m_writeSetDiscarded w"]) simp
next
  case (Cons a "as")
  then obtain u where u: "discard_written c a w = Inr u" and rest: "rfold (discard_written c) as u = Inr w'"
    by (auto simp: rbind_eq_Inr)
  from discard_written_step [OF u] Cons(3) obtain m d where step: "u = w\<lparr>m_writeSetDiscarded := d, dcache := m\<rparr>"
      "\<not> writable m a" "\<forall>b. b \<noteq> a \<longrightarrow> smap_find m b = smap_find (dcache w) b"
      "smap_find (dcache w) a = None \<longrightarrow> smap_find m a = None"
    by auto
  from Cons(1) [OF rest] Cons(3) obtain m' d' where fin: "w' = u\<lparr>m_writeSetDiscarded := d', dcache := m'\<rparr>"
      "\<forall>a \<in> set as. \<not> writable m' a" "\<forall>b. b \<notin> set as \<longrightarrow> smap_find m' b = smap_find (dcache u) b"
      "\<forall>b. smap_find (dcache u) b = None \<longrightarrow> smap_find m' b = None"
      "\<forall>b. \<not> writable (dcache u) b \<longrightarrow> \<not> writable m' b"
    by auto
  have "w' = w\<lparr>m_writeSetDiscarded := d', dcache := m'\<rparr>"
    using step(1) fin(1) by simp
  moreover have "\<not> writable m' b" if "\<not> writable (dcache w) b" for b
  proof (cases "b = a")
    case False
    then have "writable m b = writable (dcache w) b"
      using step(3) by (simp add: writable_def)
    then show ?thesis
      using that step(1) fin(5) by simp
  qed (use step fin(5) in simp)
  moreover have "smap_find m' b = None" if "smap_find (dcache w) b = None" for b
    using that step fin(4) by (cases "b = a") auto
  ultimately show ?case
    using step fin by (intro exI [of _ m'] exI [of _ d']) auto
qed

lemma discard_update_order:
  "w\<lparr>dcache := m, m_writeSetDiscarded := d\<rparr> = w\<lparr>m_writeSetDiscarded := d, dcache := m\<rparr>" for w :: xact
  by (cases w) simp

lemma discard_forwarded_step:
  assumes "discard_forwarded c a w = Inr w'"
  shows "\<exists>m d. w' = w\<lparr>m_writeSetDiscarded := d, dcache := m\<rparr> \<and> m = smap_erase a (dcache w)"
proof -
  obtain m wr where "cache_deallocate c a (dcache w) = Inr m"
      and w': "w' = (if wr then w\<lparr>dcache := m, m_writeSetDiscarded := smap_insert a CHR ''y'' (m_writeSetDiscarded w)\<rparr>
                     else w\<lparr>dcache := m\<rparr>)"
    using assms unfolding discard_forwarded_def rbind_eq_Inr asrt_eq_Inr sum.inject by (blast dest: sym)
  then have m: "m = smap_erase a (dcache w)"
    by (simp add: deallocate_shape)
  show ?thesis
  proof (cases wr)
    case True
    let ?d = "smap_insert a CHR ''y'' (m_writeSetDiscarded w)"
    have "w' = w\<lparr>dcache := m, m_writeSetDiscarded := ?d\<rparr>"
      using w' True by simp
    also have "\<dots> = w\<lparr>m_writeSetDiscarded := ?d, dcache := m\<rparr>"
      by (rule discard_update_order)
    finally show ?thesis
      using m by blast
  next
    case False
    then show ?thesis
      using w' m by (auto intro: exI [of _ "m_writeSetDiscarded w"])
  qed
qed

lemma discard_forwarded_fold:
  assumes "rfold (discard_forwarded c) as w = Inr w'"
  shows "\<exists>m d. w' = w\<lparr>m_writeSetDiscarded := d, dcache := m\<rparr> \<and> (\<forall>a \<in> set as. smap_find m a = None)
     \<and> (\<forall>b. b \<notin> set as \<longrightarrow> smap_find m b = smap_find (dcache w) b)"
  using assms
proof (induction "as" arbitrary: w)
  case Nil
  then show ?case
    by (intro exI [of _ "dcache w"] exI [of _ "m_writeSetDiscarded w"]) simp
next
  case (Cons a "as")
  then obtain u where u: "discard_forwarded c a w = Inr u" and rest: "rfold (discard_forwarded c) as u = Inr w'"
    by (auto simp: rbind_eq_Inr)
  from discard_forwarded_step [OF u] obtain d where step: "u = w\<lparr>m_writeSetDiscarded := d, dcache := smap_erase a (dcache w)\<rparr>"
    by auto
  from Cons(1) [OF rest] obtain m' d' where fin: "w' = u\<lparr>m_writeSetDiscarded := d', dcache := m'\<rparr>"
      "\<forall>a \<in> set as. smap_find m' a = None" "\<forall>b. b \<notin> set as \<longrightarrow> smap_find m' b = smap_find (dcache u) b"
    by auto
  have "w' = w\<lparr>m_writeSetDiscarded := d', dcache := m'\<rparr>"
    using step(1) fin(1) by simp
  moreover have "\<forall>b \<in> set (a # as). smap_find m' b = None"
    using step fin(2,3) by (cases "a \<in> set as") auto
  moreover have "\<forall>b. b \<notin> set (a # as) \<longrightarrow> smap_find m' b = smap_find (dcache w) b"
    using step fin(3) by auto
  ultimately show ?case
    by blast
qed

abbreviation consumed_lines :: "xact \<Rightarrow> addr set" where
  "consumed_lines w \<equiv> set (smap_keys (m_recvDataForwardedFromProducer w))"

definition same_managers :: "xact \<Rightarrow> xact \<Rightarrow> bool" where
  "same_managers w w' \<longleftrightarrow> evm w' = evm w \<and> lvm w' = lvm w \<and> arb w' = arb w \<and> m_atCommit w' = m_atCommit w"

lemma abort_forwarding_ends:
  assumes "abort_forwarding c w = Inr w'"
  shows "same_control w w'" "same_managers w w'" "fwd_idle w'"
    "\<forall>a \<in> consumed_lines w. smap_find (dcache w') a = None"
    "\<forall>b. b \<notin> consumed_lines w \<longrightarrow> smap_find (dcache w') b = smap_find (dcache w) b"
proof -
  obtain w1 where w1: "discardForwardedDataFromL1DataCache c w = Inr w1"
      and w': "w' = w1\<lparr>m_hasReceivedDataFromProducer := createInvalidMachineID, m_hasSentDataToConsumer := [],
               m_sentDataForwardedToConsumer := [], m_recvDataForwardedFromProducer := [],
               m_allReceivedData := [], m_allSentData := [], m_consumerTurnedProducer := False,
               m_producerTurnedConsumer := False, m_hasConsumedValidData := False,
               m_hasValidatedAnyData := False, m_dataConsumedFromPower := False,
               m_consumerLowPrio := False, m_reconsumer := False, validationEvent := None\<rparr>"
    using assms unfolding abort_forwarding_def rbind_eq_Inr sum.inject by (blast dest: sym)
  from discard_forwarded_fold [OF w1 [unfolded discardForwardedDataFromL1DataCache_def]]
  obtain m d where "w1 = w\<lparr>m_writeSetDiscarded := d, dcache := m\<rparr>"
      and m: "\<forall>a \<in> consumed_lines w. smap_find m a = None"
         "\<forall>b. b \<notin> consumed_lines w \<longrightarrow> smap_find m b = smap_find (dcache w) b"
    by blast
  then show "same_control w w'" "same_managers w w'" "fwd_idle w'"
    and "\<forall>a \<in> consumed_lines w. smap_find (dcache w') a = None"
    and "\<forall>b. b \<notin> consumed_lines w \<longrightarrow> smap_find (dcache w') b = smap_find (dcache w) b"
    using w' by (simp_all add: same_control_def same_managers_def fwd_idle_def isConsumer_def)
qed

lemma discardWriteSet_ends:
  assumes "discardWriteSetFromL1DataCache c w = Inr w'" and "iso_ok c (iso w)"
  shows "\<exists>m d. w' = w\<lparr>m_writeSetDiscarded := d, dcache := m\<rparr> \<and> (\<forall>a \<in> writes (iso w). \<not> writable m a)
     \<and> (\<forall>b. b \<notin> writes (iso w) \<longrightarrow> smap_find m b = smap_find (dcache w) b)
     \<and> (\<forall>b. smap_find (dcache w) b = None \<longrightarrow> smap_find m b = None)"
proof -
  have "rfold (discard_written c) (getWriteSet (iso w)) w = Inr w'"
    using assms(1) by (auto simp: discardWriteSetFromL1DataCache_def rbind_eq_Inr asrt_eq_Inr)
  moreover have "set (getWriteSet (iso w)) = writes (iso w)" "\<forall>a \<in> writes (iso w). a = line c a"
    using assms(2) getWriteSet_eq by (auto simp: iso_ok_def)
  ultimately show ?thesis
    using discard_written_fold [of c "getWriteSet (iso w)" w w'] by (simp only:) blast
qed

text \<open>The abort of a system with eager conflicts and lazy versions in the cache.\<close>

lemma abort_eager_steps:
  assumes "abort_eager_cd c w = Inr w'"
  obtains reg w2 w3 where
    "(if config_allowEarlyValueFwd w then abort_forwarding c (w\<lparr>m_nackedAddressesReg := reg\<rparr>)
      else Inr (w\<lparr>m_nackedAddressesReg := reg\<rparr>)) = Inr w2"
    "discardWriteSetFromL1DataCache c (w2\<lparr>m_hwTransPrio := NC_PRIO_VALUE\<rparr>) = Inr w3"
    "m_atCommit w3 \<longrightarrow> config_allowEarlyValueFwd w3" "w' = w3\<lparr>m_atCommit := False\<rparr>"
proof -
  obtain power w2 w3 where w2: "(let w1 = (if power then w\<lparr>m_nackedAddressesReg := []\<rparr> else w) in
            if config_allowEarlyValueFwd w1 then abort_forwarding c w1 else Inr w1) = Inr w2"
      and w3: "discardWriteSetFromL1DataCache c (w2\<lparr>m_hwTransPrio := NC_PRIO_VALUE\<rparr>) = Inr w3"
      and end3: "(if m_atCommit w3 then asrt TIM_cc 1965 (config_allowEarlyValueFwd w3) (Inr (w3\<lparr>m_atCommit := False\<rparr>))
                  else Inr w3) = Inr w'"
    using assms unfolding abort_eager_cd_def rbind_eq_Inr by blast
  define reg where "reg = (if power then [] else m_nackedAddressesReg w)"
  have "(if power then w\<lparr>m_nackedAddressesReg := []\<rparr> else w) = w\<lparr>m_nackedAddressesReg := reg\<rparr>"
    by (simp add: reg_def)
  with w2 have "(if config_allowEarlyValueFwd w then abort_forwarding c (w\<lparr>m_nackedAddressesReg := reg\<rparr>)
      else Inr (w\<lparr>m_nackedAddressesReg := reg\<rparr>)) = Inr w2"
    by (simp add: Let_def config_allowEarlyValueFwd_def)
  moreover have "m_atCommit w3 \<longrightarrow> config_allowEarlyValueFwd w3" "w' = w3\<lparr>m_atCommit := False\<rparr>"
    using end3 by (cases "m_atCommit w3"; simp add: asrt_eq_Inr)+
  ultimately show thesis
    using w3 that by blast
qed

lemma abort_eager_cd_ends:
  assumes run: "abort_eager_cd c w = Inr w'" and ok: "iso_ok c (iso w)"
    and fwd: "\<not> config_allowEarlyValueFwd w \<longrightarrow> fwd_idle w"
  shows "same_control w w' \<and> fwd_idle w' \<and> \<not> m_atCommit w' \<and> m_hwTransPrio w' = NC_PRIO_VALUE
     \<and> evm w' = evm w \<and> lvm w' = lvm w \<and> arb w' = arb w"
    "\<forall>a \<in> writes (iso w). \<not> writable (dcache w') a"
    "\<forall>a \<in> consumed_lines w. smap_find (dcache w') a = None"
    "\<forall>b. b \<notin> writes (iso w) \<union> consumed_lines w \<longrightarrow> smap_find (dcache w') b = smap_find (dcache w) b"
proof -
  from abort_eager_steps [OF run] obtain reg w2 w3 where
    w2: "(if config_allowEarlyValueFwd w then abort_forwarding c (w\<lparr>m_nackedAddressesReg := reg\<rparr>)
      else Inr (w\<lparr>m_nackedAddressesReg := reg\<rparr>)) = Inr w2"
    and w3: "discardWriteSetFromL1DataCache c (w2\<lparr>m_hwTransPrio := NC_PRIO_VALUE\<rparr>) = Inr w3"
    and w': "w' = w3\<lparr>m_atCommit := False\<rparr>"
    by metis
  have 2: "same_control w w2 \<and> same_managers w w2 \<and> fwd_idle w2
      \<and> (\<forall>a \<in> consumed_lines w. smap_find (dcache w2) a = None)
      \<and> (\<forall>b. b \<notin> consumed_lines w \<longrightarrow> smap_find (dcache w2) b = smap_find (dcache w) b)"
  proof (cases "config_allowEarlyValueFwd w")
    case True
    with w2 have "abort_forwarding c (w\<lparr>m_nackedAddressesReg := reg\<rparr>) = Inr w2"
      by simp
    from abort_forwarding_ends [OF this] show ?thesis
      by (simp add: same_control_def same_managers_def)
  next
    case False
    then have "w2 = w\<lparr>m_nackedAddressesReg := reg\<rparr>" "fwd_idle w"
      using w2 fwd by auto
    then show ?thesis
      by (simp add: same_control_def same_managers_def fwd_idle_def isConsumer_def smap_keys_def)
  qed
  then have "iso_ok c (iso (w2\<lparr>m_hwTransPrio := NC_PRIO_VALUE\<rparr>))" and iso2: "iso w2 = iso w"
    using ok by (simp_all add: same_control_def)
  from discardWriteSet_ends [OF w3 this(1)] obtain m d where
    3: "w3 = w2\<lparr>m_hwTransPrio := NC_PRIO_VALUE, m_writeSetDiscarded := d, dcache := m\<rparr>"
    and m: "\<forall>a \<in> writes (iso w). \<not> writable m a" "\<forall>b. b \<notin> writes (iso w) \<longrightarrow> smap_find m b = smap_find (dcache w2) b"
      "\<forall>b. smap_find (dcache w2) b = None \<longrightarrow> smap_find m b = None"
    by (auto simp: iso2)
  show "same_control w w' \<and> fwd_idle w' \<and> \<not> m_atCommit w' \<and> m_hwTransPrio w' = NC_PRIO_VALUE
     \<and> evm w' = evm w \<and> lvm w' = lvm w \<and> arb w' = arb w"
    unfolding w' 3 using 2 by (simp add: same_control_def same_managers_def fwd_idle_def isConsumer_def)
  show "\<forall>a \<in> writes (iso w). \<not> writable (dcache w') a"
    and "\<forall>a \<in> consumed_lines w. smap_find (dcache w') a = None"
    and "\<forall>b. b \<notin> writes (iso w) \<union> consumed_lines w \<longrightarrow> smap_find (dcache w') b = smap_find (dcache w) b"
    unfolding w' 3 using 2 m by simp_all
qed

text \<open>The abort of a system with lazy conflicts and a write buffer.\<close>

definition same_fwd :: "xact \<Rightarrow> xact \<Rightarrow> bool" where
  "same_fwd w w' \<longleftrightarrow> fwd_idle w' = fwd_idle w \<and> m_hwTransPrio w' = m_hwTransPrio w
     \<and> m_currentHtmUid (lvm w') = m_currentHtmUid (lvm w)"

lemma same_fwd_refl [simp]: "same_fwd w w"
  by (simp add: same_fwd_def)

lemma abort_at_commit_ends:
  assumes run: "abort_at_commit c dg w = Inr w'" and ok: "iso_ok c (iso w)"
  shows "same_control w w' \<and> same_fwd w w' \<and> \<not> m_atCommit w'"
proof -
  obtain w1 where w': "w' = w1\<lparr>m_atCommit := False\<rparr>"
      and w1: "(if m_committing (lvm w) then
              rbind (if \<not> m_abortFlag w
                     then rbind (cancelWriteBufferFlush (m_transactionLevel w) (lvm w)) (\<lambda>l. Inr (w\<lparr>lvm := l\<rparr>))
                     else Inr w)
                (discardWriteSetFromL1DataCache c)
            else if m_validated (arb w) then rbind (validated_abort_cause c dg w) (\<lambda>_. Inr w)
            else asrt TIM_cc 2027 (m_validating (arb w)) (Inr w)) = Inr w1"
    using run unfolding abort_at_commit_def rbind_eq_Inr sum.inject by (blast dest: sym)
  show ?thesis
  proof (cases "m_committing (lvm w)")
    case True
    then obtain w0 where w0: "(if \<not> m_abortFlag w
             then rbind (cancelWriteBufferFlush (m_transactionLevel w) (lvm w)) (\<lambda>l. Inr (w\<lparr>lvm := l\<rparr>))
             else Inr w) = Inr w0" and d: "discardWriteSetFromL1DataCache c w0 = Inr w1"
      using w1 by (auto simp: rbind_eq_Inr)
    have "\<exists>l. w0 = w\<lparr>lvm := l\<rparr> \<and> m_currentHtmUid l = m_currentHtmUid (lvm w)"
      using w0 by (auto simp: rbind_eq_Inr cancelWriteBufferFlush_def asrt_eq_Inr Let_def split: if_splits
          intro: exI [of _ "lvm w"])
    then obtain l where l: "w0 = w\<lparr>lvm := l\<rparr>" "m_currentHtmUid l = m_currentHtmUid (lvm w)"
      by blast
    then have "iso_ok c (iso w0)"
      using ok by simp
    from discardWriteSet_ends [OF d this] obtain m e where "w1 = w0\<lparr>m_writeSetDiscarded := e, dcache := m\<rparr>"
      by blast
    then show ?thesis
      using w' l by (simp add: same_control_def same_fwd_def fwd_idle_def isConsumer_def)
  next
    case False
    then have "w1 = w"
      using w1 by (auto simp: rbind_eq_Inr asrt_eq_Inr split: if_splits)
    then show ?thesis
      using w' by (simp add: same_control_def same_fwd_def fwd_idle_def isConsumer_def)
  qed
qed

lemma abort_lazy_cd_ends:
  assumes run: "abort_lazy_cd c dg w = Inr w'" and ok: "iso_ok c (iso w)"
  shows "same_control w w' \<and> same_fwd w w' \<and> \<not> m_atCommit w'
     \<and> \<not> m_lazyAborting (lvm w') \<and> m_writeBuffer (lvm w') = [] \<and> m_writeBufferBlocks (lvm w') = []
     \<and> \<not> m_validated (arb w') \<and> \<not> m_validating (arb w')"
proof -
  obtain w1 l where w1: "(if m_atCommit w then abort_at_commit c dg w else Inr w) = Inr w1"
      and l: "lazy_restart (m_transactionLevel w1) (lvm w1) = Inr l" and a: "arb_restart (w1\<lparr>lvm := l\<rparr>) = Inr w'"
    using run unfolding abort_lazy_cd_def rbind_eq_Inr by blast
  have 1: "same_control w w1 \<and> same_fwd w w1 \<and> \<not> m_atCommit w1"
    using w1 abort_at_commit_ends [OF _ ok] by (cases "m_atCommit w") auto
  have 2: "\<not> m_lazyAborting l \<and> m_writeBuffer l = [] \<and> m_writeBufferBlocks l = []
      \<and> m_currentHtmUid l = m_currentHtmUid (lvm w1)"
    using l by (auto simp: lazy_restart_def discardWriteBuffer_def rbind_eq_Inr asrt_eq_Inr Let_def)
  from restart_shape [OF a] obtain ts where w': "w' = with_arb (w1\<lparr>lvm := l\<rparr>) ts False False"
    by blast
  show ?thesis
    unfolding w' using 1 2 by (simp add: same_control_def same_fwd_def fwd_idle_def isConsumer_def with_arb_def)
qed

text \<open>Every abort with lazy versions ends between transactions.\<close>

lemma abort_lazy_vm_steps:
  assumes "abort_lazy_vm c dg pkt w = Inr w'"
  obtains x w2 y rt where "(if eager_cd c then abort_eager_cd c (w\<lparr>xvc := x\<rparr>) else abort_lazy_cd c dg (w\<lparr>xvc := x\<rparr>)) = Inr w2"
    "w' = w2\<lparr>m_retriesTicks := rt, conf := conflict_restart (conf w2), m_htmXid := XID_NONE,
            iso := releaseIsolation (iso w2), xic := y\<rparr>"
proof -
  obtain w1 w2 where w1: "(if value_checker c
            then rbind (xvc_restartTransaction c (m_version w) (xvc w)) (\<lambda>x. Inr (w\<lparr>xvc := x\<rparr>)) else Inr w) = Inr w1"
      and w2: "(if eager_cd c then abort_eager_cd c w1 else abort_lazy_cd c dg w1) = Inr w2"
      and w3: "clear_checker_sets c
         (w2\<lparr>m_retriesTicks := nat ((int (pkt_time pkt) - int (m_htmstart_tick w2)) mod 2 ^ 64) # m_retriesTicks w2,
             conf := conflict_restart (conf w2), m_htmXid := XID_NONE, iso := releaseIsolation (iso w2)\<rparr>) = Inr w'"
    using assms unfolding abort_lazy_vm_def rbind_eq_Inr by blast
  have "\<exists>x. w1 = w\<lparr>xvc := x\<rparr>"
    using w1 by (auto simp: rbind_eq_Inr split: if_splits intro: exI [of _ "xvc w"])
  with w2 clear_checker_shape [OF w3] that show thesis
    by blast
qed

lemma abort_finish_ends:
  assumes "abort_finish c w = Inr w'" and "\<not> m_unrollingLogFlag w"
  shows "w' = (if m_abortFlag w
     then w\<lparr>m_transactionLevel := 0, m_abortFlag := False, m_abortCause := Undefined, m_abortAddress := 0\<rparr>
     else w\<lparr>m_transactionLevel := 0\<rparr>)"
  using assms by (auto simp: abort_finish_def rbind_eq_Inr)

lemma profile_failure_shape:
  "profileHtmFailureFaultCause c cause w = Inr (p, w') \<Longrightarrow> w' = w\<lparr>m_lastFailureCause := cause\<rparr>"
  by (auto simp: profileHtmFailureFaultCause_def rbind_eq_Inr asrt_eq_Inr Let_def)

lemma abort_lazy_steps:
  assumes "abortTransaction c dg pkt w = Inr w'" and "lazy_vm c" and "\<not> m_unrollingLogFlag w"
  obtains f x w2 y rt where
    "(if eager_cd c then abort_eager_cd c (w\<lparr>m_lastFailureCause := f, xvc := x\<rparr>)
      else abort_lazy_cd c dg (w\<lparr>m_lastFailureCause := f, xvc := x\<rparr>)) = Inr w2"
    "abort_finish c (w2\<lparr>m_retriesTicks := rt, conf := conflict_restart (conf w2), m_htmXid := XID_NONE,
       iso := releaseIsolation (iso w2), xic := y\<rparr>) = Inr w'"
proof -
  obtain p w1 w3 where w1: "profileHtmFailureFaultCause c (pkt_abortCause pkt) w = Inr (p, w1)"
      and w3: "abort_lazy_vm c dg pkt w1 = Inr w3" and fin: "abort_finish c w3 = Inr w'"
    using assms(1,2) unfolding abortTransaction_def asrt_eq_Inr rbind_pair_eq_Inr
    by (auto simp: rbind_eq_Inr)
  from abort_lazy_vm_steps [OF w3 [unfolded profile_failure_shape [OF w1]]] that fin show thesis
    by metis
qed

lemma abort_lazy_idle:
  assumes run: "abortTransaction c dg pkt w = Inr w'" and lv: "lazy_vm c" and act: "active c w" and ok: "iso_ok c (iso w)"
  shows "idle c w' \<and> tim_currentHtmUid w' = tim_currentHtmUid w \<and> same_policy w w'"
proof -
  have nu: "\<not> m_unrollingLogFlag w"
    using act by (simp add: active_def)
  from abort_lazy_steps [OF run lv nu] obtain f x w2 y rt where
    w2: "(if eager_cd c then abort_eager_cd c (w\<lparr>m_lastFailureCause := f, xvc := x\<rparr>)
      else abort_lazy_cd c dg (w\<lparr>m_lastFailureCause := f, xvc := x\<rparr>)) = Inr w2"
    and fin: "abort_finish c (w2\<lparr>m_retriesTicks := rt, conf := conflict_restart (conf w2), m_htmXid := XID_NONE,
       iso := releaseIsolation (iso w2), xic := y\<rparr>) = Inr w'"
    by metis
  let ?w1 = "w\<lparr>m_lastFailureCause := f, xvc := x\<rparr>"
  have 1: "same_control w ?w1" "iso_ok c (iso ?w1)" "fwd_idle ?w1 = fwd_idle w"
      "config_allowEarlyValueFwd ?w1 = config_allowEarlyValueFwd w"
    using ok by (simp_all add: same_control_def fwd_idle_def isConsumer_def config_allowEarlyValueFwd_def)
  have 2: "same_control ?w1 w2 \<and> fwd_idle w2 \<and> \<not> m_atCommit w2 \<and> m_hwTransPrio w2 = NC_PRIO_VALUE \<and> versions_idle c w2"
  proof (cases "eager_cd c")
    case True
    then have "abort_eager_cd c ?w1 = Inr w2"
      using w2 by simp
    from abort_eager_cd_ends(1) [OF this 1(2)] show ?thesis
      using act lv True 1(3,4) by (auto simp: active_def versions_idle_def)
  next
    case False
    then have "abort_lazy_cd c dg ?w1 = Inr w2"
      using w2 by simp
    from abort_lazy_cd_ends [OF this 1(2)] show ?thesis
      using act lv False 1(3,4) by (auto simp: active_def versions_idle_def same_control_def same_fwd_def)
  qed
  have c: "same_control w w2"
    using 1(1) 2 same_control_trans by blast
  have "\<not> m_unrollingLogFlag (w2\<lparr>m_retriesTicks := rt, conf := conflict_restart (conf w2), m_htmXid := XID_NONE,
       iso := releaseIsolation (iso w2), xic := y\<rparr>)"
    using c nu by (simp add: same_control_def)
  from abort_finish_ends [OF fin this] show ?thesis
    using act c 2 releaseIsolation_empty [of "iso w2"]
    by (auto simp: idle_def active_def same_control_def same_policy_def fwd_idle_def isConsumer_def versions_idle_def
        conflict_restart_def clearPossibleCycle_def)
qed

section \<open>Starting again\<close>

lemma begin_fwd_clean_idle: "fwd_idle w \<Longrightarrow> begin_fwd_clean c w = Inr ()"
  by (simp add: begin_fwd_clean_def fwd_idle_def isProducer_def hasConsumedData_def)

lemma isProducer_idle: "fwd_idle w \<Longrightarrow> isProducer c w = Inr False"
  by (simp add: isProducer_def fwd_idle_def)

text \<open>The packet of a begin that the manager accepts.\<close>

definition begin_packet_ok :: "htm_packet \<Rightarrow> xact \<Rightarrow> bool" where
  "begin_packet_ok pkt w \<longleftrightarrow>
     tim_currentHtmUid w < pkt_uid pkt \<and> pkt_xid pkt \<noteq> XID_NONE
     \<and> (pkt_power pkt \<longrightarrow> isPowerTMPolicy (conf w))"

definition fwd_config_ok :: "htm_params \<Rightarrow> xact \<Rightarrow> bool" where
  "fwd_config_ok c w \<longleftrightarrow>
     (config_allowEarlyValueFwd w \<longrightarrow> lazy_vm c \<and> eager_cd c) \<and> (\<not> lazy_vm c \<longrightarrow> eager_cd c)"

lemma conflict_begin_ok:
  assumes "pkt_power pkt \<longrightarrow> isPowerTMPolicy s" and "\<not> m_powered s"
  obtains s' where "conflict_begin 1 now (pkt_power pkt) s = Inr s'" "isPowered s' = Inr (pkt_power pkt)"
  using assms that
  by (cases "pkt_power pkt"; cases "m_lock_timestamp s")
    (auto simp: conflict_begin_def isPowered_def isPowerTMPolicy_def Let_def)

lemma begin_versions_idle:
  assumes "versions_idle c w" and "lazy_vm c \<and> \<not> eager_cd c \<longrightarrow> m_currentHtmUid (lvm w) < pkt_uid pkt"
  shows "\<exists>l. begin_versions c pkt w = Inr (w\<lparr>lvm := l\<rparr>)
     \<and> (lazy_vm c \<and> \<not> eager_cd c \<longrightarrow> m_currentHtmUid l \<le> pkt_uid pkt)"
proof (cases "lazy_vm c \<and> \<not> eager_cd c")
  case True
  let ?l = "(lvm w)\<lparr>m_committed := False, m_committing := False,
            m_requestorID := Some (pkt_requestorId pkt), m_currentHtmUid := pkt_uid pkt\<rparr>"
  have "lazy_begin (pkt_requestorId pkt) (pkt_uid pkt) (lvm w) = Inr ?l" "arb_begin (arb w) = Inr (arb w)"
    using assms True by (simp_all add: lazy_begin_def arb_begin_def versions_idle_def)
  then show ?thesis
    using True by (intro exI [of _ ?l]) (simp add: begin_versions_def)
next
  case False
  then show ?thesis
    using assms(1) by (intro exI [of _ "lvm w"]) (auto simp: begin_versions_def versions_idle_def eager_begin_def log_ready_def)
qed

lemma begin_from_idle:
  assumes idle: "idle c w" and cfg: "fwd_config_ok c w" and pkt: "begin_packet_ok pkt w"
  shows "\<exists>w'. beginTransaction c pkt w = Inr w' \<and> active c w' \<and> sets_empty (iso w')
           \<and> tim_currentHtmUid w' = pkt_uid pkt"
proof -
  obtain s where s: "conflict_begin 1 (curCycle w) (pkt_power pkt) (conf w) = Inr s"
      "isPowered s = Inr (pkt_power pkt)"
    using conflict_begin_ok pkt idle unfolding begin_packet_ok_def idle_def by blast
  let ?w0 = "w\<lparr>m_transactionLevel := 1\<rparr>"
  let ?w1 = "?w0\<lparr>tim_currentHtmUid := pkt_uid pkt, m_htmXid := pkt_xid pkt, iso := iso_begin (iso w), conf := s\<rparr>"
  have f1: "fwd_idle ?w1"
    using idle by (simp add: idle_def fwd_idle_def isConsumer_def)
  have v1: "versions_idle c ?w1"
    using idle pkt by (auto simp: idle_def versions_idle_def begin_packet_ok_def)
  have uid1: "lazy_vm c \<and> \<not> eager_cd c \<longrightarrow> m_currentHtmUid (lvm ?w1) < pkt_uid pkt"
    using idle pkt by (auto simp: idle_def versions_idle_def begin_packet_ok_def)
  from begin_versions_idle [OF v1 uid1] obtain l where branch: "begin_versions c pkt ?w1 = Inr (?w1\<lparr>lvm := l\<rparr>)"
      and uid: "lazy_vm c \<and> \<not> eager_cd c \<longrightarrow> m_currentHtmUid l \<le> pkt_uid pkt"
    by blast
  let ?w3 = "?w1\<lparr>lvm := l, m_htmstart_tick := pkt_time pkt\<rparr>"
  have "begin_outermost c pkt ?w0 = Inr ?w3"
    using idle pkt s branch begin_fwd_clean_idle [OF f1]
    by (simp add: begin_outermost_def idle_def begin_packet_ok_def Let_def)
  then have "beginTransaction c pkt w = Inr ?w3"
    using idle by (simp add: beginTransaction_def idle_def)
  moreover have "active c ?w3"
    using idle cfg pkt uid f1
    by (auto simp: active_def idle_def fwd_config_ok_def begin_packet_ok_def versions_idle_def
        config_allowEarlyValueFwd_def fwd_idle_def isConsumer_def)
  moreover have "sets_empty (iso ?w3)"
    using idle by (simp add: idle_def sets_empty_def iso_begin_def)
  ultimately show ?thesis
    by (intro exI [of _ ?w3]) simp
qed

lemma commit_idle:
  assumes run: "commitTransaction c w = Inr w'" and act: "active c w"
  shows "idle c w' \<and> tim_currentHtmUid w' = tim_currentHtmUid w \<and> same_policy w w'"
proof -
  have lvl: "m_transactionLevel w = 1"
    using act by (simp add: active_def)
  obtain w1 where nf: "\<not> m_abortFlag w" and w1: "commit_outermost c w = Inr w1"
      and w': "w' = w1\<lparr>m_htmXid := XID_NONE, m_transactionLevel := m_transactionLevel w1 - 1\<rparr>"
    using run unfolding commitTransaction_def lvl by (auto simp: asrt_eq_Inr rbind_eq_Inr)
  from commit_outermost_ends [OF w1 act nf] show ?thesis
    unfolding w' by (auto simp: idle_def same_policy_def fwd_idle_def isConsumer_def versions_idle_def)
qed

section \<open>Aborts complete\<close>

text \<open>
  What the processor reports for an abort that the memory system signalled: the cause the packet
  carries, or an exception or interrupt that came first.
\<close>

fun cpu_causes :: "AbortCause \<Rightarrow> HtmFailureFaultCause list" where
  "cpu_causes Undefined = [EXCEPTION, INTERRUPT, DISABLED]"
| "cpu_causes Explicit = [EXPLICIT, EXPLICIT_FALLBACKLOCK]"
| "cpu_causes L0Capacity = [SIZE, EXCEPTION, INTERRUPT]"
| "cpu_causes L1Capacity = [SIZE, EXCEPTION, INTERRUPT]"
| "cpu_causes L2Capacity = [SIZE, EXCEPTION, INTERRUPT]"
| "cpu_causes FallbackLock = [MEMORY, EXCEPTION, INTERRUPT]"
| "cpu_causes ConflictPower = [MEMORY, EXCEPTION, INTERRUPT]"
| "cpu_causes Conflict = [MEMORY, EXCEPTION, INTERRUPT]"
| "cpu_causes _ = []"

definition lines_held :: "xact \<Rightarrow> bool" where
  "lines_held w \<longleftrightarrow>
     (\<forall>a \<in> writes (iso w). smap_find (m_writeSetDiscarded w) a = None \<longleftrightarrow> writable (dcache w) a)
     \<and> set (smap_keys (m_writeSetDiscarded w)) \<subseteq> writes (iso w)"

definition checkers_sized :: "htm_params \<Rightarrow> xact \<Rightarrow> bool" where
  "checkers_sized c w \<longleftrightarrow>
     (isolation_checker c \<longrightarrow> m_version w < length (xic_readSet (xic w)) \<and> m_version w < length (xic_writeSet (xic w)))
     \<and> (value_checker c \<longrightarrow> m_version w < length (xvc_writeBuffer (xvc w)) \<and> m_version w < length (xvc_writeBufferBlocks (xvc w)))"

lemma profile_fwd_idle:
  assumes "fwd_idle w" and "isPowered (conf w) = Inr b"
  shows "\<exists>st. profileHtmFwdTransaction c aborted idx w = Inr st"
proof -
  have "hasConsumedData w = Inr False" "m_allSentData w = []"
    using assms(1) by (simp_all add: hasConsumedData_def fwd_idle_def)
  then show ?thesis
    by (simp add: profileHtmFwdTransaction_def profile_role_def isProducer_idle [OF assms(1)] assms(2) Let_def)
qed

lemma precise_cause_ok:
  assumes "cause \<in> set (cpu_causes (m_abortCause w))" and "m_abortCause w = Undefined \<longrightarrow> \<not> isAborting w"
  shows "\<exists>p. precise_cause c cause w = Inr p"
  using assms
  by (cases "m_abortCause w") (auto simp: precise_cause_def precise_capacity_def precise_conflict_def)

lemma clear_checker_ok:
  assumes "isolation_checker c \<longrightarrow> m_version w < length (xic_readSet (xic w)) \<and> m_version w < length (xic_writeSet (xic w))"
  shows "\<exists>x. clear_checker_sets c w = Inr (w\<lparr>xic := x\<rparr>)"
  using assms
  by (cases "isolation_checker c")
    (auto simp: clear_checker_sets_def xic_clearReadSet_def xic_clearWriteSet_def
      intro: exI [of _ "xic w"])

lemma discard_written_ok:
  assumes "a = line c a" and "smap_find (m_writeSetDiscarded w) a = None \<longleftrightarrow> writable (dcache w) a"
  shows "\<exists>w'. discard_written c a w = Inr w' \<and> m_writeSetDiscarded w' = smap_erase a (m_writeSetDiscarded w)
     \<and> (\<forall>b. b \<noteq> a \<longrightarrow> writable (dcache w') b = writable (dcache w) b)"
proof (cases "writable (dcache w) a")
  case True
  then obtain e where e: "smap_find (dcache w) a = Some e" "m_Permission e = Read_Write"
    by (auto simp: writable_def)
  then have "cache_deallocate c a (dcache w) = Inr (smap_erase a (dcache w))"
    using assms(1) by (simp add: cache_deallocate_def cache_lookup_def)
  then show ?thesis
    using e assms True by (simp add: discard_written_def store_access writable_def Let_def flip: assms(1))
next
  case False
  then show ?thesis
    using assms by (auto simp: discard_written_def store_access writable_def Let_def simp flip: assms(1) split: option.splits)
qed

lemma discard_fold_ok:
  assumes "distinct as" and "\<forall>a \<in> set as. a = line c a"
    and "\<forall>a \<in> set as. smap_find (m_writeSetDiscarded w) a = None \<longleftrightarrow> writable (dcache w) a"
  shows "\<exists>w'. rfold (discard_written c) as w = Inr w'
     \<and> (\<forall>b. smap_find (m_writeSetDiscarded w') b = (if b \<in> set as then None else smap_find (m_writeSetDiscarded w) b))"
  using assms
proof (induction "as" arbitrary: w)
  case (Cons a "as")
  from discard_written_ok [of a c w] Cons(3,4) obtain u where u: "discard_written c a w = Inr u"
      "m_writeSetDiscarded u = smap_erase a (m_writeSetDiscarded w)"
      "\<forall>b. b \<noteq> a \<longrightarrow> writable (dcache u) b = writable (dcache w) b"
    by auto
  have "\<forall>b \<in> set as. smap_find (m_writeSetDiscarded u) b = None \<longleftrightarrow> writable (dcache u) b"
    using u(2,3) Cons(2,4) by (metis distinct.simps(2) list.set_intros(2) smap_find_erase)
  with Cons(1) [of u] Cons(2,3) obtain w' where "rfold (discard_written c) as u = Inr w'"
      "\<forall>b. smap_find (m_writeSetDiscarded w') b = (if b \<in> set as then None else smap_find (m_writeSetDiscarded u) b)"
    by auto
  then show ?case
    using u(1,2) by (intro exI [of _ w']) auto
qed simp

lemma discardWriteSet_ok:
  assumes "iso_ok c (iso w)" and "lines_held w"
  shows "\<exists>w'. discardWriteSetFromL1DataCache c w = Inr w'"
proof -
  have ws: "distinct (getWriteSet (iso w))" "set (getWriteSet (iso w)) = writes (iso w)"
      "\<forall>a \<in> writes (iso w). a = line c a"
    using assms(1) getWriteSet_eq by (auto simp: iso_ok_def)
  with discard_fold_ok [of "getWriteSet (iso w)" c w] assms(2) obtain w' where
    w': "rfold (discard_written c) (getWriteSet (iso w)) w = Inr w'"
      "\<forall>b. smap_find (m_writeSetDiscarded w') b = (if b \<in> writes (iso w) then None else smap_find (m_writeSetDiscarded w) b)"
    by (auto simp: lines_held_def)
  have "m_writeSetDiscarded w' = []"
    using w'(2) assms(2) by (auto simp: lines_held_def smap_empty_iff smap_keys_find)
  then show ?thesis
    using w'(1) by (simp add: discardWriteSetFromL1DataCache_def)
qed

lemma abort_eager_cache:
  assumes run: "abortTransaction c dg pkt w = Inr w'" and sys: "lazy_vm c" "eager_cd c" and act: "active c w"
    and ok: "iso_ok c (iso w)"
  shows "\<forall>a \<in> writes (iso w). \<not> writable (dcache w') a"
    "\<forall>a \<in> consumed_lines w. smap_find (dcache w') a = None"
    "\<forall>b. b \<notin> writes (iso w) \<union> consumed_lines w \<longrightarrow> smap_find (dcache w') b = smap_find (dcache w) b"
proof -
  have nu: "\<not> m_unrollingLogFlag w"
    using act by (simp add: active_def)
  from abort_lazy_steps [OF run sys(1) nu] sys(2) obtain f x w2 y rt where
    w2: "abort_eager_cd c (w\<lparr>m_lastFailureCause := f, xvc := x\<rparr>) = Inr w2"
    and fin: "abort_finish c (w2\<lparr>m_retriesTicks := rt, conf := conflict_restart (conf w2), m_htmXid := XID_NONE,
       iso := releaseIsolation (iso w2), xic := y\<rparr>) = Inr w'"
    by metis
  let ?w1 = "w\<lparr>m_lastFailureCause := f, xvc := x\<rparr>"
  have 1: "iso_ok c (iso ?w1)" "\<not> config_allowEarlyValueFwd ?w1 \<longrightarrow> fwd_idle ?w1"
    using ok act by (simp_all add: active_def fwd_idle_def isConsumer_def config_allowEarlyValueFwd_def)
  note ends = abort_eager_cd_ends [OF w2 1]
  have "\<not> m_unrollingLogFlag (w2\<lparr>m_retriesTicks := rt, conf := conflict_restart (conf w2), m_htmXid := XID_NONE,
       iso := releaseIsolation (iso w2), xic := y\<rparr>)"
    using ends(1) nu by (simp add: same_control_def)
  from abort_finish_ends [OF fin this] have "dcache w' = dcache w2"
    by (simp split: if_splits)
  then show "\<forall>a \<in> writes (iso w). \<not> writable (dcache w') a"
    and "\<forall>a \<in> consumed_lines w. smap_find (dcache w') a = None"
    and "\<forall>b. b \<notin> writes (iso w) \<union> consumed_lines w \<longrightarrow> smap_find (dcache w') b = smap_find (dcache w) b"
    using ends(2-4) by simp_all
qed

lemma value_restart_ok:
  assumes "checkers_sized c w" and "lazy_vm c"
  shows "\<exists>x. (if value_checker c
            then rbind (xvc_restartTransaction c (m_version w) (xvc w)) (\<lambda>x. Inr (w\<lparr>xvc := x\<rparr>))
            else Inr w) = Inr (w\<lparr>xvc := x\<rparr>)"
  using assms
  by (cases "value_checker c")
    (auto simp: xvc_restartTransaction_def xvc_discardWriteBuffer_def checkers_sized_def intro: exI [of _ "xvc w"])

lemma abort_eager_cd_ok:
  assumes "\<not> config_allowEarlyValueFwd w" and "iso_ok c (iso w)" and "lines_held w" and "\<not> m_atCommit w"
    and "isPowered (conf w) = Inr b"
  shows "\<exists>w'. abort_eager_cd c w = Inr w'"
proof -
  define w2 where "w2 = (if b then w\<lparr>m_nackedAddressesReg := []\<rparr> else w)\<lparr>m_hwTransPrio := NC_PRIO_VALUE\<rparr>"
  have "iso_ok c (iso w2)" "lines_held w2"
    using assms(2,3) by (simp_all add: w2_def lines_held_def)
  from discardWriteSet_ok [OF this] obtain w3 where w3: "discardWriteSetFromL1DataCache c w2 = Inr w3"
    by blast
  from discardWriteSet_ends [OF w3 \<open>iso_ok c (iso w2)\<close>] have "\<not> m_atCommit w3"
    using assms(4) by (auto simp: w2_def split: if_splits)
  moreover have "\<not> config_allowEarlyValueFwd (if b then w\<lparr>m_nackedAddressesReg := []\<rparr> else w)"
    using assms(1) by (simp add: config_allowEarlyValueFwd_def)
  ultimately show ?thesis
    using w3 assms(5) by (simp add: abort_eager_cd_def Let_def flip: w2_def)
qed

lemma abort_eager_vm_ok:
  assumes sys: "lazy_vm c" "eager_cd c" and iso: "iso_ok c (iso w)" and held: "lines_held w"
    and w: "\<not> m_atCommit w" "\<not> config_allowEarlyValueFwd w" and sized: "checkers_sized c w"
    and fwd: "fwd_idle w" and pow: "isPowered (conf w) = Inr b"
  shows "\<exists>w'. abort_lazy_vm c dg pkt w = Inr w' \<and> \<not> m_atCommit w' \<and> m_unrollingLogFlag w' = m_unrollingLogFlag w"
proof -
  from value_restart_ok [OF sized sys(1)] obtain x where x: "(if value_checker c
            then rbind (xvc_restartTransaction c (m_version w) (xvc w)) (\<lambda>x. Inr (w\<lparr>xvc := x\<rparr>))
            else Inr w) = Inr (w\<lparr>xvc := x\<rparr>)"
    by blast
  let ?w1 = "w\<lparr>xvc := x\<rparr>"
  have pre: "\<not> config_allowEarlyValueFwd ?w1" "iso_ok c (iso ?w1)" "lines_held ?w1" "\<not> m_atCommit ?w1"
    "isPowered (conf ?w1) = Inr b" "fwd_idle ?w1"
    using assms by (simp_all add: lines_held_def config_allowEarlyValueFwd_def fwd_idle_def isConsumer_def)
  from abort_eager_cd_ok [OF pre(1-5)] obtain w2 where w2: "abort_eager_cd c ?w1 = Inr w2"
    by blast
  have e2: "same_control ?w1 w2 \<and> \<not> m_atCommit w2"
    using abort_eager_cd_ends(1) [OF w2 pre(2)] pre(6) by blast
  define w3 where "w3 = w2\<lparr>m_retriesTicks := nat ((int (pkt_time pkt) - int (m_htmstart_tick w2)) mod 2 ^ 64) # m_retriesTicks w2,
             conf := conflict_restart (conf w2), m_htmXid := XID_NONE, iso := releaseIsolation (iso w2)\<rparr>"
  have "isolation_checker c \<longrightarrow> m_version w3 < length (xic_readSet (xic w3)) \<and> m_version w3 < length (xic_writeSet (xic w3))"
    using sized e2 by (simp add: w3_def checkers_sized_def same_control_def)
  from clear_checker_ok [OF this] obtain y where y: "clear_checker_sets c w3 = Inr (w3\<lparr>xic := y\<rparr>)"
    by blast
  have "abort_lazy_vm c dg pkt w = Inr (w3\<lparr>xic := y\<rparr>)"
    unfolding abort_lazy_vm_def x using w2 y sys(2) by (simp add: w3_def)
  then show ?thesis
    using e2 by (simp add: w3_def same_control_def)
qed

lemma abort_finish_ok:
  assumes "\<not> m_atCommit w" and "\<not> m_unrollingLogFlag w"
  shows "\<exists>w'. abort_finish c w = Inr w'"
  using assms by (simp add: abort_finish_def)

lemma abort_log_ends:
  assumes "abort_log c w = Inr w'"
  shows "m_htmXid w' = m_htmXid w \<and> m_atCommit w' = m_atCommit w \<and> tim_currentHtmUid w' = tim_currentHtmUid w
    \<and> (m_unrollingLogFlag w' = m_unrollingLogFlag w \<and> m_escapeLevel w' = m_escapeLevel w \<or> m_unrollingLogFlag w')"
proof -
  obtain n :: nat where "if n = 0
      then (\<exists>w1. clear_checker_sets c (w\<lparr>iso := releaseIsolation (iso w)\<rparr>) = Inr w1
              \<and> w' = w1\<lparr>evm := eager_restart (evm w1), conf := conflict_restart (conf w1)\<rparr>)
      else (\<exists>x. w' = w\<lparr>iso := releaseReadIsolation (iso w), xic := x, m_unrollingLogFlag := True, m_escapeLevel := 1\<rparr>)"
  proof -
    obtain n :: nat where "(if n = 0 then
         rbind (clear_checker_sets c (w\<lparr>iso := releaseIsolation (iso w)\<rparr>)) (\<lambda>w1.
           Inr (w1\<lparr>evm := eager_restart (evm w1), conf := conflict_restart (conf w1)\<rparr>))
       else
         (let w1 = w\<lparr>iso := releaseReadIsolation (iso w)\<rparr> in
          rbind (if isolation_checker c
                 then rbind (xic_clearReadSet (m_version w1) (xic w1)) (\<lambda>x. Inr (w1\<lparr>xic := x\<rparr>))
                 else Inr w1) (\<lambda>w2.
            let ws = getWriteSetSize (iso w2) in
            asrt TIM_cc 2101 (ws = n \<or> ws + 1 = n)
             (asrt TIM_cc 2113 (m_transactionLevel w2 = 1)
               (Inr (w2\<lparr>m_unrollingLogFlag := True, m_escapeLevel := 1\<rparr>)))))) = Inr w'"
      using assms unfolding abort_log_def rbind_eq_Inr by blast
    then show thesis
      by (intro that [of n]; cases "n = 0"; cases "isolation_checker c")
        (auto simp: rbind_eq_Inr asrt_eq_Inr Let_def intro: exI [of _ "xic w"])
  qed
  then show ?thesis
    by (cases "n = 0") (auto dest!: clear_checker_shape)
qed

lemma abort_finish_fields:
  assumes "abort_finish c w = Inr w'"
  shows "m_htmXid w' = m_htmXid w \<and> m_atCommit w' = m_atCommit w \<and> tim_currentHtmUid w' = tim_currentHtmUid w
    \<and> m_unrollingLogFlag w' = m_unrollingLogFlag w \<and> m_escapeLevel w' = m_escapeLevel w
    \<and> (\<not> m_unrollingLogFlag w \<longrightarrow> m_transactionLevel w' = 0)"
  using assms by (auto simp: abort_finish_def rbind_eq_Inr asrt_eq_Inr split: if_splits)

lemma endLogUnroll_fields:
  assumes "endLogUnroll c w = Inr w'"
  shows "m_htmXid w' = m_htmXid w \<and> m_atCommit w' = m_atCommit w \<and> tim_currentHtmUid w' = tim_currentHtmUid w
    \<and> \<not> m_unrollingLogFlag w' \<and> m_escapeLevel w' = 0 \<and> m_transactionLevel w' = 0"
  using assms
  by (auto simp: endLogUnroll_def rbind_eq_Inr asrt_eq_Inr Let_def split: if_splits dest!: clear_checker_shape)

lemma abort_eager_total:
  assumes act: "active c w" and sys: "lazy_vm c" "eager_cd c" "\<not> config_allowEarlyValueFwd w"
    and ok: "iso_ok c (iso w)" "policy_ok c w" "checkers_sized c w" "lines_held w"
    and cause: "pkt_abortCause pkt \<in> set (cpu_causes (m_abortCause w))"
    and flag: "m_abortCause w = Undefined \<longrightarrow> \<not> m_abortFlag w"
  shows "\<exists>w'. abortTransaction c dg pkt w = Inr w' \<and> idle c w'"
proof -
  let ?w1 = "w\<lparr>m_lastFailureCause := pkt_abortCause pkt\<rparr>"
  have "pkt_abortCause pkt \<noteq> INVALID"
    using cause by (cases "m_abortCause w") auto
  moreover obtain p where "precise_cause c (pkt_abortCause pkt) ?w1 = Inr p"
    using precise_cause_ok [of "pkt_abortCause pkt" ?w1 c] cause flag by (auto simp: isAborting_def)
  moreover have f1: "fwd_idle ?w1" "isPowered (conf ?w1) = Inr (m_powered (conf w))"
    using act sys(3) policy_ok_simps(4) [OF ok(2)] by (simp_all add: active_def fwd_idle_def isConsumer_def)
  ultimately have prof: "profileHtmFailureFaultCause c (pkt_abortCause pkt) w = Inr (p, ?w1)"
    using profile_fwd_idle [OF f1, of c True "cause_code p"] by (auto simp: profileHtmFailureFaultCause_def Let_def)
  have "iso_ok c (iso ?w1)" "lines_held ?w1" "\<not> m_atCommit ?w1" "\<not> config_allowEarlyValueFwd ?w1" "checkers_sized c ?w1"
    using ok act sys by (simp_all add: lines_held_def active_def config_allowEarlyValueFwd_def checkers_sized_def)
  from abort_eager_vm_ok [OF sys(1,2) this f1] act obtain w3 where
    w3: "abort_lazy_vm c dg pkt ?w1 = Inr w3" "\<not> m_atCommit w3" "\<not> m_unrollingLogFlag w3"
    by (auto simp: active_def)
  then obtain w' where "abort_finish c w3 = Inr w'"
    using abort_finish_ok by blast
  then have "abortTransaction c dg pkt w = Inr w'"
    using act prof w3 sys(1) by (simp add: abortTransaction_def active_def)
  then show ?thesis
    using abort_lazy_idle [OF _ sys(1) act ok(1)] by blast
qed

section \<open>The role of a transaction\<close>

definition tx_role :: "bool \<Rightarrow> bool \<Rightarrow> bool \<Rightarrow> nat" where
  "tx_role powered producer consumed =
     (if powered then (if producer then 5 else 4)
      else if producer \<and> consumed then 3 else if consumed then 2 else if producer then 1 else 0)"

fun counts_role :: "fwd_stat \<Rightarrow> bool" where
  "counts_role (executed_type_rate k) = True"
| "counts_role _ = False"

abbreviation rates :: "fwd_stat list \<Rightarrow> fwd_stat list" where
  "rates st \<equiv> filter counts_role st"

lemma rates_sent:
  assumes "rfold (\<lambda>e st. rbind (profile_sent ab (snd e)) (\<lambda>x. Inr (st @ x))) es st0 = Inr st"
  shows "rates st = rates st0"
proof (rule rfold_invariant [OF assms, where P = "\<lambda>st. rates st = rates st0"])
  fix e t t'
  assume "rates t = rates st0" and "rbind (profile_sent ab (snd e)) (\<lambda>x. Inr (t @ x)) = Inr t'"
  then show "rates t' = rates st0"
    by (auto simp: rbind_eq_Inr asrt_eq_Inr profile_sent_def Let_def filter_concat comp_def split: if_splits)
qed simp

lemma rates_common: "rates (profile_common ab idx p d both w) = []"
  by (simp add: profile_common_def Let_def)

lemma rates_role:
  assumes "profile_role ab idx p d w = Inr st" and "isPowered (conf w) = Inr b"
  shows "rates st = [executed_type_rate (2 * tx_role b p d + (if ab then 1 else 0))]"
  using assms by (auto simp: profile_role_def tx_role_def rbind_eq_Inr asrt_eq_Inr Let_def split: if_splits)

section \<open>Examples\<close>

definition interrupt_packet :: "nat \<Rightarrow> htm_packet" where
  "interrupt_packet u = \<lparr>pkt_uid = u, pkt_xid = 3, pkt_power = False, pkt_requestorId = 1, pkt_time = 9000,
     pkt_abortCause = INTERRUPT\<rparr>"

definition writing_tx :: xact where
  "writing_tx = (running_tx el_params)\<lparr>iso := iso_init\<lparr>m_writeSet := [(0x1200, RETIRED_STORE)]\<rparr>,
     dcache := [(0x1200, \<lparr>m_Permission = Read_Write, m_DataBlk = replicate 64 1, m_htmLogPending = False\<rparr>),
                (0x1240, \<lparr>m_Permission = Read_Only, m_DataBlk = replicate 64 2, m_htmLogPending = False\<rparr>)]\<rparr>"

lemma el_params_more [simp]:
  "getFwdMechanism el_params = no_fwd" "\<not> value_checker el_params" "\<not> isolation_checker default_params"
  "getHwPrioMechanism el_params = no_prio"
  by (simp_all add: el_params_def default_params_def getFwdMechanism_def getHwPrioMechanism_def)

lemma running_fwd_idle [simp]: "fwd_idle (running_tx c)"
  by (simp add: fwd_idle_def running_tx_def tim_build_def isConsumer_def)

lemma writing_sel [simp]:
  "writes (iso writing_tx) = {0x1200}" "m_recvDataForwardedFromProducer writing_tx = []"
  "m_abortCause writing_tx = Undefined" "m_abortFlag writing_tx = False" "fwdMechanism writing_tx = no_fwd"
  "\<not> config_allowEarlyValueFwd writing_tx" "tim_currentHtmUid writing_tx = 7"
  by (simp_all add: writing_tx_def running_tx_def tim_build_def writes_def smap_keys_def iso_init_def
      config_allowEarlyValueFwd_def)

lemma writing_active: "active el_params writing_tx"
proof -
  have "fwd_idle writing_tx"
    using running_fwd_idle [of el_params] by (simp add: writing_tx_def fwd_idle_def isConsumer_def)
  then show ?thesis
    by (simp add: active_def) (simp add: writing_tx_def running_tx_def tim_build_def XID_NONE_def)
qed

lemma writing_ok:
  "iso_ok el_params (iso writing_tx)" "policy_ok el_params writing_tx" "checkers_sized el_params writing_tx"
  "lines_held writing_tx"
proof -
  show "iso_ok el_params (iso writing_tx)"
    by (simp add: iso_ok_def writing_tx_def iso_init_def reads_def writes_def smap_keys_def example_lines)
  show "policy_ok el_params writing_tx"
    using running_tx_ok [of el_params] by (simp add: xact_ok_def policy_ok_def writing_tx_def)
  show "checkers_sized el_params writing_tx"
    by (simp add: checkers_sized_def)
  show "lines_held writing_tx"
    unfolding lines_held_def writing_sel
    by (simp add: writable_def writing_tx_def running_tx_def tim_build_def smap_keys_def)
qed

lemma writing_aborts: "\<exists>w'. abortTransaction el_params False (interrupt_packet 9) writing_tx = Inr w'"
  using abort_eager_total [OF writing_active, where pkt = "interrupt_packet 9"] writing_ok
  by (auto simp: interrupt_packet_def)

section \<open>Properties\<close>







text \<open>
  C35. LogTM cannot retry. After a transaction of a LogTM system has been aborted, and its log
  unrolled when it had entries, the static transaction identifier is still set: it is only reset in
  the branch for lazy versions. The next begin, whatever packet with a larger identifier it
  carries, fails the assertion in line 1209.
\<close>

theorem logtm_restart_blocked:
  assumes act: "active c w" and log: "\<not> lazy_vm c" and run: "abortTransaction c dg pkt w = Inr w1"
    and unroll: "if m_unrollingLogFlag w1 then endLogUnroll c w1 = Inr w2 else w2 = w1"
    and later: "tim_currentHtmUid w < pkt_uid pkt'"
  shows "beginTransaction c pkt' w2 = Inl (AssertFail TIM_cc 1209)"
proof -
  obtain p u v where u: "profileHtmFailureFaultCause c (pkt_abortCause pkt) w = Inr (p, u)"
      and v: "abort_log c u = Inr v" and fin: "abort_finish c v = Inr w1"
    using run log unfolding abortTransaction_def asrt_eq_Inr rbind_pair_eq_Inr by (auto simp: rbind_eq_Inr)
  have w0: "u = w\<lparr>m_lastFailureCause := pkt_abortCause pkt\<rparr>"
    by (rule profile_failure_shape [OF u])
  have "m_htmXid w1 = m_htmXid w" "m_atCommit w1 = m_atCommit w" "tim_currentHtmUid w1 = tim_currentHtmUid w"
      "\<not> m_unrollingLogFlag w1 \<Longrightarrow> m_escapeLevel w1 = 0 \<and> m_transactionLevel w1 = 0"
    using abort_log_ends [OF v] abort_finish_fields [OF fin] act w0 by (auto simp: active_def)
  then have "m_htmXid w2 = m_htmXid w" "\<not> m_atCommit w2" "tim_currentHtmUid w2 = tim_currentHtmUid w"
      "m_escapeLevel w2 = 0" "m_transactionLevel w2 = 0" "\<not> m_unrollingLogFlag w2"
    using unroll endLogUnroll_fields [of c w1 w2] act log by (auto simp: active_def split: if_splits)
  then show ?thesis
    using later act by (simp add: beginTransaction_def begin_outermost_def active_def)
qed

definition logging_tx :: xact where
  "logging_tx = (running_tx (logtm_params requester_wins))
     \<lparr>evm := \<lparr>m_initStatus = Ready, m_logBaseVAddr = 0, m_logTLB = [(0, 0)], m_logNumEntries = 0\<rparr>\<rparr>"

theorem logtm_restart_blocked_witness:
  "\<exists>w'. abortTransaction (logtm_params requester_wins) False (interrupt_packet 9) logging_tx = Inr w'
     \<and> beginTransaction (logtm_params requester_wins) (interrupt_packet 9) w' = Inl (AssertFail TIM_cc 1209)"
proof -
  let ?c = "logtm_params requester_wins"
  have p: "\<not> isolation_checker ?c" "getFwdMechanism ?c = no_fwd" "\<not> reload_if_stale ?c"
    by (simp_all add: logtm_params_def default_params_def getFwdMechanism_def)
  have f: "fwd_idle logging_tx" "isPowered (conf logging_tx) = Inr False"
    using running_fwd_idle [of ?c]
    by (simp_all add: logging_tx_def fwd_idle_def isConsumer_def isPowered_def plain_conflict_def)
  have act: "active ?c logging_tx"
    using f(1) by (simp add: active_def) (simp add: logging_tx_def running_tx_def tim_build_def XID_NONE_def
        config_allowEarlyValueFwd_def p log_ready_def)
  have fl: "fwd_idle (logging_tx\<lparr>m_lastFailureCause := INTERRUPT\<rparr>)"
      "isPowered (conf (logging_tx\<lparr>m_lastFailureCause := INTERRUPT\<rparr>)) = Inr False"
    using f by (simp_all add: fwd_idle_def isConsumer_def)
  obtain w' where run: "abortTransaction ?c False (interrupt_packet 9) logging_tx = Inr w'" and nu: "\<not> m_unrollingLogFlag w'"
    using act profile_fwd_idle [OF fl, of ?c True "cause_code INTERRUPT"]
    by (auto simp: abortTransaction_def active_def interrupt_packet_def profileHtmFailureFaultCause_def precise_cause_def
        abort_log_def getLogNumEntries_def clear_checker_sets_def p abort_finish_def isAborting_def Let_def logging_tx_def
        running_tx_def tim_build_def XID_NONE_def)
  show ?thesis
    using run nu logtm_restart_blocked [OF act _ run, of w' "interrupt_packet 9"]
    by (simp add: interrupt_packet_def logging_tx_def running_tx_def)
qed

text \<open>
  Every transaction is profiled in one role. The profile of a finished transaction counts it
  exactly once, as a common, producer, consumer, producer and consumer, power or power producer
  transaction according to what it did, at the even index of that role when it committed and at the
  odd one when it aborted.
\<close>

theorem profile_counts_once:
  assumes run: "profileHtmFwdTransaction c aborted idx w = Inr st"
    and role: "isProducer c w = Inr p" "hasConsumedData w = Inr d" "isPowered (conf w) = Inr b"
  shows "rates st = [executed_type_rate (2 * tx_role b p d + (if aborted then 1 else 0))] \<and> tx_role b p d < 6"
proof -
  obtain sent r both where sent: "(if p then rfold (\<lambda>e st. rbind (profile_sent aborted (snd e)) (\<lambda>x. Inr (st @ x)))
        (m_allSentData w) [] else Inr []) = Inr sent"
      and r: "profile_role aborted idx p d w = Inr r" and st: "st = sent @ profile_common aborted idx p d both w @ r"
    using run unfolding profileHtmFwdTransaction_def role rbind_Inr Let_def asrt_eq_Inr rbind_eq_Inr sum.inject
    by (blast dest: sym)
  have "rates sent = []"
    using sent rates_sent by (cases p) fastforce+
  then show ?thesis
    using st rates_role [OF r role(3)] by (simp add: rates_common) (simp add: tx_role_def)
qed

theorem profile_counts_once_witness:
  "\<exists>st. profileHtmFwdTransaction el_params True 5 writing_tx = Inr st \<and> rates st = [executed_type_rate 1]"
proof -
  have f: "fwd_idle writing_tx"
    using writing_active by (simp add: active_def)
  have pow: "isPowered (conf writing_tx) = Inr False"
    by (simp add: writing_tx_def running_tx_def tim_build_def isPowered_def plain_conflict_def)
  have d: "hasConsumedData writing_tx = Inr False"
    using f by (simp add: hasConsumedData_def fwd_idle_def)
  obtain st where "profileHtmFwdTransaction el_params True 5 writing_tx = Inr st"
    using profile_fwd_idle [OF f pow] by blast
  then show ?thesis
    using profile_counts_once [OF _ isProducer_idle [OF f] d pow] by (auto simp: tx_role_def)
qed

end
