(* ===== verification/Lazy_System.thy ===== *)
theory Lazy_System
  imports Lifecycle
begin

text \<open>
  A system of transactional memory managers with lazy conflict detection and a write buffer. The
  steps are the whole handlers of \<^verbatim>\<open>mem/ruby/htm/TransactionInterfaceManager.cc\<close>; they refine the
  arbitration of the commit arbiters, so the guarantees of the arbiters hold of the lines that are
  being written back.
\<close>

section \<open>Accesses through the write buffer\<close>

text \<open>
  A load is given by whether it fetches an instruction or belongs to a transaction, its address
  and the bytes the packet holds; the result is the bytes of the packet afterwards.
\<close>

definition bypassLoadFromWriteBuffer ::
    "htm_params \<Rightarrow> bool \<Rightarrow> bool \<Rightarrow> addr \<Rightarrow> byte list \<Rightarrow> DataBlock \<Rightarrow> xact \<Rightarrow> (byte list \<times> xact) res" where
  "bypassLoadFromWriteBuffer c isInstFetch isHtmTransactional addr bytes datablock w =
     asrt TIM_cc 3019 (lazy_vm c \<and> \<not> eager_cd c)
      (asrt TIM_cc 3024 (\<not> isInstFetch)
        (rbind (lazy_forwardData c (m_transactionLevel w) addr (length bytes) datablock (lvm w)) (\<lambda>(data, forwarding, l).
           if forwarding then
             asrt TIM_cc 3034 isHtmTransactional
               (asrt TIM_cc 3035 (length data = length bytes)
                 (asrt TIM_cc 3036 (length data < 256) (Inr (data, w\<lparr>lvm := l\<rparr>))))
           else Inr (bytes, w\<lparr>lvm := l\<rparr>))))"

definition tim_mergeDataFromWriteBuffer ::
    "htm_params \<Rightarrow> (addr \<Rightarrow> bool) \<Rightarrow> addr \<Rightarrow> DataBlock \<Rightarrow> xact \<Rightarrow> (DataBlock \<times> xact) res" where
  "tim_mergeDataFromWriteBuffer c issue address datablock w =
     rbind (mergeDataFromWriteBuffer c (m_transactionLevel w) issue address datablock (lvm w)) (\<lambda>(d, l).
       Inr (d, w\<lparr>lvm := l\<rparr>))"

section \<open>The system\<close>

text \<open>
  A manager steps with the current token queue. \<open>Load\<close>, \<open>Retire\<close> and \<open>Redirect\<close> are the accesses of
  the program, all of them done before the end of the transaction is executed, so none happens
  once its commit is validated; the stores of the write-back (\<open>Store\<close>, \<open>WriteBack\<close>) come later. The
  attempt to commit marks the written bytes at the version managers of the other processors.
\<close>

definition set_lvms :: "lazyvm list \<Rightarrow> arb_system \<Rightarrow> arb_system" where
  "set_lvms ls S = S\<lparr>managers := map (\<lambda>(v, l). v\<lparr>lvm := l\<rparr>) (zip (managers S) ls)\<rparr>"

inductive lazy_step :: "htm_params \<Rightarrow> arb_system \<Rightarrow> arb_system \<Rightarrow> bool" for c where
  Begin: "i < length (managers S) \<Longrightarrow> beginTransaction c pkt (sys_get S i) = Inr w \<Longrightarrow>
    lazy_step c S (sys_update i w S)"
| Load: "i < length (managers S) \<Longrightarrow> \<not> m_validated (arb (managers S ! i)) \<Longrightarrow>
    isolateTransactionLoad c a (sys_get S i) = Inr w \<Longrightarrow> lazy_step c S (sys_update i w S)"
| Retire: "i < length (managers S) \<Longrightarrow> \<not> m_validated (arb (managers S ! i)) \<Longrightarrow>
    addToRetiredReadSet c a (sys_get S i) = Inr w \<Longrightarrow> lazy_step c S (sys_update i w S)"
| Redirect: "i < length (managers S) \<Longrightarrow> \<not> m_validated (arb (managers S ! i)) \<Longrightarrow>
    redirectStoreToWriteBuffer c a bs (sys_get S i) = Inr w \<Longrightarrow> lazy_step c S (sys_update i w S)"
| Bypass: "i < length (managers S) \<Longrightarrow>
    bypassLoadFromWriteBuffer c f t a bs d (sys_get S i) = Inr (bs', w) \<Longrightarrow> lazy_step c S (sys_update i w S)"
| CommitTry: "i < length (managers S) \<Longrightarrow>
    initiateCommitTransaction c issue (managers S) (map lvm (managers S)) (sys_get S i) = Inr (ls, w) \<Longrightarrow>
    lazy_step c S (sys_update i w (set_lvms ls S))"
| Store: "i < length (managers S) \<Longrightarrow> isolateTransactionStore c a (sys_get S i) = Inr w \<Longrightarrow>
    lazy_step c S (sys_update i w S)"
| WriteBack: "i < length (managers S) \<Longrightarrow>
    tim_mergeDataFromWriteBuffer c issue a d (sys_get S i) = Inr (d', w) \<Longrightarrow> lazy_step c S (sys_update i w S)"
| Signal: "i < length (managers S) \<Longrightarrow> setAbortFlag c a src tb p sw why (sys_get S i) = Inr w \<Longrightarrow>
    lazy_step c S (sys_update i w S)"
| Commit: "i < length (managers S) \<Longrightarrow> commitTransaction c (sys_get S i) = Inr w \<Longrightarrow>
    lazy_step c S (sys_update i w S)"
| Abort: "i < length (managers S) \<Longrightarrow> abortTransaction c dg pkt (sys_get S i) = Inr w \<Longrightarrow>
    lazy_step c S (sys_update i w S)"

text \<open>The lines that still have to be written back.\<close>

definition pending_lines :: "xact \<Rightarrow> addr set" where
  "pending_lines w = set (smap_keys (m_writeBufferBlocks (lvm w)))"

definition mgr_ok :: "htm_params \<Rightarrow> xact \<Rightarrow> bool" where
  "mgr_ok c w \<longleftrightarrow> iso_ok c (iso w) \<and> \<not> config_allowEarlyValueFwd w \<and> \<not> m_unrollingLogFlag w
     \<and> pending_lines w \<subseteq> redirected (iso w) \<and> (m_committing (lvm w) \<longrightarrow> m_validated (arb w))"

definition lazy_start :: "htm_params \<Rightarrow> arb_system \<Rightarrow> bool" where
  "lazy_start c S \<longleftrightarrow> lazy_vm c \<and> \<not> eager_cd c \<and> arb_start c S
     \<and> (\<forall>w \<in> set (managers S). iso w = iso_init \<and> m_writeBufferBlocks (lvm w) = [] \<and> \<not> m_committing (lvm w)
          \<and> \<not> config_allowEarlyValueFwd w \<and> \<not> m_unrollingLogFlag w)"

definition lazy_inv :: "htm_params \<Rightarrow> arb_system \<Rightarrow> bool" where
  "lazy_inv c S \<longleftrightarrow> lazy_vm c \<and> \<not> eager_cd c \<and> arb_inv c S \<and> (\<forall>w \<in> set (managers S). mgr_ok c w)"

lemma lazy_start_inv: "lazy_start c S \<Longrightarrow> lazy_inv c S"
  by (auto simp: lazy_start_def lazy_inv_def mgr_ok_def pending_lines_def smap_keys_def intro: arb_start_inv)

section \<open>What the handlers change\<close>

text \<open>What the arbitration sees of a manager.\<close>

definition arb_same :: "xact \<Rightarrow> xact \<Rightarrow> bool" where
  "arb_same w w' \<longleftrightarrow> m_version w' = m_version w \<and> arb w' = arb w \<and> commitTokens w' = commitTokens w"

lemma arb_same_refl [simp]: "arb_same w w"
  by (simp add: arb_same_def)

lemma arb_same_trans: "arb_same u v \<Longrightarrow> arb_same v w \<Longrightarrow> arb_same u w"
  by (simp add: arb_same_def)

lemma redirect_lines: "redirected (redirectedStoreToWriteBuffer a s) = insert a (redirected s)"
  by (auto simp: redirectedStoreToWriteBuffer_def redirected_def smap_keys_find)

lemma iso_load: "addToReadSetPerfectFilter c l a s = Inr s' \<Longrightarrow> redirected s' = redirected s"
  by (auto simp: addToReadSetPerfectFilter_def asrt_eq_Inr Let_def redirected_def split: if_splits)

lemma iso_retire: "iso_addToRetiredReadSet c a s = Inr s' \<Longrightarrow> redirected s' = redirected s"
  by (auto simp: iso_addToRetiredReadSet_def asrt_eq_Inr redirected_def split: option.splits)

lemma iso_store: "addToWriteSetPerfectFilter c a s = Inr s' \<Longrightarrow> redirected s' = redirected s \<and> reads s' = reads s"
  by (auto simp: addToWriteSetPerfectFilter_def asrt_eq_Inr Let_def redirected_def reads_def split: if_splits)

lemma flush_blocks_keys:
  assumes "flush_blocks c issue bs s = Inr s'" and "fst ` set bs \<subseteq> K" and "set (smap_keys (m_writeBufferBlocks s)) \<subseteq> K"
  shows "set (smap_keys (m_writeBufferBlocks s')) \<subseteq> K \<and> m_committing s' = m_committing s"
  using assms
proof (induction c issue bs s rule: flush_blocks.induct)
  case (2 c issue a st rest s)
  consider "m_issuedWriteBufferRequest s = lazy_commit_width c" | "m_issuedWriteBufferRequest s \<noteq> lazy_commit_width c" "st \<noteq> Pending"
    | "m_issuedWriteBufferRequest s \<noteq> lazy_commit_width c" "st = Pending" "\<not> issue a"
    | "m_issuedWriteBufferRequest s \<noteq> lazy_commit_width c" "st = Pending" "issue a"
    by blast
  then show ?case
    using 2 by cases (auto simp: asrt_eq_Inr smap_keys_assign)
qed simp

lemma flush_keys:
  assumes "flushWriteBuffer c l issue s = Inr s'"
  shows "set (smap_keys (m_writeBufferBlocks s')) \<subseteq> set (smap_keys (m_writeBufferBlocks s))
     \<and> m_committing s' = m_committing s"
  using assms flush_blocks_keys [of c issue "m_writeBufferBlocks s" s s']
  by (auto simp: flushWriteBuffer_def asrt_eq_Inr smap_keys_def split: if_splits)

lemma merge_keys:
  assumes "mergeDataFromWriteBuffer c l issue a d s = Inr (d', s')"
  shows "set (smap_keys (m_writeBufferBlocks s')) \<subseteq> set (smap_keys (m_writeBufferBlocks s))
     \<and> m_committing s' = m_committing s"
proof -
  let ?s = "s\<lparr>m_writeBufferBlocks := smap_erase a (m_writeBufferBlocks s),
              m_issuedWriteBufferRequest := m_issuedWriteBufferRequest s - 1\<rparr>"
  have e: "set (smap_keys (smap_erase a (m_writeBufferBlocks s))) \<subseteq> set (smap_keys (m_writeBufferBlocks s))"
    by (auto simp: smap_keys_find split: if_splits)
  from assms have "s' = ?s\<lparr>m_committed := True, m_writeBuffer := []\<rparr> \<or> s' = ?s
      \<or> flushWriteBuffer c l issue (?s\<lparr>m_flushPending := False\<rparr>) = Inr s'"
    unfolding mergeDataFromWriteBuffer_def Let_def asrt_eq_Inr
    by (auto simp: rbind_eq_Inr split: if_splits)
  then show ?thesis
    using e flush_keys [of c l issue "?s\<lparr>m_flushPending := False\<rparr>" s'] by auto
qed

lemma forward_keys:
  assumes "forward_bytes c l a i n d s acc f = Inr (bs, f', s')"
  shows "m_writeBufferBlocks s' = m_writeBufferBlocks s \<and> m_committing s' = m_committing s"
  using assms
  by (induction c l a i n d s acc f rule: forward_bytes.induct) (auto simp: rbind_eq_Inr Let_def split: if_splits)

text \<open>A handler that arbitrates nothing: the arbitration sees an execution step.\<close>

definition keeps :: "htm_params \<Rightarrow> xact \<Rightarrow> xact \<Rightarrow> bool" where
  "keeps c w w' \<longleftrightarrow> mgr_ok c w' \<and> executes c w w'"

lemma begin_lazy_keeps:
  assumes run: "beginTransaction c pkt w = Inr w'" and lv: "lazy_vm c" "\<not> eager_cd c" and ok: "mgr_ok c w" "aligned c w"
  shows "keeps c w w'"
proof -
  from run lv obtain s l where w': "w' = w\<lparr>m_transactionLevel := 1, tim_currentHtmUid := pkt_uid pkt, m_htmXid := pkt_xid pkt,
        iso := iso_begin (iso w), conf := s, lvm := l, arb := arb w, m_htmstart_tick := pkt_time pkt\<rparr>"
      and l: "lazy_begin (pkt_requestorId pkt) (pkt_uid pkt) (lvm w) = Inr l"
    by (auto simp: beginTransaction_def begin_outermost_def begin_versions_def arb_begin_def Let_def
        asrt_eq_Inr rbind_eq_Inr)
  have "m_writeBufferBlocks l = m_writeBufferBlocks (lvm w) \<and> \<not> m_committing l"
    using l by (auto simp: lazy_begin_def asrt_eq_Inr)
  moreover have "iso_ok c (iso_begin (iso w))"
    using iso_step_ok [of c "iso w" IsoBegin] ok by (simp add: mgr_ok_def)
  ultimately show ?thesis
    using ok unfolding w'
    by (auto simp: keeps_def executes_def mgr_ok_def aligned_def pending_lines_def iso_begin_def redirected_def reads_def
        config_allowEarlyValueFwd_def)
qed

lemma keeps_iso:
  assumes "mgr_ok c w" "aligned c w" and "iso_ok c i" "redirected i = redirected (iso w)"
    and "m_validated (arb w) \<longrightarrow> reads i \<subseteq> reads (iso w)"
  shows "keeps c w (w\<lparr>iso := i, xic := x\<rparr>)"
  using assms by (simp add: keeps_def executes_def mgr_ok_def aligned_def pending_lines_def config_allowEarlyValueFwd_def)

lemma load_keeps:
  assumes run: "isolateTransactionLoad c a w = Inr w'" and ok: "mgr_ok c w" "aligned c w" and nv: "\<not> m_validated (arb w)"
  shows "keeps c w w'"
proof -
  from run obtain i where i: "addToReadSetPerfectFilter c (m_transactionLevel w) (line c a) (iso w) = Inr i"
      and w': "w' = w\<lparr>iso := i, xic := xic w\<rparr>"
    by (auto simp: isolateTransactionLoad_def asrt_eq_Inr rbind_eq_Inr)
  have "iso_ok c i"
    using iso_step_ok [of c "iso w" "IsoLoad (m_transactionLevel w) (line c a)" i] i ok(1) by (simp add: mgr_ok_def)
  then show ?thesis
    unfolding w' using keeps_iso [OF ok] iso_load [OF i] nv by blast
qed

lemma checked_shape:
  assumes "(if isolation_checker c then rbind r (\<lambda>x. Inr (w\<lparr>iso := i, xic := x\<rparr>)) else Inr (w\<lparr>iso := i\<rparr>)) = Inr w'"
  shows "\<exists>x. w' = w\<lparr>iso := i, xic := x\<rparr>"
  using assms by (auto simp: rbind_eq_Inr split: if_splits intro: exI [of _ "xic w"])

lemma retire_keeps:
  assumes run: "addToRetiredReadSet c a w = Inr w'" and ok: "mgr_ok c w" "aligned c w" and nv: "\<not> m_validated (arb w)"
  shows "keeps c w w'"
proof -
  from run obtain i x where i: "iso_addToRetiredReadSet c (line c a) (iso w) = Inr i"
      and w': "w' = w\<lparr>iso := i, xic := x\<rparr>"
    unfolding addToRetiredReadSet_def asrt_eq_Inr rbind_eq_Inr [of "_ c (line c a) (iso w)"] using checked_shape by blast
  have "iso_ok c i"
    using iso_step_ok [of c "iso w" "IsoRetire (line c a)" i] i ok(1) by (simp add: mgr_ok_def)
  then show ?thesis
    unfolding w' using keeps_iso [OF ok] iso_retire [OF i] nv by blast
qed

lemma store_keeps:
  assumes run: "isolateTransactionStore c a w = Inr w'" and ok: "mgr_ok c w" "aligned c w"
  shows "keeps c w w'"
proof -
  from run obtain i x where i: "addToWriteSetPerfectFilter c (line c a) (iso w) = Inr i"
      and w': "w' = w\<lparr>iso := i, xic := x\<rparr>"
    unfolding isolateTransactionStore_def asrt_eq_Inr rbind_eq_Inr [of "_ c (line c a) (iso w)"] using checked_shape by blast
  have "iso_ok c i"
    using iso_step_ok [of c "iso w" "IsoStore (line c a)" i] i ok(1) by (simp add: mgr_ok_def)
  then show ?thesis
    unfolding w' using keeps_iso [OF ok] iso_store [OF i] by blast
qed

lemma redirect_keeps:
  assumes run: "redirectStoreToWriteBuffer c a bs w = Inr w'" and ok: "mgr_ok c w" "aligned c w" and nv: "\<not> m_validated (arb w)"
  shows "keeps c w w'"
proof -
  from run obtain l where l: "addToWriteBuffer c (m_transactionLevel w) a bs (lvm w) = Inr l"
      and w': "w' = w\<lparr>lvm := l, iso := redirectedStoreToWriteBuffer (line c a) (iso w)\<rparr>"
    by (auto simp: redirectStoreToWriteBuffer_def asrt_eq_Inr rbind_eq_Inr)
  have "set (smap_keys (m_writeBufferBlocks l)) = insert (line c a) (pending_lines w)
      \<and> m_committing l = m_committing (lvm w)"
    using l by (auto simp: addToWriteBuffer_def asrt_eq_Inr Let_def smap_keys_assign pending_lines_def split: if_splits)
  moreover have "iso_ok c (redirectedStoreToWriteBuffer (line c a) (iso w))"
    using iso_step_ok [of c "iso w" "IsoRedirect (line c a)"] ok(1) by (simp add: mgr_ok_def)
  ultimately show ?thesis
    using ok nv unfolding w'
    by (auto simp: keeps_def executes_def mgr_ok_def aligned_def pending_lines_def redirect_lines config_allowEarlyValueFwd_def)
qed

lemma keeps_lvm:
  assumes "mgr_ok c w" "aligned c w"
    and "set (smap_keys (m_writeBufferBlocks l)) \<subseteq> pending_lines w" "m_committing l \<longrightarrow> m_validated (arb w)"
  shows "keeps c w (w\<lparr>lvm := l, m_atCommit := b\<rparr>)"
  using assms by (auto simp: keeps_def executes_def mgr_ok_def aligned_def pending_lines_def config_allowEarlyValueFwd_def)

lemma bypass_keeps:
  assumes run: "bypassLoadFromWriteBuffer c f t a bs d w = Inr (bs', w')" and ok: "mgr_ok c w" "aligned c w"
  shows "keeps c w w'"
proof -
  from run obtain x y l where l: "lazy_forwardData c (m_transactionLevel w) a (length bs) d (lvm w) = Inr (x, y, l)"
      and w': "w' = w\<lparr>lvm := l, m_atCommit := m_atCommit w\<rparr>"
    by (auto simp: bypassLoadFromWriteBuffer_def asrt_eq_Inr rbind_eq_Inr split: if_splits)
  have "m_writeBufferBlocks l = m_writeBufferBlocks (lvm w) \<and> m_committing l = m_committing (lvm w)"
    using l forward_keys by (auto simp: lazy_forwardData_def split: if_splits)
  then show ?thesis
    unfolding w' using ok by (intro keeps_lvm) (simp_all add: mgr_ok_def pending_lines_def)
qed

lemma writeback_keeps:
  assumes run: "tim_mergeDataFromWriteBuffer c issue a d w = Inr (d', w')" and ok: "mgr_ok c w" "aligned c w"
  shows "keeps c w w'"
proof -
  from run obtain l where l: "mergeDataFromWriteBuffer c (m_transactionLevel w) issue a d (lvm w) = Inr (d', l)"
      and w': "w' = w\<lparr>lvm := l, m_atCommit := m_atCommit w\<rparr>"
    by (auto simp: tim_mergeDataFromWriteBuffer_def rbind_eq_Inr)
  show ?thesis
    unfolding w' using ok merge_keys [OF l] by (intro keeps_lvm) (simp_all add: mgr_ok_def pending_lines_def)
qed

lemma signal_lvm:
  assumes "setAbortFlag c a src t p sw why w = Inr w'"
  shows "lvm w' = lvm w \<or> cancelWriteBufferFlush (m_transactionLevel w) (lvm w) = Inr (lvm w')"
proof -
  from assms obtain w1 where w1: "abort_release_checker c a w = Inr w1"
      and w': "w' = w1 \<or> abort_raise c a src t sw why w1 = Inr w'"
    by (auto simp: setAbortFlag_def asrt_eq_Inr rbind_eq_Inr split: if_splits)
  have same: "lvm w1 = lvm w" "m_transactionLevel w1 = m_transactionLevel w"
    using abort_release_checker_frame(1,5) [OF w1] by (simp_all add: abort_frame_sel)
  have "lvm w' = lvm w1 \<or> cancelWriteBufferFlush (m_transactionLevel w1) (lvm w1) = Inr (lvm w')"
    if "abort_raise c a src t sw why w1 = Inr w'"
    using that by (auto simp: abort_raise_def Let_def asrt_eq_Inr rbind_eq_Inr abort_set_cause_frame(5) split: if_splits)
  with w' same show ?thesis
    by auto
qed

lemma signal_keeps:
  assumes run: "setAbortFlag c a src t p sw why w = Inr w'" and ok: "mgr_ok c w" "aligned c w"
  shows "keeps c w w'"
proof -
  from setAbortFlag_frame(1) [OF run] obtain x l g u n k b where
    w': "w' = w\<lparr>xic := x, lvm := l, m_abortFlag := g, m_abortCause := u, m_abortSourceNonTransactional := n,
               m_capacityAbortWriteSet := k, m_abortAddress := b\<rparr>"
    by (rule abort_frameE)
  have "set (smap_keys (m_writeBufferBlocks l)) \<subseteq> pending_lines w \<and> m_committing l = m_committing (lvm w)"
    using signal_lvm [OF run] w'
    by (auto simp: cancelWriteBufferFlush_def asrt_eq_Inr Let_def pending_lines_def smap_keys_def)
  then show ?thesis
    unfolding w' using ok
    by (auto simp: keeps_def executes_def mgr_ok_def aligned_def pending_lines_def config_allowEarlyValueFwd_def)
qed

text \<open>The attempt to commit is an execution step or a validation.\<close>

definition same_pending :: "lazyvm \<Rightarrow> lazyvm \<Rightarrow> bool" where
  "same_pending l l' \<longleftrightarrow> m_writeBufferBlocks l' = m_writeBufferBlocks l \<and> m_committing l' = m_committing l"

lemma profile_same: "same_pending l (profileRemotelyWrittenByte a l)"
  by (simp add: same_pending_def profileRemotelyWrittenByte_def Let_def)

lemma profile_fold_same: "same_pending l (fold profileRemotelyWrittenByte as l)"
proof (induction as arbitrary: l)
  case (Cons a as)
  then show ?case
    using profile_same [of l a] by (simp add: same_pending_def)
qed (simp add: same_pending_def)

lemma lazy_commit_moves:
  assumes "lazy_commit c n issue rs l = Inr (ls, l')"
  shows "list_all2 same_pending rs ls" "set (smap_keys (m_writeBufferBlocks l')) \<subseteq> set (smap_keys (m_writeBufferBlocks l))"
proof -
  from assms have f: "flushWriteBuffer c n issue (l\<lparr>m_committing := True, m_flushPending := False\<rparr>) = Inr l'"
      and ls: "ls = (if \<not> m_committing l then map (fold profileRemotelyWrittenByte (smap_keys (m_writeBuffer l))) rs else rs)"
    by (auto simp: lazy_commit_def asrt_eq_Inr rbind_eq_Inr Let_def)
  show "list_all2 same_pending rs ls"
    using ls profile_fold_same by (auto simp: list_all2_map2 list_all2_same same_pending_def)
  show "set (smap_keys (m_writeBufferBlocks l')) \<subseteq> set (smap_keys (m_writeBufferBlocks l))"
    using flush_keys [OF f] by simp
qed

lemma commit_try_moves:
  assumes run: "initiateCommitTransaction c issue ms rs w = Inr (ls, w')"
    and lv: "\<not> eager_cd c" and ok: "mgr_ok c w" "aligned c w"
  shows "list_all2 same_pending rs ls
     \<and> (keeps c w w' \<or> initiateValidateTransaction c ms (w\<lparr>m_atCommit := True\<rparr>) = Inr w')"
proof -
  let ?w = "w\<lparr>m_atCommit := True\<rparr>"
  have refl: "list_all2 same_pending rs rs"
    by (simp add: list_all2_same same_pending_def)
  have nf: "\<not> config_allowEarlyValueFwd w"
    using ok by (simp add: mgr_ok_def)
  have "keeps c w (w\<lparr>lvm := lvm w, m_atCommit := True\<rparr>)"
    using ok by (intro keeps_lvm) (simp_all add: mgr_ok_def pending_lines_def)
  then have k: "keeps c w ?w"
    by simp
  show ?thesis
  proof (cases "m_committed (lvm w)")
    case True
    then have "ls = rs" "w' = ?w"
      using run nf lv by (simp_all add: initiateCommitTransaction_def asrt_eq_Inr)
    then show ?thesis
      using refl k by simp
  next
    case False
    then have att: "rbind (shouldValidateTransaction (arb w)) (\<lambda>v.
             if v \<and> \<not> m_validated (arb w)
             then rbind (initiateValidateTransaction c ms ?w) (\<lambda>w2. Inr (rs, w2))
             else rbind (lazy_commit c (m_transactionLevel w) issue rs (lvm w)) (\<lambda>(ls, l).
                    Inr (ls, ?w\<lparr>lvm := l\<rparr>))) = Inr (ls, w')"
      using run nf lv by (simp add: initiateCommitTransaction_def asrt_eq_Inr Let_def cong: if_cong)
    then have v: "shouldValidateTransaction (arb w) = Inr True"
      by (auto simp: shouldValidateTransaction_def split: if_splits)
    show ?thesis
    proof (cases "m_validated (arb w)")
      case True
      with att v obtain l where l: "lazy_commit c (m_transactionLevel w) issue rs (lvm w) = Inr (ls, l)"
          and w': "w' = w\<lparr>lvm := l, m_atCommit := True\<rparr>"
        by (auto simp: rbind_eq_Inr)
      have "keeps c w w'"
        unfolding w' using ok True lazy_commit_moves(2) [OF l] by (intro keeps_lvm) (simp_all add: pending_lines_def)
      then show ?thesis
        using lazy_commit_moves(1) [OF l] by simp
    next
      case False
      then show ?thesis
        using att v refl by (auto simp: rbind_eq_Inr)
    qed
  qed
qed

text \<open>Commit and abort give up the arbitration and then release the accesses.\<close>

lemma arb_commit_moves:
  assumes "arb_commit u = Inr u'" and "arb_same w u"
  shows "\<exists>ts. arb_commit w = Inr (with_arb w ts False False) \<and> u' = with_arb u ts False False"
proof -
  obtain ts where ts: "(if arb_policy (arb u) = token then releaseCommitToken (int (m_version u)) (commitTokens u)
        else Inr (commitTokens u)) = Inr ts" and u': "u' = with_arb u ts False False"
      and va: "m_validated (arb u)" "\<not> m_validating (arb u)"
    using assms(1) unfolding arb_commit_def asrt_eq_Inr rbind_eq_Inr with_arb_def sum.inject by (blast dest: sym)
  have "(if arb_policy (arb w) = token then releaseCommitToken (int (m_version w)) (commitTokens w)
        else Inr (commitTokens w)) = Inr ts"
    using ts assms(2) by (simp only: arb_same_def)
  then have "arb_commit w = Inr (with_arb w ts False False)"
    using va assms(2) unfolding arb_commit_def asrt_eq_Inr rbind_eq_Inr with_arb_def by (simp add: arb_same_def)
  with u' show ?thesis
    by blast
qed

lemma arb_restart_moves:
  assumes "arb_restart u = Inr u'" and "arb_same w u"
  shows "\<exists>ts. arb_restart w = Inr (with_arb w ts False False) \<and> u' = with_arb u ts False False"
proof -
  obtain ts where ts: "(if arb_policy (arb u) = token then
              (if m_validating (arb u) then removeCommitTokenRequest (int (m_version u)) (commitTokens u)
               else if m_validated (arb u) then releaseCommitToken (int (m_version u)) (commitTokens u)
               else Inr (commitTokens u))
            else Inr (commitTokens u)) = Inr ts" and u': "u' = with_arb u ts False False"
    using assms(1) unfolding arb_restart_def rbind_eq_Inr with_arb_def sum.inject by (blast dest: sym)
  have "(if arb_policy (arb w) = token then
              (if m_validating (arb w) then removeCommitTokenRequest (int (m_version w)) (commitTokens w)
               else if m_validated (arb w) then releaseCommitToken (int (m_version w)) (commitTokens w)
               else Inr (commitTokens w))
            else Inr (commitTokens w)) = Inr ts"
    using ts assms(2) by (simp only: arb_same_def)
  then have "arb_restart w = Inr (with_arb w ts False False)"
    unfolding arb_restart_def rbind_eq_Inr with_arb_def by simp
  with u' show ?thesis
    by blast
qed

lemma empty_redirected: "sets_empty i \<Longrightarrow> redirected i = {} \<and> reads i = {}"
  by (simp add: sets_empty_def redirected_def reads_def smap_keys_def)

lemma sets_empty_iso_ok: "sets_empty i \<Longrightarrow> iso_ok c i"
  by (simp add: sets_empty_def iso_ok_def reads_def writes_def smap_keys_def)

lemma released:
  assumes "sets_empty (iso w')" and "m_writeBufferBlocks (lvm w') = []" "\<not> m_committing (lvm w')"
    and "fwdMechanism w' = fwdMechanism w" "m_unrollingLogFlag w' = m_unrollingLogFlag w" and "mgr_ok c w"
    and "m_version w' = m_version w" "arb w' = (arb w)\<lparr>m_validated := False, m_validating := False\<rparr>" "commitTokens w' = ts"
  shows "mgr_ok c w' \<and> executes c (with_arb w ts False False) w'"
  using assms empty_redirected [OF assms(1)] sets_empty_iso_ok [OF assms(1), of c]
  by (simp add: mgr_ok_def executes_def aligned_def pending_lines_def smap_keys_def config_allowEarlyValueFwd_def with_arb_def)

lemma commit_moves:
  assumes run: "commitTransaction c w = Inr w'" and lv: "lazy_vm c" "\<not> eager_cd c" and ok: "mgr_ok c w" "aligned c w"
  shows "keeps c w w' \<or> (\<exists>w1. arb_commit w = Inr w1 \<and> executes c w1 w' \<and> mgr_ok c w')"
proof (cases "m_transactionLevel w = 1")
  case True
  with run obtain w3 where out: "commit_outermost c w = Inr w3"
      and w': "w' = w3\<lparr>m_htmXid := XID_NONE, m_transactionLevel := m_transactionLevel w3 - 1\<rparr>"
    by (auto simp: commitTransaction_def asrt_eq_Inr rbind_eq_Inr)
  from commit_outermost_steps [OF out] obtain x w2 s i y where
      cl: "(if lazy_vm c then (if eager_cd c then commit_eager_cd c (w\<lparr>xvc := x\<rparr>)
          else commit_lazy_cd (w\<lparr>xvc := x\<rparr>)) else commit_log (w\<lparr>xvc := x\<rparr>)) = Inr w2"
      and i: "iso_commit c (iso w2) = Inr i"
      and w3: "w3 = w2\<lparr>conf := s, iso := i, xic := y, m_lastFailureCause := INVALID, m_hwTransPrio := NC_PRIO_VALUE,
                m_retriesTicks := [], m_htmstart_tick := 0\<rparr>"
    by metis
  from cl lv have "commit_lazy_cd (w\<lparr>xvc := x\<rparr>) = Inr w2"
    by simp
  then obtain l u where l: "notifyCommittedTransaction (m_transactionLevel w) (lvm w) = Inr l"
      and u: "arb_commit (w\<lparr>xvc := x, lvm := l\<rparr>) = Inr u" and w2: "w2 = u\<lparr>m_atCommit := False\<rparr>"
    by (auto simp: commit_lazy_cd_def asrt_eq_Inr rbind_eq_Inr)
  from arb_commit_moves [OF u, of w] obtain ts where ts: "arb_commit w = Inr (with_arb w ts False False)"
      and u': "u = with_arb (w\<lparr>xvc := x, lvm := l\<rparr>) ts False False"
    by (auto simp: arb_same_def)
  have "m_writeBufferBlocks l = [] \<and> \<not> m_committing l"
    using l by (auto simp: notifyCommittedTransaction_def asrt_eq_Inr Let_def)
  then have "mgr_ok c w' \<and> executes c (with_arb w ts False False) w'"
    using ok(1) iso_commit_empty [OF i] unfolding w' w3 w2 u' by (intro released) (simp_all add: with_arb_def)
  with ts show ?thesis
    by blast
next
  case False
  with run have "w' = w\<lparr>m_htmXid := XID_NONE, m_transactionLevel := m_transactionLevel w - 1\<rparr>"
    by (auto simp: commitTransaction_def asrt_eq_Inr split: if_splits)
  then show ?thesis
    using ok by (simp add: keeps_def executes_def mgr_ok_def aligned_def pending_lines_def config_allowEarlyValueFwd_def)
qed

lemma abort_at_commit_same:
  assumes run: "abort_at_commit c dg w = Inr w'" and ok: "iso_ok c (iso w)"
  shows "arb_same w w'"
proof -
  obtain w1 where w': "w' = w1\<lparr>m_atCommit := False\<rparr>"
      and w1: "(if m_committing (lvm w) then
              rbind (if \<not> m_abortFlag w
                     then rbind (cancelWriteBufferFlush (m_transactionLevel w) (lvm w)) (\<lambda>l. Inr (w\<lparr>lvm := l\<rparr>))
                     else Inr w)
                (discardWriteSetFromL1DataCache c)
            else if m_validated (arb w) then rbind (validated_abort_cause c dg w) (\<lambda>_. Inr w)
            else asrt TIM_cc 2027 (m_validating (arb w)) (Inr w)) = Inr w1"
    using run unfolding abort_at_commit_def rbind_eq_Inr sum.inject by (blast dest: sym)
  have "arb_same w w1"
  proof (cases "m_committing (lvm w)")
    case True
    then obtain w0 where w0: "(if \<not> m_abortFlag w
             then rbind (cancelWriteBufferFlush (m_transactionLevel w) (lvm w)) (\<lambda>l. Inr (w\<lparr>lvm := l\<rparr>))
             else Inr w) = Inr w0" and d: "discardWriteSetFromL1DataCache c w0 = Inr w1"
      using w1 by (auto simp: rbind_eq_Inr)
    have 0: "arb_same w w0 \<and> iso w0 = iso w"
      using w0 by (auto simp: rbind_eq_Inr arb_same_def split: if_splits)
    then have "iso_ok c (iso w0)"
      using ok by simp
    from discardWriteSet_ends [OF d this] 0 show ?thesis
      by (auto simp: arb_same_def)
  next
    case False
    then show ?thesis
      using w1 by (auto simp: rbind_eq_Inr asrt_eq_Inr split: if_splits)
  qed
  then show ?thesis
    using w' by (simp add: arb_same_def)
qed

lemma abort_lazy_cd_moves:
  assumes run: "abort_lazy_cd c dg w = Inr w'" and ok: "iso_ok c (iso w)"
  shows "\<exists>ts. arb_restart w = Inr (with_arb w ts False False) \<and> commitTokens w' = ts
     \<and> arb w' = (arb w)\<lparr>m_validated := False, m_validating := False\<rparr> \<and> \<not> m_committing (lvm w')"
proof -
  obtain w1 l where w1: "(if m_atCommit w then abort_at_commit c dg w else Inr w) = Inr w1"
      and l: "lazy_restart (m_transactionLevel w1) (lvm w1) = Inr l" and a: "arb_restart (w1\<lparr>lvm := l\<rparr>) = Inr w'"
    using run unfolding abort_lazy_cd_def rbind_eq_Inr by blast
  have 1: "arb_same w w1"
    using w1 abort_at_commit_same [OF _ ok] by (cases "m_atCommit w") auto
  then have "arb_same w (w1\<lparr>lvm := l\<rparr>)"
    by (simp add: arb_same_def)
  from arb_restart_moves [OF a this] obtain ts where "arb_restart w = Inr (with_arb w ts False False)"
      and w': "w' = with_arb (w1\<lparr>lvm := l\<rparr>) ts False False"
    by blast
  moreover have "\<not> m_committing l"
    using l by (auto simp: lazy_restart_def discardWriteBuffer_def rbind_eq_Inr asrt_eq_Inr Let_def)
  ultimately show ?thesis
    using 1 by (simp add: with_arb_def arb_same_def)
qed

lemma abort_moves:
  assumes run: "abortTransaction c dg pkt w = Inr w'" and lv: "lazy_vm c" "\<not> eager_cd c" and ok: "mgr_ok c w"
  shows "\<exists>w1. arb_restart w = Inr w1 \<and> executes c w1 w' \<and> mgr_ok c w'"
proof -
  have nu: "\<not> m_unrollingLogFlag w"
    using ok by (simp add: mgr_ok_def)
  from abort_lazy_steps [OF run lv(1) nu] lv obtain f x w2 y rt where
    w2: "abort_lazy_cd c dg (w\<lparr>m_lastFailureCause := f, xvc := x\<rparr>) = Inr w2"
    and fin: "abort_finish c (w2\<lparr>m_retriesTicks := rt, conf := conflict_restart (conf w2), m_htmXid := XID_NONE,
       iso := releaseIsolation (iso w2), xic := y\<rparr>) = Inr w'"
    by metis
  let ?w = "w\<lparr>m_lastFailureCause := f, xvc := x\<rparr>"
  have iok: "iso_ok c (iso ?w)"
    using ok by (simp add: mgr_ok_def)
  note e = abort_lazy_cd_ends [OF w2 iok]
  from abort_lazy_cd_moves [OF w2 iok] obtain ts where r: "arb_restart ?w = Inr (with_arb ?w ts False False)"
      and t: "commitTokens w2 = ts" "arb w2 = (arb w)\<lparr>m_validated := False, m_validating := False\<rparr>"
         "\<not> m_committing (lvm w2)"
    by auto
  from arb_restart_moves [OF r, of w] obtain ts' where r': "arb_restart w = Inr (with_arb w ts' False False)"
      and "with_arb ?w ts False False = with_arb ?w ts' False False"
    by (auto simp: arb_same_def)
  then have tt: "ts' = ts"
    by (metis with_arb_sel(4))
  have "\<not> m_unrollingLogFlag (w2\<lparr>m_retriesTicks := rt, conf := conflict_restart (conf w2), m_htmXid := XID_NONE,
       iso := releaseIsolation (iso w2), xic := y\<rparr>)"
    using e nu by (simp add: same_control_def)
  from abort_finish_ends [OF fin this]
  have "mgr_ok c w' \<and> executes c (with_arb w ts False False) w'"
    using ok e t releaseIsolation_empty by (intro released) (auto simp: same_control_def)
  then show ?thesis
    using r' tt by blast
qed

section \<open>The handlers refine the arbitration\<close>

lemma sys_get_update: "i < length (managers S) \<Longrightarrow> sys_get (sys_update i w S) i = w"
  by (simp add: sys_get_def)

lemma sys_update_update [simp]: "sys_update i w' (sys_update i w S) = sys_update i w' S"
  by (simp add: sys_update_def)

lemma magic_scan_own:
  "\<not> m_validated (arb u) \<Longrightarrow> i < length ms \<Longrightarrow> \<not> m_validated (arb (ms ! i)) \<Longrightarrow>
     magic_scan c w (ms[i := u]) found = magic_scan c w ms found"
proof (induction ms arbitrary: i found)
  case (Cons v ms)
  then show ?case
    by (cases i) simp_all
qed simp

lemma validate_own:
  assumes "arb_same (sys_get S i) w" and i: "i < length (managers S)"
    and run: "initiateValidateTransaction c (managers S) w = Inr w'"
  shows "initiateValidateTransaction c ((managers S)[i := w]) w = Inr w'"
proof -
  have "\<not> m_validated (arb w)"
    using run by (simp add: initiateValidateTransaction_def asrt_eq_Inr)
  moreover have "arb (managers S ! i) = arb w"
    using assms(1) by (simp add: arb_same_def)
  ultimately have eq: "magic_scan c v ((managers S)[i := w]) False = magic_scan c v (managers S) False" for v
    using i by (intro magic_scan_own) simp_all
  show ?thesis
    using run by (simp only: initiateValidateTransaction_def Let_def eq)
qed

lemma keeps_inv:
  assumes "arb_inv c S" and "i < length (managers S)" and "keeps c (sys_get S i) w"
  shows "arb_inv c (sys_update i w S)"
  using assms by (blast intro: arb_step_inv arb_step.Execute dest: keeps_def [THEN iffD1])

lemma moves_inv:
  assumes "arb_step c S (sys_update i w1 S)" and "arb_inv c S" and i: "i < length (managers S)" and "executes c w1 w"
  shows "arb_inv c (sys_update i w S)"
proof -
  have "arb_inv c (sys_update i w1 S)"
    using assms(1,2) by (rule arb_step_inv [rotated])
  moreover have "arb_step c (sys_update i w1 S) (sys_update i w (sys_update i w1 S))"
    using i assms(4) by (intro arb_step.Execute) (simp_all add: sys_get_update)
  ultimately show ?thesis
    using arb_step_inv by fastforce
qed

lemma arb_inv_cong:
  assumes "arb_inv c S" and "length (managers T) = length (managers S)" and "tokenQueue T = tokenQueue S"
    and "\<And>j. j < length (managers S) \<Longrightarrow> m_version (managers T ! j) = m_version (managers S ! j)
           \<and> arb (managers T ! j) = arb (managers S ! j) \<and> iso (managers T ! j) = iso (managers S ! j)"
  shows "arb_inv c T"
  using assms by (simp add: arb_inv_def token_inv_def magic_inv_def aligned_def conflicting_def)

lemma set_lvms_nth:
  assumes "length ls = length (managers S)" and "j < length (managers S)"
  shows "managers (set_lvms ls S) ! j = (managers S ! j)\<lparr>lvm := ls ! j\<rparr>"
  using assms by (simp add: set_lvms_def)

lemma set_lvms_length [simp]: "length ls = length (managers S) \<Longrightarrow> length (managers (set_lvms ls S)) = length (managers S)"
  by (simp add: set_lvms_def)

lemma lvms_inv:
  assumes inv: "arb_inv c (sys_update i w S)" and i: "i < length (managers S)" and len: "length ls = length (managers S)"
  shows "arb_inv c (sys_update i w (set_lvms ls S))"
  using inv
proof (rule arb_inv_cong)
  fix j assume "j < length (managers (sys_update i w S))"
  then show "m_version (managers (sys_update i w (set_lvms ls S)) ! j) = m_version (managers (sys_update i w S) ! j)
      \<and> arb (managers (sys_update i w (set_lvms ls S)) ! j) = arb (managers (sys_update i w S) ! j)
      \<and> iso (managers (sys_update i w (set_lvms ls S)) ! j) = iso (managers (sys_update i w S) ! j)"
    using i len by (simp add: set_lvms_nth)
qed (use len in simp_all)

lemma validate_shape:
  assumes "initiateValidateTransaction c ms w = Inr w'"
  shows "\<not> m_validated (arb w) \<and> iso w' = iso w \<and> lvm w' = lvm w \<and> fwdMechanism w' = fwdMechanism w
     \<and> m_unrollingLogFlag w' = m_unrollingLogFlag w"
proof -
  obtain w1 failed where nv: "\<not> m_validated (arb w)"
      and w': "w' = (if \<not> failed then w1\<lparr>arb := (arb w1)\<lparr>m_validating := False, m_validated := True\<rparr>\<rparr> else w1)"
      and w1: "(if arb_policy (arb w) = magic then
           (let w1 = w\<lparr>arb := (arb w)\<lparr>m_validating := True\<rparr>\<rparr> in
            rbind (magic_scan c w1 ms False) (\<lambda>conflicting. Inr (w1, conflicting)))
         else if arb_policy (arb w) = token then
           rbind (if \<not> m_validating (arb w)
                  then rbind (requestCommitToken (int (m_version w)) (commitTokens w)) (\<lambda>ts.
                         Inr (w\<lparr>commitTokens := ts, arb := (arb w)\<lparr>m_validating := True\<rparr>\<rparr>))
                  else Inr w) (\<lambda>w1.
             Inr (w1, getTokenOwner (commitTokens w1) \<noteq> int (m_version w1)))
         else Inl (PanicAt LCA_cc 137)) = Inr (w1, failed)"
    using assms unfolding initiateValidateTransaction_def asrt_eq_Inr rbind_pair_eq_Inr sum.inject by (blast dest: sym)
  have "iso w1 = iso w \<and> lvm w1 = lvm w \<and> fwdMechanism w1 = fwdMechanism w \<and> m_unrollingLogFlag w1 = m_unrollingLogFlag w"
    using w1 by (auto simp: rbind_eq_Inr Let_def split: if_splits)
  then show ?thesis
    using nv w' by simp
qed

lemma validate_inv:
  assumes inv: "arb_inv c S" and i: "i < length (managers S)" and ok: "mgr_ok c (managers S ! i)"
    and run: "initiateValidateTransaction c (managers S) ((sys_get S i)\<lparr>m_atCommit := True\<rparr>) = Inr w"
  shows "arb_inv c (sys_update i w S)" "mgr_ok c w"
proof -
  let ?w = "(sys_get S i)\<lparr>m_atCommit := True\<rparr>"
  let ?S = "sys_update i ?w S"
  have "aligned c (managers S ! i)"
    using inv i by (simp add: arb_inv_def)
  then have "executes c (sys_get S i) ?w"
    by (simp add: executes_def aligned_def)
  then have 1: "arb_inv c ?S"
    using inv i by (blast intro: arb_step_inv arb_step.Execute)
  have "initiateValidateTransaction c (managers ?S) (sys_get ?S i) = Inr w"
    using validate_own [OF _ i run] unfolding sys_get_update [OF i] by (simp add: sys_update_def arb_same_def)
  then have "arb_step c ?S (sys_update i w ?S)"
    using i by (intro arb_step.Validate) simp_all
  then show "arb_inv c (sys_update i w S)"
    using 1 arb_step_inv by fastforce
  show "mgr_ok c w"
    using validate_shape [OF run] ok by (auto simp: mgr_ok_def pending_lines_def config_allowEarlyValueFwd_def sys_get_def)
qed

lemma lazy_inv_update:
  assumes "lazy_inv c S" and "arb_inv c (sys_update i w S)" and "mgr_ok c w"
  shows "lazy_inv c (sys_update i w S)"
  using assms set_update_subset_insert [of "managers S" i w] by (auto simp: lazy_inv_def sys_update_def)

lemma lazy_inv_parts:
  assumes "lazy_inv c S" and "i < length (managers S)"
  shows "mgr_ok c (managers S ! i)" "mgr_ok c (sys_get S i)" "aligned c (sys_get S i)" "arb_inv c S" "lazy_vm c" "\<not> eager_cd c"
  using assms
  by (auto simp: lazy_inv_def arb_inv_def aligned_def mgr_ok_def pending_lines_def config_allowEarlyValueFwd_def sys_get_def)

lemma keeps_lazy_inv:
  assumes "lazy_inv c S" and "i < length (managers S)" and "keeps c (sys_get S i) w"
  shows "lazy_inv c (sys_update i w S)"
  using assms(1)
proof (rule lazy_inv_update)
  show "arb_inv c (sys_update i w S)"
    using assms by (auto intro: keeps_inv simp: lazy_inv_def)
  show "mgr_ok c w"
    using assms(3) by (simp add: keeps_def)
qed

lemma commit_try_inv:
  assumes inv: "lazy_inv c S" and i: "i < length (managers S)"
    and run: "initiateCommitTransaction c issue (managers S) (map lvm (managers S)) (sys_get S i) = Inr (ls, w)"
  shows "lazy_inv c (sys_update i w (set_lvms ls S))"
proof -
  note p = lazy_inv_parts [OF inv i]
  note moves = commit_try_moves [OF run p(6,2,3)]
  then have len: "length ls = length (managers S)"
    using list_all2_lengthD by fastforce
  have "lazy_inv c (sys_update i w S)"
    using moves keeps_lazy_inv [OF inv i] validate_inv [OF p(4) i p(1)] lazy_inv_update [OF inv] by blast
  then have 1: "arb_inv c (sys_update i w (set_lvms ls S))" and w: "mgr_ok c w"
    using lvms_inv [OF _ i len] i by (auto simp: lazy_inv_def sys_update_def set_update_memI)
  have "mgr_ok c ((managers S ! j)\<lparr>lvm := ls ! j\<rparr>)" if "j < length (managers S)" for j
    using lazy_inv_parts(1) [OF inv that] list_all2_nthD [of same_pending "map lvm (managers S)" ls j] moves that
    by (simp add: mgr_ok_def same_pending_def pending_lines_def config_allowEarlyValueFwd_def)
  then have "\<forall>v \<in> set (managers (set_lvms ls S)). mgr_ok c v"
    using len by (auto simp: in_set_conv_nth set_lvms_nth)
  then show ?thesis
    using 1 w inv set_update_subset_insert [of "managers (set_lvms ls S)" i w] by (auto simp: lazy_inv_def sys_update_def)
qed

lemma lazy_step_inv:
  assumes inv: "lazy_inv c S" and "lazy_step c S T"
  shows "lazy_inv c T"
  using assms(2)
proof cases
  case (CommitTry i issue ls w)
  then show ?thesis
    using commit_try_inv [OF inv] by simp
next
  case (Commit i w)
  note p = lazy_inv_parts [OF inv Commit(2)]
  from commit_moves [OF Commit(3) p(5,6,2,3)] show ?thesis
    unfolding Commit(1) using keeps_lazy_inv [OF inv Commit(2)]
      moves_inv [OF arb_step.Commit p(4) Commit(2)] lazy_inv_update [OF inv] Commit(2) by blast
next
  case (Abort i dg pkt w)
  note p = lazy_inv_parts [OF inv Abort(2)]
  from abort_moves [OF Abort(3) p(5,6,2)] show ?thesis
    unfolding Abort(1) using moves_inv [OF arb_step.Restart p(4) Abort(2)] lazy_inv_update [OF inv] Abort(2) by blast
qed (use lazy_inv_parts [OF inv] keeps_lazy_inv [OF inv] in
      \<open>simp_all add: begin_lazy_keeps load_keeps retire_keeps redirect_keeps bypass_keeps store_keeps writeback_keeps signal_keeps\<close>)

interpretation lazys: invariant_system "lazy_start c" "lazy_step c" "lazy_inv c" for c
  by unfold_locales (auto intro: lazy_start_inv lazy_step_inv)

section \<open>Properties\<close>

text \<open>
  C1. Lazy write-backs never collide. In every state that managers with lazy conflict detection
  reach by their handlers, a manager that is writing back has been validated and each of its
  pending lines is one of its redirected stores; two managers write back at the same time only
  under the \<^verbatim>\<open>magic\<close> policy, and then no line that one of them still has to write has been read or
  written by the other.
\<close>

theorem lazy_writebacks_disjoint:
  assumes "lazy_start c S" and "(lazy_step c)\<^sup>*\<^sup>* S T" and "lazy_arbitration c \<in> {magic, token}"
    and "i < length (managers T)" and "j < length (managers T)" and "i \<noteq> j"
    and "m_committing (lvm (managers T ! i))" and "m_committing (lvm (managers T ! j))"
  shows "lazy_arbitration c = magic \<and> m_validated (arb (managers T ! i))
     \<and> pending_lines (managers T ! i) \<subseteq> redirected (iso (managers T ! i))
     \<and> pending_lines (managers T ! i) \<inter> (reads (iso (managers T ! j)) \<union> redirected (iso (managers T ! j))) = {}"
proof -
  have inv: "lazy_inv c T"
    by (rule lazys.reachable_inv [OF assms(1,2)])
  then have ok: "mgr_ok c (managers T ! i)" "mgr_ok c (managers T ! j)"
    using assms(4,5) lazy_inv_parts(1) by blast+
  then have "m_validated (arb (managers T ! i))" "m_validated (arb (managers T ! j))"
    using assms(7,8) by (simp_all add: mgr_ok_def)
  then have "lazy_arbitration c = magic \<and> \<not> conflicting (managers T ! i) (managers T ! j)"
    using validated_compatible [of c T i j] inv assms(3-6) by (simp add: lazy_inv_def)
  then show ?thesis
    using ok assms(7) unfolding conflicting_def mgr_ok_def by blast
qed

text \<open>A run of two managers: each buffers a store, is validated and starts to flush.\<close>

definition ll_params :: htm_params where
  "ll_params = el_params\<lparr>eager_cd := False\<rparr>"

definition lazy_node :: "nat \<Rightarrow> xact" where
  "lazy_node i = (running_tx ll_params)\<lparr>m_version := i, lvm := (lazyvm_init 0 0)\<lparr>m_requestorID := Some i\<rparr>\<rparr>"

definition stored_node :: "nat \<Rightarrow> addr \<Rightarrow> xact" where
  "stored_node i a = (lazy_node i)\<lparr>lvm := (lazyvm_init 0 0)\<lparr>m_writeBuffer := [(a, 7)], m_writeBufferBlocks := [(a, Pending)],
       m_requestorID := Some i\<rparr>, iso := redirectedStoreToWriteBuffer a iso_init\<rparr>"

definition validated_node :: "nat \<Rightarrow> addr \<Rightarrow> xact" where
  "validated_node i a = with_arb ((stored_node i a)\<lparr>m_atCommit := True\<rparr>) [] True False"

definition flushing_node :: "nat \<Rightarrow> addr \<Rightarrow> xact" where
  "flushing_node i a = (validated_node i a)\<lparr>lvm := (lazyvm_init 0 0)\<lparr>m_writeBuffer := [(a, 7)],
       m_writeBufferBlocks := [(a, Issued)], m_requestorID := Some i, m_committing := True,
       m_issuedWriteBufferRequest := 1\<rparr>\<rparr>"

abbreviation two_nodes :: "xact \<Rightarrow> xact \<Rightarrow> arb_system" where
  "two_nodes v w \<equiv> \<lparr>managers = [v, w], tokenQueue = []\<rparr>"

lemmas node_defs = lazy_node_def stored_node_def validated_node_def flushing_node_def running_tx_def tim_build_def
  with_arb_def quiet_env_def arbiter_init_def

lemma ll_params_sel [simp]:
  "lazy_vm ll_params" "\<not> eager_cd ll_params" "lazy_arbitration ll_params = magic" "block_size_bits ll_params = 6"
  "lazy_commit_width ll_params = lazy_commit_width default_params"
  by (simp_all add: ll_params_def el_params_def default_params_def magic_def)

lemma node_sel [simp]:
  "commitTokens (lazy_node i) = []" "commitTokens (stored_node i a) = []" "commitTokens (validated_node i a) = []"
  "commitTokens (flushing_node i a) = []"
  by (simp_all add: node_defs)

lemma ll_line [simp]: "makeLineAddress 6 0x40 = 0x40" "makeLineAddress 6 0x80 = 0x80"
  by (simp_all add: makeLineAddress_def maskLowOrderBits_def mask64_def mbits_def)

lemma node_stores:
  "makeLineAddress 6 a = a \<Longrightarrow> redirectStoreToWriteBuffer ll_params a [7] (lazy_node i) = Inr (stored_node i a)"
  by (simp add: redirectStoreToWriteBuffer_def addToWriteBuffer_def node_defs lazyvm_init_def)

lemma node_validates:
  assumes "magic_scan ll_params ((stored_node i a)\<lparr>m_atCommit := True, arb := (arb (stored_node i a))\<lparr>m_validating := True\<rparr>\<rparr>)
      ms False = Inr False"
  shows "initiateCommitTransaction ll_params issue ms ls (stored_node i a) = Inr (ls, validated_node i a)"
proof -
  have "\<not> config_allowEarlyValueFwd (stored_node i a)"
    by (simp add: node_defs config_allowEarlyValueFwd_def getFwdMechanism_def ll_params_def el_params_def default_params_def)
  moreover have "initiateValidateTransaction ll_params ms ((stored_node i a)\<lparr>m_atCommit := True\<rparr>) = Inr (validated_node i a)"
    using assms by (simp add: initiateValidateTransaction_def Let_def) (simp add: node_defs)
  ultimately show ?thesis
    by (simp add: initiateCommitTransaction_def Let_def shouldValidateTransaction_def)
      (simp add: node_defs lazyvm_init_def)
qed

lemma node_flushes:
  "initiateCommitTransaction ll_params (\<lambda>_. True) ms ls (validated_node i a)
     = Inr (map (profileRemotelyWrittenByte a) ls, flushing_node i a)"
proof -
  have "\<not> config_allowEarlyValueFwd (validated_node i a)"
    by (simp add: node_defs config_allowEarlyValueFwd_def getFwdMechanism_def ll_params_def el_params_def default_params_def)
  moreover have "lazy_commit ll_params 1 (\<lambda>_. True) ls (lvm (validated_node i a))
      = Inr (map (profileRemotelyWrittenByte a) ls, lvm (flushing_node i a))"
    by (simp add: lazy_commit_def flushWriteBuffer_def node_defs lazyvm_init_def smap_keys_def default_params_def)
  ultimately show ?thesis
    by (simp add: initiateCommitTransaction_def Let_def shouldValidateTransaction_def)
      (simp add: node_defs lazyvm_init_def)
qed

lemma two_nodes_start: "lazy_start ll_params (two_nodes (lazy_node 0) (lazy_node 1))"
  by (auto simp: lazy_start_def arb_start_def nth_Cons' aligned_def node_defs lazyvm_init_def iso_init_def redirected_def
      smap_keys_def config_allowEarlyValueFwd_def getFwdMechanism_def ll_params_def el_params_def default_params_def magic_def)

lemma sys_two:
  "sys_get (two_nodes v w) 0 = v\<lparr>commitTokens := []\<rparr>" "sys_get (two_nodes v w) 1 = w\<lparr>commitTokens := []\<rparr>"
  "commitTokens u = [] \<Longrightarrow> sys_update 0 u (two_nodes v w) = two_nodes u w"
  "commitTokens u = [] \<Longrightarrow> sys_update 1 u (two_nodes v w) = two_nodes v u"
  "set_lvms [k, l] (two_nodes v w) = two_nodes (v\<lparr>lvm := k\<rparr>) (w\<lparr>lvm := l\<rparr>)"
  by (simp_all add: sys_get_def sys_update_def set_lvms_def)

lemma node_tokens [simp]:
  "(lazy_node i)\<lparr>commitTokens := []\<rparr> = lazy_node i" "(stored_node i a)\<lparr>commitTokens := []\<rparr> = stored_node i a"
  "(validated_node i a)\<lparr>commitTokens := []\<rparr> = validated_node i a"
  by (simp_all add: node_defs)

lemma two_step:
  assumes "v\<lparr>commitTokens := []\<rparr> = v" and "commitTokens u = []"
  shows "redirectStoreToWriteBuffer c a bs v = Inr u \<Longrightarrow> \<not> m_validated (arb v) \<Longrightarrow>
      lazy_step c (two_nodes v w) (two_nodes u w)"
    "redirectStoreToWriteBuffer c a bs v = Inr u \<Longrightarrow> \<not> m_validated (arb v) \<Longrightarrow>
      lazy_step c (two_nodes w v) (two_nodes w u)"
    "initiateCommitTransaction c issue [v, w] [lvm v, lvm w] v = Inr ([k, lvm w], u) \<Longrightarrow>
      lazy_step c (two_nodes v w) (two_nodes u w)"
    "initiateCommitTransaction c issue [w, v] [lvm w, lvm v] v = Inr ([lvm w, k], u) \<Longrightarrow>
      lazy_step c (two_nodes w v) (two_nodes w u)"
  using assms lazy_step.Redirect [of 0 "two_nodes v w" c a bs u] lazy_step.Redirect [of 1 "two_nodes w v" c a bs u]
    lazy_step.CommitTry [of 0 "two_nodes v w" c issue "[k, lvm w]" u]
    lazy_step.CommitTry [of 1 "two_nodes w v" c issue "[lvm w, k]" u]
  by (simp_all add: sys_two sys_two(2,4) [simplified])

lemma two_nodes_stored:
  "(lazy_step ll_params)\<^sup>*\<^sup>* (two_nodes (lazy_node 0) (lazy_node 1)) (two_nodes (stored_node 0 0x40) (stored_node 1 0x80))"
proof -
  have nv: "\<not> m_validated (arb (lazy_node i))" for i
    by (simp add: node_defs)
  have "lazy_step ll_params (two_nodes (lazy_node 0) (lazy_node 1)) (two_nodes (stored_node 0 0x40) (lazy_node 1))"
    by (rule two_step(1) [OF _ _ node_stores nv]) simp_all
  moreover have "lazy_step ll_params (two_nodes (stored_node 0 0x40) (lazy_node 1)) (two_nodes (stored_node 0 0x40) (stored_node 1 0x80))"
    by (rule two_step(2) [OF _ _ node_stores nv]) simp_all
  ultimately show ?thesis
    by (rule converse_rtranclp_into_rtranclp [OF _ r_into_rtranclp])
qed

lemma two_nodes_validated:
  "(lazy_step ll_params)\<^sup>*\<^sup>* (two_nodes (stored_node 0 0x40) (stored_node 1 0x80))
     (two_nodes (validated_node 0 0x40) (validated_node 1 0x80))"
proof -
  have 1: "magic_scan ll_params w [stored_node 0 0x40, stored_node 1 0x80] False = Inr False" for w
    by (simp add: node_defs)
  have 2: "magic_scan ll_params ((stored_node 1 0x80)\<lparr>m_atCommit := True,
      arb := (arb (stored_node 1 0x80))\<lparr>m_validating := True\<rparr>\<rparr>) [validated_node 0 0x40, stored_node 1 0x80] False = Inr False"
    using hasConflict_stores [of "0x40" "0x80" ll_params] hasConflict_stores [of "0x80" "0x40" ll_params]
    by (simp add: node_defs tim_hasConflictWith_def)
  from two_step(3) [OF _ _ node_validates [OF 1]] two_step(4) [OF _ _ node_validates [OF 2]] show ?thesis
    by (rule converse_rtranclp_into_rtranclp [OF _ r_into_rtranclp]) simp_all
qed

lemma two_nodes_flushing:
  "(lazy_step ll_params)\<^sup>*\<^sup>* (two_nodes (validated_node 0 0x40) (validated_node 1 0x80))
     (two_nodes (flushing_node 0 0x40) (flushing_node 1 0x80))"
proof -
  have "profileRemotelyWrittenByte 0x40 (lvm (validated_node 1 0x80)) = lvm (validated_node 1 0x80)"
      "profileRemotelyWrittenByte 0x80 (lvm (flushing_node 0 0x40)) = lvm (flushing_node 0 0x40)"
    by (simp_all add: profileRemotelyWrittenByte_def node_defs lazyvm_init_def)
  then have "lazy_step ll_params (two_nodes (validated_node 0 0x40) (validated_node 1 0x80))
       (two_nodes (flushing_node 0 0x40) (validated_node 1 0x80))"
    and "lazy_step ll_params (two_nodes (flushing_node 0 0x40) (validated_node 1 0x80))
       (two_nodes (flushing_node 0 0x40) (flushing_node 1 0x80))"
    using two_step(3) [of "validated_node 0 0x40" _ ll_params "\<lambda>_. True" "validated_node 1 0x80"]
      two_step(4) [of "validated_node 1 0x80" _ ll_params "\<lambda>_. True" "flushing_node 0 0x40"]
    by (simp_all add: node_flushes)
  then show ?thesis
    by (rule converse_rtranclp_into_rtranclp [OF _ r_into_rtranclp])
qed

theorem lazy_writebacks_disjoint_witness:
  "\<exists>T. (lazy_step ll_params)\<^sup>*\<^sup>* (two_nodes (lazy_node 0) (lazy_node 1)) T
     \<and> 0x40 \<in> pending_lines (managers T ! 0) \<and> m_committing (lvm (managers T ! 1))
     \<and> 0x40 \<notin> reads (iso (managers T ! 1)) \<union> redirected (iso (managers T ! 1))"
proof -
  let ?T = "two_nodes (flushing_node 0 0x40) (flushing_node 1 0x80)"
  have run: "(lazy_step ll_params)\<^sup>*\<^sup>* (two_nodes (lazy_node 0) (lazy_node 1)) ?T"
    using two_nodes_stored two_nodes_validated two_nodes_flushing by (meson rtranclp_trans)
  have c: "m_committing (lvm (flushing_node i a))" and p: "a \<in> pending_lines (flushing_node i a)" for i a
    by (simp_all add: flushing_node_def pending_lines_def smap_keys_def)
  show ?thesis
    using run lazy_writebacks_disjoint [OF two_nodes_start run, of 0 1] c p [of "0x40" 0]
    by (intro exI [of _ ?T]) auto
qed

end
