(* ===== verification/Forward_Graph.thy ===== *)
theory Forward_Graph
  imports Lifecycle
begin

text \<open>
  The graph of speculative dependencies. A transaction that consumed a value must not commit before
  the one that produced it, so a cycle of such dependencies could never commit. The hardware
  priorities keep the graph acyclic: every dependency goes from a higher to a lower priority. This
  theory puts the handlers of producers and consumers side by side, with requests and nacks in
  flight between the managers in any order, and shows that no cycle ever forms.
\<close>

section \<open>What the handlers do to priorities\<close>

text \<open>What the argument needs to know of a manager.\<close>

definition same_tx :: "xact \<Rightarrow> xact \<Rightarrow> bool" where
  "same_tx w w' \<longleftrightarrow> tim_currentHtmUid w' = tim_currentHtmUid w \<and> m_transactionLevel w' = m_transactionLevel w
     \<and> same_policy w w'"

lemma same_tx_refl [simp]: "same_tx w w"
  by (simp add: same_tx_def same_policy_def)

lemma same_tx_trans: "same_tx u v \<Longrightarrow> same_tx v w \<Longrightarrow> same_tx u w"
  by (simp add: same_tx_def same_policy_def)

definition quiet :: "xact \<Rightarrow> xact \<Rightarrow> bool" where
  "quiet w w' \<longleftrightarrow> same_tx w w' \<and> m_hwTransPrio w' = m_hwTransPrio w \<and> isConsumer w' = isConsumer w"

lemma quiet_refl [simp]: "quiet w w"
  by (simp add: quiet_def)

lemma quiet_trans: "quiet u v \<Longrightarrow> quiet v w \<Longrightarrow> quiet u w"
  by (auto simp: quiet_def intro: same_tx_trans)

lemma abort_frame_quiet: "abort_frame w w' \<Longrightarrow> quiet w w'"
  by (erule abort_frameE) (simp add: quiet_def same_tx_def same_policy_def isConsumer_def)

lemma setAbortFlag_quiet: "setAbortFlag c a i t p sw why w = Inr w' \<Longrightarrow> quiet w w'"
  by (rule abort_frame_quiet) (rule setAbortFlag_frame)

lemma switchHwPrio_same:
  "switchHwPrio c r sw recv w = Inr w' \<Longrightarrow> same_tx w w' \<and> isConsumer w' = isConsumer w"
  by (drule switchHwPrio_ex) (auto simp: same_tx_def same_policy_def isConsumer_def)

lemma switchHwPrio_received:
  assumes "switchHwPrio c r sw True w = Inr w'" and "prioMechanism w = numeric"
  shows "m_hwTransPrio w' = (if m_hwTransPrio w = NC_PRIO_VALUE \<and> \<not> sw then cint (r - 1) else m_hwTransPrio w)"
  using assms by (auto simp: switchHwPrio_def asrt_eq_Inr rbind_eq_Inr split: if_splits)

lemma switchHwPrio_sent:
  assumes run: "switchHwPrio c r sw False w = Inr w'" and num: "prioMechanism w = numeric"
    and fwd: "config_allowEarlyValueFwd w" and pol: "conflict_resolution c \<noteq> requester_stalls_pic_base"
  shows "isConsumer w \<Longrightarrow> m_hwTransPrio w' = m_hwTransPrio w"
    and "m_powered (conf w) \<Longrightarrow> m_hwTransPrio w' = NC_PRIO_VALUE \<and> m_hwTransPrio w = NC_PRIO_VALUE"
    and "\<not> isConsumer w \<Longrightarrow> \<not> m_powered (conf w) \<Longrightarrow> r = NC_PRIO_VALUE \<Longrightarrow>
      m_hwTransPrio w' = (if m_hwTransPrio w = NC_PRIO_VALUE then INITIAL_PRIO_VALUE else m_hwTransPrio w)"
    and "\<not> isConsumer w \<Longrightarrow> \<not> m_powered (conf w) \<Longrightarrow> r \<noteq> NC_PRIO_VALUE \<Longrightarrow>
      m_hwTransPrio w' = (if m_hwTransPrio w > r then m_hwTransPrio w else cint (r + 1))"
proof -
  have np: "prioMechanism w \<noteq> no_prio"
    using num by simp
  obtain sw' where sw': "getSwTransactionPriority w = Inr sw'"
      and step: "(if sw' then asrt TIM_cc 474 (m_hwTransPrio w = NC_PRIO_VALUE) (Inr w)
          else if conflict_resolution c = requester_stalls_pic_base \<and> \<not> m_stalled w
                  \<or> config_allowEarlyValueFwd w \<and> \<not> isConsumer w
          then (if r = NC_PRIO_VALUE
                then Inr (w\<lparr>m_hwTransPrio := (if m_hwTransPrio w = r then INITIAL_PRIO_VALUE else m_hwTransPrio w)\<rparr>)
                else asrt TIM_cc 489 (\<not> m_stalled w \<and> \<not> isConsumer w \<or> m_hwTransPrio w > r)
                       (Inr (w\<lparr>m_hwTransPrio := (if m_hwTransPrio w > r then m_hwTransPrio w else cint (r + 1))\<rparr>)))
          else Inr w) = Inr w'"
    using run unfolding switchHwPrio_def if_not_P [OF np] if_False asrt_eq_Inr rbind_eq_Inr by blast
  have sw'_eq: "sw' = m_powered (conf w)"
    using sw' by (auto simp: getSwTransactionPriority_def isPowered_def asrt_eq_Inr split: if_splits)
  show "m_hwTransPrio w' = m_hwTransPrio w" if "isConsumer w"
    using step pol that by (cases sw') (auto simp: asrt_eq_Inr)
  show "m_hwTransPrio w' = NC_PRIO_VALUE \<and> m_hwTransPrio w = NC_PRIO_VALUE" if "m_powered (conf w)"
    using step sw'_eq that by (auto simp: asrt_eq_Inr)
  show "m_hwTransPrio w' = (if m_hwTransPrio w = NC_PRIO_VALUE then INITIAL_PRIO_VALUE else m_hwTransPrio w)"
    if "\<not> isConsumer w" "\<not> m_powered (conf w)" "r = NC_PRIO_VALUE"
    using step sw'_eq that fwd by auto
  show "m_hwTransPrio w' = (if m_hwTransPrio w > r then m_hwTransPrio w else cint (r + 1))"
    if "\<not> isConsumer w" "\<not> m_powered (conf w)" "r \<noteq> NC_PRIO_VALUE"
    using step sw'_eq that fwd by (auto simp: asrt_eq_Inr)
qed

section \<open>Producer and consumer handlers\<close>

lemma fwd_refused_False: "fwd_refused c a t p sw m why l w = Inr (b, w') \<Longrightarrow> \<not> b"
  unfolding fwd_refused_def by (auto simp: rbind_eq_Inr split: if_splits)

lemma shouldForward_keeps:
  assumes "shouldForwardDataToConsumer c a m t r sw wif w = Inr (True, w')"
  shows "w' = w" and "config_allowEarlyValueFwd w"
proof -
  have fwd: "config_allowEarlyValueFwd w \<and> \<not> m_abortFlag w"
    using assms unfolding shouldForwardDataToConsumer_def by (cases "config_allowEarlyValueFwd w \<and> \<not> m_abortFlag w") auto
  then have "shouldBecomeProducer c a t r sw m wif w = Inr (True, w')"
    using assms unfolding shouldForwardDataToConsumer_def by (auto simp: rbind_eq_Inr split: if_splits)
  then show "w' = w"
    unfolding shouldBecomeProducer_def
    by (auto simp only: rbind_eq_Inr asrt_eq_Inr sum.inject prod.inject if_split_mem1 split: if_split_asm
        dest!: fwd_refused_False)
  show "config_allowEarlyValueFwd w"
    using fwd by simp
qed

lemma addConsumer_steps:
  assumes "addConsumer c uninit a m r sw w = Inr w'"
  obtains w1 w2 where "quiet w w1" "m_powered (conf w1) = m_powered (conf w)"
    "switchHwPrio c r sw False w1 = Inr w2" "quiet w2 w'" "m_powered (conf w') = m_powered (conf w)"
proof -
  obtain turned w2 hit where
    w2: "switchHwPrio c r sw False (w\<lparr>m_consumerTurnedProducer := (if turned then True else m_consumerTurnedProducer w),
                m_hasSentDataToConsumer := mset_insert m (m_hasSentDataToConsumer w)\<rparr>) = Inr w2"
    and hit: "(case hit of None \<Rightarrow> Inl (AssertFail TIM_cc 554)
          | Some db \<Rightarrow> rbind (record_sent uninit a m db w2) (\<lambda>w3. rbind (hasConsumedData w3) (\<lambda>_. Inr w3))) = Inr w'"
    using assms unfolding addConsumer_def Let_def rbind_eq_Inr asrt_eq_Inr by blast
  then obtain db where w': "record_sent uninit a m db w2 = Inr w'"
    by (cases hit) (auto simp: rbind_eq_Inr)
  have "quiet w2 w'" and "conf w' = conf w2"
    using w' unfolding record_sent_def
    by (auto simp: rbind_eq_Inr quiet_def same_tx_def same_policy_def isConsumer_def)
  moreover have "conf w2 = conf w"
    using switchHwPrio_ex [OF w2] by auto
  ultimately show thesis
    by (intro that [OF _ _ w2]) (simp_all add: quiet_def same_tx_def same_policy_def isConsumer_def)
qed

lemma isIllegalNack_legal:
  assumes "isIllegalNack c a m w = Inr (False, w')"
    and "getHwPrioMechanism c = numeric" and "getFwdCycleSolveStrategy c \<noteq> no_strategy"
  shows "w' = w \<and> m_hwTransPrio w < m"
  using assms unfolding isIllegalNack_def by (auto simp: rbind_eq_Inr asrt_eq_Inr split: if_splits)

lemma insert_consumed_keeps:
  "same_tx w (insert_consumed c a db m w) \<and> m_hwTransPrio (insert_consumed c a db m w) = m_hwTransPrio w
     \<and> isConsumer (insert_consumed c a db m w)"
proof -
  have "smap_find (smap_insert a v (m_recvDataForwardedFromProducer w)) a \<noteq> None" for v
    by (auto simp: smap_simps)
  then show ?thesis
    by (auto simp: insert_consumed_def Let_def same_tx_def same_policy_def isConsumer_def smap_empty_iff)
qed

lemma schedule_quiet: "scheduleValidationOfConsumedData c a retry w = Inr w' \<Longrightarrow> quiet w w'"
  by (drule schedule_shape) (auto simp: quiet_def same_tx_def same_policy_def isConsumer_def)

lemma consume_block_keeps:
  assumes "consume_block c a db m w = Inr w'"
  shows "same_tx w w' \<and> m_hwTransPrio w' = m_hwTransPrio w \<and> isConsumer w'"
proof (cases "isConsumer w")
  case True
  then have "w' = insert_consumed c a db m w"
    using assms by (simp add: consume_block_def)
  then show ?thesis
    using insert_consumed_keeps by simp
next
  case False
  define fill where
    "fill = (\<lambda>v. (insert_consumed c a db m v)\<lparr>m_consumerLowPrio := True, m_hasReceivedDataFromProducer := m\<rparr>)"
  obtain before w1 where
    step: "(if \<not> before then asrt TIM_cc 671 (smap_find (m_allReceivedData w) a = None) (Inr w)
            else Inr (w\<lparr>m_reconsumer := True\<rparr>)) = Inr w1"
    and rest: "(if \<not> isAborting (fill w1) then scheduleValidationOfConsumedData c a False (fill w1)
            else Inr (fill w1)) = Inr w'"
    using assms unfolding consume_block_def Let_def if_P [OF False] rbind_eq_Inr asrt_eq_Inr fill_def by blast
  define w2 where w2: "w2 = fill w1"
  have w1: "w1 = w \<or> w1 = w\<lparr>m_reconsumer := True\<rparr>"
    using step by (cases before) (auto simp: asrt_eq_Inr)
  have "same_tx w w1 \<and> m_hwTransPrio w1 = m_hwTransPrio w"
    using w1 by (auto simp: same_tx_def same_policy_def)
  moreover have "same_tx w1 w2 \<and> m_hwTransPrio w2 = m_hwTransPrio w1 \<and> isConsumer w2"
    using insert_consumed_keeps [of w1 c a db m] unfolding w2 fill_def by (simp add: same_tx_def same_policy_def isConsumer_def)
  moreover have "quiet w2 w'"
    using rest schedule_quiet unfolding w2 by (cases "isAborting (fill w1)") auto
  ultimately show ?thesis
    by (auto simp: quiet_def intro: same_tx_trans)
qed

lemma consumed_overflow_quiet: "consumed_overflow c a m r sw w = Inr w' \<Longrightarrow> quiet w w'"
  unfolding consumed_overflow_def
  by (auto simp: rbind_eq_Inr split: if_splits dest!: setAbortFlag_quiet intro: quiet_trans)

lemma notifyForwarded_keeps:
  assumes run: "notifyForwardedDataFromProducer c a db m ts r sw w = Inr w'"
    and ns: "isRequesterStallsPolicy (conf w) = Inr False" and num: "prioMechanism w = numeric"
  shows "same_tx w w' \<and> isConsumer w'
     \<and> m_hwTransPrio w' = (if m_hwTransPrio w = NC_PRIO_VALUE \<and> \<not> sw then cint (r - 1) else m_hwTransPrio w)"
proof -
  obtain consumed w1 uid stalls w2 w3 where
    w1: "(if consumed then Inr w
            else rbind (isProducer c w) (\<lambda>p.
              if p then asrt TIM_cc 609 (\<not> m_producerTurnedConsumer w \<and> \<not> m_consumerTurnedProducer w)
                          (Inr (w\<lparr>m_producerTurnedConsumer := True\<rparr>))
              else Inr w)) = Inr w1"
    and rest: "(if \<not> inTransaction w1 \<or> uid < tim_currentHtmUid w1 then Inl (AssertFail TIM_cc 622)
          else rbind (isRequesterStallsPolicy (conf w1)) (\<lambda>stalls.
               rbind (if stalls
                      then notifyReceiveNack c a ts TransactionBit_Trans r sw m w1
                      else switchHwPrio c r sw True w1) (\<lambda>w2.
               rbind (consume_block c a db m w2) (consumed_overflow c a m r sw)))) = Inr w'"
    using run unfolding notifyForwardedDataFromProducer_def rbind_eq_Inr asrt_eq_Inr by blast
  have q1: "quiet w w1 \<and> conf w1 = conf w \<and> prioMechanism w1 = prioMechanism w"
    using w1 by (cases consumed) (auto simp: rbind_eq_Inr asrt_eq_Inr quiet_def same_tx_def same_policy_def
        isConsumer_def split: if_splits)
  then obtain w2 w3 where w2: "switchHwPrio c r sw True w1 = Inr w2" and w3: "consume_block c a db m w2 = Inr w3"
      and w': "consumed_overflow c a m r sw w3 = Inr w'"
    using rest ns by (auto simp: rbind_eq_Inr split: if_splits)
  have "m_hwTransPrio w2 = (if m_hwTransPrio w1 = NC_PRIO_VALUE \<and> \<not> sw then cint (r - 1) else m_hwTransPrio w1)"
    using switchHwPrio_received [OF w2] num q1 by simp
  then show ?thesis
    using q1 switchHwPrio_same [OF w2] consume_block_keeps [OF w3] consumed_overflow_quiet [OF w']
    by (auto simp: quiet_def intro: same_tx_trans)
qed

lemma validated_with_data_keeps:
  assumes "validated_with_data c a i w = Inr w'"
  shows "same_tx w w' \<and> m_hwTransPrio w' = m_hwTransPrio w \<and> (isConsumer w' \<longrightarrow> isConsumer w)"
  using assms unfolding validated_with_data_def Let_def asrt_eq_Inr
  by (auto simp: same_tx_def same_policy_def isConsumer_def smap_erase_def split: if_splits)

lemma validated_with_nack_keeps:
  assumes run: "validated_with_nack c a m ts w = Inr w'" and ns: "isRequesterStallsPolicy (conf w) = Inr False"
  shows "quiet w w'"
proof -
  have "(if \<not> isAborting w then schedule_next c a w else Inr w) = Inr w'"
    using run ns by (simp add: validated_with_nack_def)
  then show ?thesis
    using schedule_next_shape [of c a w w'] by (cases "isAborting w") (auto simp: quiet_def same_tx_def same_policy_def isConsumer_def)
qed

lemma validateDataBlock_keeps:
  assumes run: "validateDataBlock c a m cache valid ts dirty isNack w = Inr (ok, cache', w')"
    and ns: "isRequesterStallsPolicy (conf w) = Inr False"
  shows "same_tx w w' \<and> m_hwTransPrio w' = m_hwTransPrio w \<and> isConsumer w \<and> (isNack \<longrightarrow> isConsumer w')"
proof -
  have con: "isConsumer w"
    using run unfolding validateDataBlock_def asrt_eq_Inr by blast
  obtain f i where fi: "smap_find (m_recvDataForwardedFromProducer w) a = Some f" "smap_find (m_allReceivedData w) a = Some i"
    using run unfolding validateDataBlock_def asrt_eq_Inr by (auto split: option.splits)
  obtain f' i' verdict w2 where
    w2: "(if verdict then Inr (w\<lparr>m_recvDataForwardedFromProducer := smap_assign a f' (m_recvDataForwardedFromProducer w),
              m_allReceivedData := smap_assign a i' (m_allReceivedData w)\<rparr>)
          else setAbortFlag c a createInvalidMachineID TransactionBit_NonTrans NC_PRIO_VALUE False
                 (no_why\<lparr>why_validation := True\<rparr>)
                 (w\<lparr>m_recvDataForwardedFromProducer := smap_assign a f' (m_recvDataForwardedFromProducer w),
                    m_allReceivedData := smap_assign a i' (m_allReceivedData w)\<rparr>)) = Inr w2"
    and w': "(if isNack then validated_with_nack c a m ts w2 else validated_with_data c a i' w2) = Inr w'"
    using run unfolding validateDataBlock_def fi asrt_eq_Inr Let_def
    by (simp only: prod.case option.case rbind_eq_Inr split_paired_Ex sum.inject prod.inject) blast
  let ?w1 = "w\<lparr>m_recvDataForwardedFromProducer := smap_assign a f' (m_recvDataForwardedFromProducer w),
              m_allReceivedData := smap_assign a i' (m_allReceivedData w)\<rparr>"
  have "quiet w ?w1"
    using con by (auto simp: quiet_def same_tx_def same_policy_def isConsumer_def smap_empty_iff)
  moreover have "quiet ?w1 w2"
    using w2 setAbortFlag_quiet by (cases verdict) auto
  ultimately have q: "quiet w w2"
    by (rule quiet_trans)
  then have "isRequesterStallsPolicy (conf w2) = Inr False"
    using ns by (auto simp: quiet_def same_tx_def same_policy_def isRequesterStallsPolicy_def asrt_eq_Inr)
  then show ?thesis
    using q w' con validated_with_nack_keeps [of c a m ts w2 w'] validated_with_data_keeps [of c a i' w2 w']
    by (cases isNack) (auto simp: quiet_def intro: same_tx_trans)
qed

lemma begin_versions_quiet: "begin_versions c pkt w = Inr w' \<Longrightarrow> quiet w w'"
  by (auto simp: begin_versions_def rbind_eq_Inr quiet_def same_tx_def same_policy_def isConsumer_def split: if_splits)

lemma conflict_begin_policy:
  "conflict_begin l now p s = Inr s' \<Longrightarrow> m_default_policy s' = m_default_policy s \<and> m_policy s' = m_policy s"
  by (auto simp: conflict_begin_def asrt_eq_Inr Let_def split: if_splits)

lemma begin_keeps:
  assumes run: "beginTransaction c pkt w = Inr w'" and fwd: "config_allowEarlyValueFwd w"
  shows "tim_currentHtmUid w < tim_currentHtmUid w' \<and> m_transactionLevel w' = 1 \<and> same_policy w w'
     \<and> m_hwTransPrio w' = NC_PRIO_VALUE \<and> m_hwTransPrio w = NC_PRIO_VALUE \<and> \<not> isConsumer w' \<and> \<not> isConsumer w"
proof -
  have lvl: "m_transactionLevel w = 0" and run1: "begin_outermost c pkt (w\<lparr>m_transactionLevel := 1\<rparr>) = Inr w'"
    using run by (auto simp: beginTransaction_def asrt_eq_Inr Let_def)
  let ?w0 = "w\<lparr>m_transactionLevel := 1\<rparr>"
  define w1 where "w1 = (\<lambda>s. ?w0\<lparr>tim_currentHtmUid := pkt_uid pkt, m_htmXid := pkt_xid pkt, iso := iso_begin (iso ?w0), conf := s\<rparr>)"
  obtain s u w2 where uid: "tim_currentHtmUid ?w0 < pkt_uid pkt"
      and s: "conflict_begin (m_transactionLevel ?w0) (curCycle ?w0) (pkt_power pkt) (conf ?w0) = Inr s"
      and clean: "(if config_allowEarlyValueFwd (w1 s) then begin_fwd_clean c (w1 s) else Inr ()) = Inr u"
      and w2: "begin_versions c pkt (w1 s) = Inr w2"
      and prio: "config_allowEarlyValueFwd (w2\<lparr>m_htmstart_tick := pkt_time pkt\<rparr>) \<longrightarrow>
          m_hwTransPrio (w2\<lparr>m_htmstart_tick := pkt_time pkt\<rparr>) = NC_PRIO_VALUE"
      and w': "w2\<lparr>m_htmstart_tick := pkt_time pkt\<rparr> = w'"
    using run1 unfolding begin_outermost_def Let_def asrt_eq_Inr rbind_eq_Inr sum.inject w1_def by blast
  have f1: "config_allowEarlyValueFwd (w1 s)"
    using fwd by (simp add: w1_def config_allowEarlyValueFwd_def)
  then have "\<not> isConsumer (w1 s)"
    using clean by (auto simp: begin_fwd_clean_def rbind_eq_Inr asrt_eq_Inr)
  moreover have "quiet (w1 s) w2"
    by (rule begin_versions_quiet [OF w2])
  moreover have "same_policy w (w1 s) \<and> tim_currentHtmUid (w1 s) = pkt_uid pkt \<and> m_transactionLevel (w1 s) = 1
      \<and> m_hwTransPrio (w1 s) = m_hwTransPrio w \<and> isConsumer (w1 s) = isConsumer w"
    using conflict_begin_policy [OF s] by (simp add: w1_def same_policy_def isConsumer_def)
  ultimately show ?thesis
    using uid prio f1 unfolding w' [symmetric]
    by (auto simp: quiet_def same_tx_def same_policy_def config_allowEarlyValueFwd_def isConsumer_def)
qed

section \<open>The system\<close>

text \<open>
  A request carries the priority that its transaction had when it was issued; a nack with data
  carries the priority of the producer after it has been adjusted for the consumer, and the
  identifier of the producing transaction. Messages are never removed, so they may arrive late,
  more than once or not at all. A dependency is recorded when a consumer accepts data while the
  producing transaction is still running; it ends with either transaction, or when the consumer has
  validated all it consumed.
\<close>

record fwd_request =
  rq_from :: nat
  rq_addr :: addr
  rq_prio :: int
  rq_sw :: bool

record fwd_nack =
  nk_from :: nat
  nk_uid :: nat
  nk_to :: nat
  nk_addr :: addr
  nk_prio :: int
  nk_sw :: bool

record fwd_system =
  node :: "nat \<Rightarrow> xact"
  requests :: "fwd_request set"
  nacks :: "fwd_nack set"
  deps :: "(nat \<times> nat) set"

definition l1 :: "nat \<Rightarrow> MachineID" where
  "l1 i = \<lparr>mach_type = L1Cache, mach_num = i\<rparr>"

definition live :: "fwd_system \<Rightarrow> nat \<Rightarrow> nat \<Rightarrow> bool" where
  "live S p u \<longleftrightarrow> m_transactionLevel (node S p) > 0 \<and> tim_currentHtmUid (node S p) = u"

abbreviation prio_of :: "fwd_system \<Rightarrow> nat \<Rightarrow> int" where
  "prio_of S i \<equiv> m_hwTransPrio (node S i)"

definition accept :: "nat \<Rightarrow> xact \<Rightarrow> fwd_nack \<Rightarrow> fwd_system \<Rightarrow> fwd_system" where
  "accept q w k S = S\<lparr>node := (node S)(q := w),
     deps := deps S \<union> (if live S (nk_from k) (nk_uid k) then {(nk_from k, q)} else {})\<rparr>"

inductive fwd_step :: "htm_params \<Rightarrow> fwd_system \<Rightarrow> fwd_system \<Rightarrow> bool" for c where
  Request: "getSwTransactionPriority (node S q) = Inr sw \<Longrightarrow>
    fwd_step c S (S\<lparr>requests := insert \<lparr>rq_from = q, rq_addr = a, rq_prio = getTransactionPriority (node S q), rq_sw = sw\<rparr>
                                  (requests S)\<rparr>)"
| Forward: "r \<in> requests S \<Longrightarrow> rq_from r \<noteq> p \<Longrightarrow>
    shouldForwardDataToConsumer c (rq_addr r) (l1 (rq_from r)) TransactionBit_Trans (rq_prio r) (rq_sw r) wif (node S p)
      = Inr (True, w1) \<Longrightarrow>
    addConsumer c uninit (rq_addr r) (l1 (rq_from r)) (rq_prio r) (rq_sw r) w1 = Inr w2 \<Longrightarrow>
    getSwTransactionPriority w2 = Inr sw \<Longrightarrow>
    fwd_step c S (S\<lparr>node := (node S)(p := w2),
      nacks := insert \<lparr>nk_from = p, nk_uid = tim_currentHtmUid w2, nk_to = rq_from r, nk_addr = rq_addr r,
                 nk_prio = getTransactionPriority w2, nk_sw = sw\<rparr> (nacks S)\<rparr>)"
| Consume: "k \<in> nacks S \<Longrightarrow> nk_to k = q \<Longrightarrow>
    isIllegalNack c (nk_addr k) (nk_prio k) (node S q) = Inr (False, w1) \<Longrightarrow>
    shouldAcceptForwardedDataFromProducer c w1 = Inr True \<Longrightarrow>
    notifyForwardedDataFromProducer c (nk_addr k) db (l1 (nk_from k)) ts (nk_prio k) (nk_sw k) w1 = Inr w2 \<Longrightarrow>
    fwd_step c S (accept q w2 k S)"
| Revalidate: "k \<in> nacks S \<Longrightarrow> nk_to k = q \<Longrightarrow>
    isIllegalNack c (nk_addr k) (nk_prio k) (node S q) = Inr (False, w1) \<Longrightarrow>
    shouldAcceptForwardedDataFromProducer c w1 = Inr True \<Longrightarrow>
    validateDataBlock c (nk_addr k) (l1 (nk_from k)) cache valid ts dirty True w1 = Inr (ok, cache', w2) \<Longrightarrow>
    fwd_step c S (accept q w2 k S)"
| Validate: "validateDataBlock c a src cache valid ts dirty False (node S q) = Inr (ok, cache', w) \<Longrightarrow>
    fwd_step c S (S\<lparr>node := (node S)(q := w),
      deps := (if isConsumer w then deps S else deps S - UNIV \<times> {q})\<rparr>)"
| Finish: "active c (node S q) \<Longrightarrow> iso_ok c (iso (node S q)) \<Longrightarrow>
    commitTransaction c (node S q) = Inr w \<or> abortTransaction c dg pkt (node S q) = Inr w \<Longrightarrow>
    fwd_step c S (S\<lparr>node := (node S)(q := w), deps := deps S - UNIV \<times> {q} - {q} \<times> UNIV\<rparr>)"
| Begin: "beginTransaction c pkt (node S q) = Inr w \<Longrightarrow> fwd_step c S (S\<lparr>node := (node S)(q := w)\<rparr>)"
| Local: "quiet (node S q) w \<Longrightarrow>
    fwd_step c S (S\<lparr>node := (node S)(q := w)\<rparr>)"

definition fwd_start :: "htm_params \<Rightarrow> fwd_system \<Rightarrow> bool" where
  "fwd_start c S \<longleftrightarrow> requests S = {} \<and> nacks S = {} \<and> deps S = {}
     \<and> (\<forall>i. idle c (node S i) \<and> policy_ok c (node S i))"

text \<open>The systems that the argument is about: forwarding with numeric priorities and checked nacks.\<close>

definition pic_config :: "htm_params \<Rightarrow> bool" where
  "pic_config c \<longleftrightarrow> getHwPrioMechanism c = numeric \<and> getFwdMechanism c \<noteq> no_fwd
     \<and> getFwdCycleSolveStrategy c \<noteq> no_strategy \<and> lazy_vm c
     \<and> getResolutionPolicy c \<noteq> RequesterStalls \<and> getResolutionPolicy c \<noteq> UndefinedPolicy"

section \<open>The invariant\<close>

text \<open>Priorities move by at most one in a step, which keeps them away from the ends of \<^verbatim>\<open>int\<close>.\<close>

definition in_range :: "nat \<Rightarrow> int \<Rightarrow> bool" where
  "in_range n x \<longleftrightarrow> x = NC_PRIO_VALUE \<or> - int n \<le> x \<and> x \<le> int n"

definition node_ok :: "htm_params \<Rightarrow> nat \<Rightarrow> xact \<Rightarrow> bool" where
  "node_ok c n w \<longleftrightarrow>
     fwdMechanism w = getFwdMechanism c \<and> prioMechanism w = getHwPrioMechanism c
     \<and> m_default_policy (conf w) = getResolutionPolicy c
     \<and> in_range n (m_hwTransPrio w) \<and> (isConsumer w \<longrightarrow> m_hwTransPrio w \<noteq> NC_PRIO_VALUE)"

definition nack_ok :: "nat \<Rightarrow> fwd_system \<Rightarrow> fwd_nack \<Rightarrow> bool" where
  "nack_ok n S k \<longleftrightarrow>
     in_range n (nk_prio k) \<and> (nk_sw k \<longrightarrow> nk_prio k = NC_PRIO_VALUE)
     \<and> nk_uid k \<le> tim_currentHtmUid (node S (nk_from k))
     \<and> (live S (nk_from k) (nk_uid k) \<longrightarrow> nk_prio k \<le> prio_of S (nk_from k))"

definition fwd_inv :: "htm_params \<Rightarrow> nat \<Rightarrow> fwd_system \<Rightarrow> bool" where
  "fwd_inv c n S \<longleftrightarrow>
     (\<forall>i. node_ok c n (node S i)) \<and> (\<forall>r \<in> requests S. in_range n (rq_prio r)) \<and> (\<forall>k \<in> nacks S. nack_ok n S k)
     \<and> (\<forall>(p, q) \<in> deps S. prio_of S q < prio_of S p \<and> isConsumer (node S q)) \<and> finite (deps S)"

lemma fwd_invI:
  assumes "\<And>i. node_ok c n (node S i)" and "\<And>r. r \<in> requests S \<Longrightarrow> in_range n (rq_prio r)"
    and "\<And>k. k \<in> nacks S \<Longrightarrow> nack_ok n S k"
    and "\<And>p q. (p, q) \<in> deps S \<Longrightarrow> prio_of S q < prio_of S p \<and> isConsumer (node S q)" and "finite (deps S)"
  shows "fwd_inv c n S"
  using assms unfolding fwd_inv_def by auto

lemma fwd_invD:
  assumes "fwd_inv c n S"
  shows "node_ok c n (node S i)" "r \<in> requests S \<Longrightarrow> in_range n (rq_prio r)" "k \<in> nacks S \<Longrightarrow> nack_ok n S k"
    "(p, q) \<in> deps S \<Longrightarrow> prio_of S q < prio_of S p \<and> isConsumer (node S q)" "finite (deps S)"
  using assms unfolding fwd_inv_def by auto

lemma in_range_mono: "in_range n x \<Longrightarrow> n \<le> m \<Longrightarrow> in_range m x"
  by (auto simp: in_range_def)

lemma in_range_least: "in_range n x \<Longrightarrow> n < 2147483647 \<Longrightarrow> NC_PRIO_VALUE \<le> x"
  by (auto simp: in_range_def NC_PRIO_VALUE_def)

lemma cint_in: "- 2147483648 \<le> x \<Longrightarrow> x \<le> 2147483647 \<Longrightarrow> cint x = x"
  by (simp add: cint_def)

lemma fwd_inv_next: "fwd_inv c n S \<Longrightarrow> fwd_inv c (Suc n) S"
  using in_range_mono [of n _ "Suc n"] unfolding fwd_inv_def node_ok_def nack_ok_def by auto

text \<open>
  One manager changes: it is enough that its priority only rises, and stays as it is while it is a
  consumer, that messages of its running transaction survive, and that the dependencies shrink.
\<close>

definition grows :: "xact \<Rightarrow> xact \<Rightarrow> bool" where
  "grows w w' \<longleftrightarrow> m_hwTransPrio w \<le> m_hwTransPrio w' \<and> (isConsumer w \<longrightarrow> m_hwTransPrio w' = m_hwTransPrio w)"

lemma fwd_inv_grow:
  assumes inv: "fwd_inv c n S" and ok: "node_ok c n w'" and g: "grows (node S q) w'" and tx: "same_tx (node S q) w'"
    and D: "D \<subseteq> deps S" "\<forall>p. (p, q) \<in> D \<longrightarrow> isConsumer w'"
  shows "fwd_inv c n (S\<lparr>node := (node S)(q := w'), deps := D\<rparr>)"
proof -
  let ?T = "S\<lparr>node := (node S)(q := w'), deps := D\<rparr>"
  have 1: "nack_ok n ?T k" if "k \<in> nacks S" for k
    using fwd_invD(3) [OF inv that] g tx unfolding nack_ok_def live_def grows_def same_tx_def by auto
  have 2: "prio_of ?T b < prio_of ?T a \<and> isConsumer (node ?T b)" if e: "(a, b) \<in> D" for a b
  proof -
    have "prio_of S b < prio_of S a" "isConsumer (node S b)"
      using fwd_invD(4) [OF inv] e D(1) by blast+
    then show ?thesis
      using g D(2) e by (auto simp: grows_def)
  qed
  show ?thesis
    by (rule fwd_invI) (use 1 2 ok D(1) fwd_invD [OF inv] in \<open>auto intro: finite_subset\<close>)
qed

text \<open>One manager is between transactions or has just begun one.\<close>

lemma fwd_inv_reset:
  assumes inv: "fwd_inv c n S" and ok: "node_ok c n w'" and nl: "\<forall>k \<in> nacks S. \<not> live (S\<lparr>node := (node S)(q := w')\<rparr>) q (nk_uid k) \<or> nk_from k \<noteq> q"
    and uid: "tim_currentHtmUid (node S q) \<le> tim_currentHtmUid w'"
    and D: "D \<subseteq> deps S" "\<forall>p. (p, q) \<notin> D \<and> (q, p) \<notin> D"
  shows "fwd_inv c n (S\<lparr>node := (node S)(q := w'), deps := D\<rparr>)"
proof -
  let ?T = "S\<lparr>node := (node S)(q := w'), deps := D\<rparr>"
  have 1: "nack_ok n ?T k" if k: "k \<in> nacks S" for k
  proof (cases "nk_from k = q")
    case True
    then have "\<not> live ?T q (nk_uid k)"
      using nl k by (auto simp: live_def)
    then show ?thesis
      using fwd_invD(3) [OF inv k] True uid by (auto simp: nack_ok_def)
  next
    case False
    then show ?thesis
      using fwd_invD(3) [OF inv k] by (auto simp: nack_ok_def live_def)
  qed
  have 2: "prio_of ?T b < prio_of ?T a \<and> isConsumer (node ?T b)" if e: "(a, b) \<in> D" for a b
  proof -
    have "a \<noteq> q" "b \<noteq> q"
      using D(2) e by auto
    then show ?thesis
      using fwd_invD(4) [OF inv] D(1) e by auto
  qed
  show ?thesis
    by (rule fwd_invI) (use 1 2 ok D(1) fwd_invD [OF inv] in \<open>auto intro: finite_subset\<close>)
qed

lemma fwd_inv_nack:
  assumes "fwd_inv c n S" and "nack_ok n S k"
  shows "fwd_inv c n (S\<lparr>nacks := insert k (nacks S)\<rparr>)"
  by (rule fwd_invI) (use assms(2) fwd_invD [OF assms(1)] in \<open>auto simp: nack_ok_def live_def\<close>)

lemma fwd_inv_dep:
  assumes "fwd_inv c n S" and "prio_of S q < prio_of S p" and "isConsumer (node S q)"
  shows "fwd_inv c n (S\<lparr>deps := insert (p, q) (deps S)\<rparr>)"
  by (rule fwd_invI) (use assms(2,3) fwd_invD [OF assms(1)] in \<open>auto simp: nack_ok_def live_def\<close>)

lemma node_ok_quiet: "node_ok c n w \<Longrightarrow> quiet w w' \<Longrightarrow> node_ok c n w'"
  by (simp add: node_ok_def quiet_def same_tx_def same_policy_def)

lemma node_ok_tx:
  "node_ok c n w \<Longrightarrow> same_tx w w' \<Longrightarrow> in_range m (m_hwTransPrio w') \<Longrightarrow>
     (isConsumer w' \<longrightarrow> m_hwTransPrio w' \<noteq> NC_PRIO_VALUE) \<Longrightarrow> node_ok c m w'"
  by (simp add: node_ok_def same_tx_def same_policy_def)

lemma not_stalling:
  assumes "pic_config c" and "node_ok c n w"
  shows "isRequesterStallsPolicy (conf w) = Inr False" "prioMechanism w = numeric" "config_allowEarlyValueFwd w"
  using assms by (simp_all add: pic_config_def node_ok_def isRequesterStallsPolicy_def config_allowEarlyValueFwd_def)

lemma pic_not_stalls: "pic_config c \<Longrightarrow> conflict_resolution c \<noteq> requester_stalls_pic_base"
  by (auto simp: pic_config_def getResolutionPolicy_def starts_with_def policy_string_defs)

lemma powered_of: "getSwTransactionPriority w = Inr sw \<Longrightarrow> sw = m_powered (conf w)"
  by (auto simp: getSwTransactionPriority_def isPowered_def asrt_eq_Inr split: if_splits)

text \<open>The priority of a producer after it accepted a consumer.\<close>

lemma addConsumer_prio:
  assumes run: "addConsumer c uninit a m r sw w = Inr w'" and cfg: "pic_config c" and ok: "node_ok c n w"
    and r: "in_range n r" and n: "n < 2147483646"
  shows "same_tx w w' \<and> isConsumer w' = isConsumer w \<and> grows w w' \<and> node_ok c (Suc n) w'
     \<and> (m_powered (conf w') \<longrightarrow> m_hwTransPrio w' = NC_PRIO_VALUE)"
proof -
  from addConsumer_steps [OF run] obtain w1 w2 where q1: "quiet w w1" "m_powered (conf w1) = m_powered (conf w)"
      and w2: "switchHwPrio c r sw False w1 = Inr w2" and q2: "quiet w2 w'" "m_powered (conf w') = m_powered (conf w)"
    by metis
  have ok1: "node_ok c n w1"
    using node_ok_quiet [OF ok q1(1)] .
  note sent = switchHwPrio_sent [OF w2 not_stalling(2,3) [OF cfg ok1] pic_not_stalls [OF cfg]]
  have p1: "m_hwTransPrio w1 = m_hwTransPrio w" "isConsumer w1 = isConsumer w" "in_range n (m_hwTransPrio w)"
    using q1(1) ok by (simp_all add: quiet_def node_ok_def)
  have low: "NC_PRIO_VALUE \<le> m_hwTransPrio w"
    by (rule in_range_least [OF p1(3)]) (use n in simp)
  have c1: "cint (r + 1) = r + 1 \<and> in_range (Suc n) (r + 1)" if "r \<noteq> NC_PRIO_VALUE"
    using r that n by (auto simp: in_range_def cint_in)
  have "grows w w2 \<and> in_range (Suc n) (m_hwTransPrio w2)
      \<and> (m_powered (conf w) \<longrightarrow> m_hwTransPrio w2 = NC_PRIO_VALUE)"
  proof -
    consider "isConsumer w" | "\<not> isConsumer w" "m_powered (conf w)"
      | "\<not> isConsumer w" "\<not> m_powered (conf w)" "r = NC_PRIO_VALUE"
      | "\<not> isConsumer w" "\<not> m_powered (conf w)" "r \<noteq> NC_PRIO_VALUE"
      by blast
    then show ?thesis
    proof cases
      case 1
      then show ?thesis
        using sent(1,2) p1 q1(2) in_range_mono [OF p1(3)] by (auto simp: grows_def)
    next
      case 2
      then show ?thesis
        using sent(2) p1 q1(2) by (auto simp: grows_def in_range_def)
    next
      case 3
      then show ?thesis
        using sent(3) p1 q1(2) in_range_mono [OF p1(3), of "Suc n"] low
        by (auto simp: grows_def in_range_def INITIAL_PRIO_VALUE_def NC_PRIO_VALUE_def)
    next
      case 4
      then show ?thesis
        using sent(4) p1 q1(2) c1 in_range_mono [OF p1(3), of "Suc n"] by (auto simp: grows_def)
    qed
  qed
  moreover have "same_tx w w' \<and> isConsumer w' = isConsumer w" "m_hwTransPrio w' = m_hwTransPrio w2"
    using q1(1) switchHwPrio_same [OF w2] q2(1) by (auto simp: quiet_def intro: same_tx_trans)
  moreover have "isConsumer w \<longrightarrow> m_hwTransPrio w \<noteq> NC_PRIO_VALUE"
    using ok by (simp add: node_ok_def)
  ultimately show ?thesis
    using ok q2(2) by (auto simp: grows_def intro!: node_ok_tx [OF ok])
qed

lemma forward_step:
  assumes inv: "fwd_inv c n S" and cfg: "pic_config c" and n: "n < 2147483646" and r: "r \<in> requests S"
    and fwd: "shouldForwardDataToConsumer c a m TransactionBit_Trans (rq_prio r) sw wif (node S p) = Inr (True, w1)"
    and add: "addConsumer c uninit a m (rq_prio r) sw w1 = Inr w2" and sw: "getSwTransactionPriority w2 = Inr sw2"
  shows "fwd_inv c (Suc n) (S\<lparr>node := (node S)(p := w2),
      nacks := insert \<lparr>nk_from = p, nk_uid = tim_currentHtmUid w2, nk_to = q, nk_addr = a,
                 nk_prio = getTransactionPriority w2, nk_sw = sw2\<rparr> (nacks S)\<rparr>)"
proof -
  have "w1 = node S p"
    by (rule shouldForward_keeps [OF fwd])
  then have eff: "same_tx (node S p) w2 \<and> isConsumer w2 = isConsumer (node S p) \<and> grows (node S p) w2 \<and> node_ok c (Suc n) w2
     \<and> (m_powered (conf w2) \<longrightarrow> m_hwTransPrio w2 = NC_PRIO_VALUE)"
    using addConsumer_prio [OF _ cfg fwd_invD(1) [OF inv] fwd_invD(2) [OF inv r] n] add by simp
  let ?T = "S\<lparr>node := (node S)(p := w2)\<rparr>"
  have "fwd_inv c (Suc n) (S\<lparr>node := (node S)(p := w2), deps := deps S\<rparr>)"
    by (rule fwd_inv_grow [OF fwd_inv_next [OF inv]]) (use eff fwd_invD(4) [OF inv] in auto)
  then have 1: "fwd_inv c (Suc n) ?T"
    by simp
  have "getTransactionPriority w2 = m_hwTransPrio w2"
    using not_stalling(2) [OF cfg, of "Suc n" w2] eff by (simp add: getTransactionPriority_def)
  then have "nack_ok (Suc n) ?T \<lparr>nk_from = p, nk_uid = tim_currentHtmUid w2, nk_to = q, nk_addr = a,
                 nk_prio = getTransactionPriority w2, nk_sw = sw2\<rparr>"
    using eff powered_of [OF sw] by (auto simp: nack_ok_def node_ok_def)
  from fwd_inv_nack [OF 1 this] show ?thesis
    by simp
qed

lemma accept_step:
  assumes inv: "fwd_inv c n S" and k: "k \<in> nacks S" and n: "n < 2147483647" and m: "n \<le> m"
    and legal: "prio_of S q < nk_prio k"
    and tx: "same_tx (node S q) w" and con: "isConsumer w" and ok: "node_ok c m w" and g: "grows (node S q) w"
    and below: "m_hwTransPrio w < nk_prio k"
  shows "fwd_inv c m (accept q w k S)"
proof -
  let ?T = "S\<lparr>node := (node S)(q := w)\<rparr>"
  have "fwd_inv c m S"
    using m inv by (induction rule: dec_induct) (auto intro: fwd_inv_next)
  then have "fwd_inv c m (S\<lparr>node := (node S)(q := w), deps := deps S\<rparr>)"
    by (rule fwd_inv_grow [OF _ ok g tx]) (use con in auto)
  then have 1: "fwd_inv c m ?T"
    by simp
  show ?thesis
  proof (cases "live S (nk_from k) (nk_uid k)")
    case True
    then have "nk_prio k \<le> prio_of S (nk_from k)"
      using fwd_invD(3) [OF inv k] by (simp add: nack_ok_def)
    then have "prio_of ?T q < prio_of ?T (nk_from k)"
      using below legal by auto
    from fwd_inv_dep [OF 1 this] con True show ?thesis
      by (simp add: accept_def)
  next
    case False
    then show ?thesis
      using 1 by (simp add: accept_def)
  qed
qed

lemma consume_step:
  assumes inv: "fwd_inv c n S" and cfg: "pic_config c" and n: "n < 2147483646" and k: "k \<in> nacks S"
    and legal: "isIllegalNack c (nk_addr k) (nk_prio k) (node S q) = Inr (False, w1)"
    and run: "notifyForwardedDataFromProducer c (nk_addr k) db src ts (nk_prio k) (nk_sw k) w1 = Inr w2"
  shows "fwd_inv c (Suc n) (accept q w2 k S)"
proof -
  note ok = fwd_invD(1) [OF inv, of q]
  have w1: "w1 = node S q" and lt: "prio_of S q < nk_prio k"
    using isIllegalNack_legal [OF legal] cfg by (auto simp: pic_config_def)
  have range: "in_range n (prio_of S q)" "in_range n (nk_prio k)" "nk_sw k \<longrightarrow> nk_prio k = NC_PRIO_VALUE"
    using ok fwd_invD(3) [OF inv k] by (simp_all add: node_ok_def nack_ok_def)
  have low: "NC_PRIO_VALUE \<le> prio_of S q"
    by (rule in_range_least [OF range(1)]) (use n in simp)
  then have nsw: "\<not> nk_sw k" and m: "- int n \<le> nk_prio k" "nk_prio k \<le> int n"
    using lt range by (auto simp: in_range_def)
  have c1: "cint (nk_prio k - 1) = nk_prio k - 1"
    using m n by (simp add: cint_in)
  have eff: "same_tx (node S q) w2" "isConsumer w2"
      "m_hwTransPrio w2 = (if prio_of S q = NC_PRIO_VALUE then nk_prio k - 1 else prio_of S q)"
    using notifyForwarded_keeps [OF run] not_stalling [OF cfg ok] w1 nsw c1 by auto
  have nc: "nk_prio k - 1 \<noteq> NC_PRIO_VALUE"
    using m n by (simp add: NC_PRIO_VALUE_def)
  show ?thesis
  proof (rule accept_step [OF inv k _ _ lt eff(1,2)])
    show "node_ok c (Suc n) w2"
      using eff nc m in_range_mono [OF range(1), of "Suc n"]
      by (intro node_ok_tx [OF ok eff(1)]) (auto simp: in_range_def)
    show "grows (node S q) w2"
      using eff(3) ok lt by (auto simp: grows_def node_ok_def)
    show "m_hwTransPrio w2 < nk_prio k"
      using eff(3) lt by simp
  qed (use n in auto)
qed

lemma revalidate_step:
  assumes inv: "fwd_inv c n S" and cfg: "pic_config c" and n: "n < 2147483646" and k: "k \<in> nacks S"
    and legal: "isIllegalNack c (nk_addr k) (nk_prio k) (node S q) = Inr (False, w1)"
    and run: "validateDataBlock c (nk_addr k) src cache valid ts dirty True w1 = Inr (ok, cache', w2)"
  shows "fwd_inv c n (accept q w2 k S)"
proof -
  note nok = fwd_invD(1) [OF inv, of q]
  have w1: "w1 = node S q" and lt: "prio_of S q < nk_prio k"
    using isIllegalNack_legal [OF legal] cfg by (auto simp: pic_config_def)
  have eff: "same_tx (node S q) w2" "m_hwTransPrio w2 = prio_of S q" "isConsumer (node S q)" "isConsumer w2"
    using validateDataBlock_keeps [OF run] not_stalling(1) [OF cfg nok] w1 by auto
  have "quiet (node S q) w2"
    using eff by (simp add: quiet_def)
  show ?thesis
    by (rule accept_step [OF inv k _ order_refl lt eff(1,4) node_ok_quiet [OF nok \<open>quiet (node S q) w2\<close>]])
      (use eff lt n in \<open>auto simp: grows_def\<close>)
qed

lemma fwd_step_inv:
  assumes step: "fwd_step c S T" and inv: "fwd_inv c n S" and cfg: "pic_config c" and n: "n < 2147483646"
  shows "fwd_inv c (Suc n) T"
  using step
proof cases
  case (Request q sw a)
  have "getTransactionPriority (node S q) = prio_of S q"
    using not_stalling(2) [OF cfg fwd_invD(1) [OF inv]] by (simp add: getTransactionPriority_def)
  then have "fwd_inv c n T"
    unfolding Request(1)
    by (intro fwd_invI) (use fwd_invD [OF inv] in \<open>auto simp: node_ok_def nack_ok_def live_def\<close>)
  then show ?thesis
    by (rule fwd_inv_next)
next
  case (Forward r p wif w1 uninit w2 sw)
  show ?thesis
    unfolding Forward(1) by (rule forward_step [OF inv cfg n Forward(2,4-6)])
next
  case (Consume k q w1 db ts w2)
  show ?thesis
    unfolding Consume(1) by (rule consume_step [OF inv cfg n Consume(2,4,6)])
next
  case (Revalidate k q w1 cache valid ts dirty ok cache' w2)
  show ?thesis
    unfolding Revalidate(1)
    by (rule fwd_inv_next) (rule revalidate_step [OF inv cfg n Revalidate(2,4,6)])
next
  case (Validate a src cache valid ts dirty q ok cache' w)
  note nok = fwd_invD(1) [OF inv, of q]
  have eff: "same_tx (node S q) w" "m_hwTransPrio w = prio_of S q" "isConsumer (node S q)"
    using validateDataBlock_keeps [OF Validate(2)] not_stalling(1) [OF cfg nok] by auto
  have "fwd_inv c n T"
    unfolding Validate(1)
    by (rule fwd_inv_grow [OF inv]) (use eff nok in \<open>auto simp: grows_def node_ok_def same_tx_def same_policy_def\<close>)
  then show ?thesis
    by (rule fwd_inv_next)
next
  case (Finish q w dg pkt)
  have "lazy_vm c"
    using cfg by (simp add: pic_config_def)
  then have i: "idle c w" "tim_currentHtmUid w = tim_currentHtmUid (node S q)" "same_policy (node S q) w"
    using commit_idle abort_lazy_idle Finish(2-4) by blast+
  have "fwd_inv c n T"
    unfolding Finish(1)
    by (rule fwd_inv_reset [OF inv])
      (use i fwd_invD(1) [OF inv, of q] in \<open>auto simp: idle_def fwd_idle_def node_ok_def same_policy_def in_range_def live_def\<close>)
  then show ?thesis
    by (rule fwd_inv_next)
next
  case (Begin pkt q w)
  note nok = fwd_invD(1) [OF inv, of q]
  have b: "tim_currentHtmUid (node S q) < tim_currentHtmUid w" "same_policy (node S q) w"
      "m_hwTransPrio w = NC_PRIO_VALUE" "prio_of S q = NC_PRIO_VALUE" "\<not> isConsumer w" "\<not> isConsumer (node S q)"
    using begin_keeps [OF Begin(2) not_stalling(3) [OF cfg nok]] by auto
  have none: "(p, q) \<notin> deps S \<and> (q, p) \<notin> deps S" for p
  proof -
    have "NC_PRIO_VALUE \<le> prio_of S p"
      using in_range_least fwd_invD(1) [OF inv, of p] n by (auto simp: node_ok_def)
    then show ?thesis
      using fwd_invD(4) [OF inv] b(4,6) by (metis not_less)
  qed
  have "fwd_inv c n (S\<lparr>node := (node S)(q := w), deps := deps S\<rparr>)"
  proof (rule fwd_inv_reset [OF inv])
    show "\<forall>k \<in> nacks S. \<not> live (S\<lparr>node := (node S)(q := w)\<rparr>) q (nk_uid k) \<or> nk_from k \<noteq> q"
      using fwd_invD(3) [OF inv] b(1) by (force simp: nack_ok_def live_def)
  qed (use b nok none in \<open>auto simp: node_ok_def same_policy_def in_range_def\<close>)
  then show ?thesis
    unfolding Begin(1) using fwd_inv_next by simp
next
  case (Local q w)
  have "fwd_inv c n (S\<lparr>node := (node S)(q := w), deps := deps S\<rparr>)"
    by (rule fwd_inv_grow [OF inv node_ok_quiet [OF fwd_invD(1) [OF inv] Local(2)]])
      (use Local(2) fwd_invD(4) [OF inv] in \<open>auto simp: quiet_def grows_def\<close>)
  then show ?thesis
    unfolding Local(1) using fwd_inv_next by simp
qed

lemma fwd_start_inv: "fwd_start c S \<Longrightarrow> fwd_inv c 0 S"
  by (intro fwd_invI)
    (auto simp: fwd_start_def node_ok_def policy_ok_def idle_def fwd_idle_def in_range_def)

lemma fwd_run_inv:
  assumes "(fwd_step c ^^ n) S T" and "fwd_start c S" and "pic_config c" and "n < 2147483647"
  shows "fwd_inv c n T"
  using assms(1,4)
proof (induction n arbitrary: T)
  case 0
  then show ?case using fwd_start_inv [OF assms(2)] by simp
next
  case (Suc n)
  then obtain U where "(fwd_step c ^^ n) S U" "fwd_step c U T"
    by auto
  then show ?case
    using Suc fwd_step_inv [OF _ _ assms(3)] by auto
qed

lemma decreasing_acyclic:
  fixes f :: "'a \<Rightarrow> 'b::order"
  assumes "\<And>p q. (p, q) \<in> R \<Longrightarrow> f q < f p"
  shows "acyclic R"
proof -
  have "(p, q) \<in> R\<^sup>+ \<Longrightarrow> f q < f p" for p q
    by (induction rule: trancl_induct) (auto dest: assms intro: less_trans)
  then show ?thesis
    by (auto simp: acyclic_def)
qed

section \<open>Properties\<close>


text \<open>
  An example run: processors 0 and 1 begin, 1 asks for a line that 0 holds, 0 forwards it and 1
  consumes it.
\<close>

definition fresh_node :: "nat \<Rightarrow> xact" where
  "fresh_node i = tim_build fwd_params quiet_env i unset_zero (plain_conflict fwd_params)"

definition holder_node :: xact where
  "holder_node = (running_tx fwd_params)\<lparr>
     dcache := [(0x1200, \<lparr>m_Permission = Read_Write, m_DataBlk = replicate 8 5, m_htmLogPending = False\<rparr>)]\<rparr>"

definition asking_node :: xact where
  "asking_node = (running_tx fwd_params)\<lparr>requestTable := [(0x1200, 7)]\<rparr>"

definition producing_node :: xact where
  "producing_node = holder_node\<lparr>m_hasSentDataToConsumer := [l1 1], m_hwTransPrio := 0,
     m_allSentData := [(0x1200, \<lparr>pi_consumers = [l1 1], tickProduced = 5000, timesModifiedAfterSharing = 0,
                    forwardings = [\<lparr>fi_consumers = [l1 1], fi_modified = False\<rparr>]\<rparr>)],
     m_sentDataForwardedToConsumer := [(0x1200, replicate 8 5)]\<rparr>"

lemma fwd_params_all [simp]: "getAllowedDataFwd fwd_params = all_data" "\<not> no_produce_on_retry fwd_params"
    "max_consumed_blocks fwd_params = 4" "getResolutionPolicy fwd_params = RequesterLoses" "\<not> NC_not_producer fwd_params"
  by (simp_all add: fwd_params_def default_params_def getAllowedDataFwd_def getResolutionPolicy_def starts_with_def
      requester_loses_def)

lemma example_line3: "makeLineAddress 3 0x1200 = 0x1200"
  by (simp add: makeLineAddress_def maskLowOrderBits_def mask64_def mbits_def)

lemma example_forward:
  "shouldForwardDataToConsumer fwd_params 0x1200 (l1 1) TransactionBit_Trans NC_PRIO_VALUE False False holder_node
     = Inr (True, holder_node)"
  by (simp add: shouldForwardDataToConsumer_def shouldBecomeProducer_def canProduce_def isProducerPolicy_def
      isReqLosesPolicy_def isPowerTMPolicy_def fwd_priority_allows_def fwd_mechanism_allows_def holder_node_def
      config_allowEarlyValueFwd_def inTransaction_def isAborting_def getSwTransactionPriority_def isPowered_def
      getTransactionPriority_def isConsumer_def plain_conflict_def policy_string_defs NC_PRIO_VALUE_def cint_def)

lemma example_add:
  "addConsumer fwd_params False 0x1200 (l1 1) NC_PRIO_VALUE False holder_node = Inr producing_node"
  by (simp add: addConsumer_def isProducer_def hasConsumedData_def producing_node_def holder_node_def running_tx_def
      tim_build_def quiet_env_def switchHwPrio_def config_allowEarlyValueFwd_def getSwTransactionPriority_def
      isPowered_def plain_conflict_def isConsumer_def canProduce_def isProducerPolicy_def isReqLosesPolicy_def
      isPowerTMPolicy_def policy_string_defs tryCacheAccess_def cache_lookup_def example_line3 record_sent_def
      mset_insert_def mset_find_def smap_insert_def INITIAL_PRIO_VALUE_def)

lemma example_legal: "isIllegalNack fwd_params 0x1200 0 asking_node = Inr (False, asking_node)"
  by (simp add: isIllegalNack_def getPacketFromRequestTable_def asking_node_def example_line3 running_tx_def tim_build_def
      isAborting_def NC_PRIO_VALUE_def)

lemma example_consume:
  "\<exists>w. notifyForwardedDataFromProducer fwd_params 0x1200 (replicate 8 5) (l1 0) 0 0 False asking_node = Inr w"
  by (simp add: notifyForwardedDataFromProducer_def asking_node_def running_tx_def tim_build_def hasConsumedData_def
      isProducer_def isBlockConsumed_def example_line3 getPacketFromRequestTable_def inTransaction_def isAborting_def
      isRequesterStallsPolicy_def plain_conflict_def switchHwPrio_def config_allowEarlyValueFwd_def
      getSwTransactionPriority_def isPowered_def isConsumer_def consume_block_def insert_consumed_def smap_insert_def
      scheduleValidationOfConsumedData_def consumed_overflow_def quiet_env_def Let_def)

lemma example_pic: "pic_config fwd_params"
  by (simp add: pic_config_def)

lemma fresh_idle: "idle fwd_params (fresh_node i)" "policy_ok fwd_params (fresh_node i)"
  by (simp_all add: idle_def fresh_node_def tim_build_def fwd_idle_def isConsumer_def sets_empty_def iso_init_def
      versions_idle_def plain_conflict_def policy_ok_def)

lemma example_begin:
  "\<exists>w. beginTransaction fwd_params (interrupt_packet 7) (fresh_node i) = Inr w
     \<and> quiet w holder_node \<and> quiet w asking_node"
proof -
  have "begin_packet_ok (interrupt_packet 7) (fresh_node i)" "fwd_config_ok fwd_params (fresh_node i)"
    by (simp_all add: begin_packet_ok_def interrupt_packet_def fresh_node_def tim_build_def XID_NONE_def fwd_config_ok_def)
  from begin_from_idle [OF fresh_idle(1) this(2,1)] obtain w where
    w: "beginTransaction fwd_params (interrupt_packet 7) (fresh_node i) = Inr w" "tim_currentHtmUid w = 7"
    by (auto simp: interrupt_packet_def)
  have f: "config_allowEarlyValueFwd (fresh_node i)"
    by (simp add: fresh_node_def tim_build_def config_allowEarlyValueFwd_def)
  have "quiet w holder_node \<and> quiet w asking_node"
    using begin_keeps [OF w(1) f] w(2)
    by (simp add: quiet_def same_tx_def same_policy_def holder_node_def asking_node_def running_tx_def fresh_node_def
        tim_build_def isConsumer_def)
  with w(1) show ?thesis by blast
qed


end
