(* ===== verification/Replacement.thy ===== *)
theory Replacement
  imports HTM_Prelude
begin

text \<open>
  The replacement policies (\<^verbatim>\<open>mem/cache/replacement_policies\<close>) that a cache of the Ruby memory
  system chooses its victims with. The source attaches a replacement data object to every way of
  a set; the state of a set is the map from its ways to these objects, or, for the tree based
  policy, the tree that the ways of the set share. A candidate for replacement is named by its
  way. The random number generator is a parameter: the number it returns.
\<close>

section \<open>The interface of a policy\<close>

text \<open>The virtual functions of \<^verbatim>\<open>replacement_policy::Base\<close>; some victim searches age the candidates.\<close>

record 'r policy =
  rp_instantiate :: 'r
  rp_invalidate :: "nat \<Rightarrow> 'r \<Rightarrow> 'r res"
  rp_touch :: "nat \<Rightarrow> nat \<Rightarrow> 'r \<Rightarrow> 'r res"
  rp_reset :: "nat \<Rightarrow> nat \<Rightarrow> 'r \<Rightarrow> 'r res"
  rp_getVictim :: "nat \<Rightarrow> nat list \<Rightarrow> 'r \<Rightarrow> (nat \<times> 'r) res"

text \<open>The loop of most victim searches: the first of the candidates that no other one beats.\<close>

fun victim_scan :: "('d \<Rightarrow> 'd \<Rightarrow> bool) \<Rightarrow> (nat \<Rightarrow> 'd) \<Rightarrow> nat \<Rightarrow> nat list \<Rightarrow> nat" where
  "victim_scan better d victim [] = victim"
| "victim_scan better d victim (candidate # candidates) =
     victim_scan better d (if better (d candidate) (d victim) then candidate else victim) candidates"

section \<open>Timestamp and counter based policies\<close>

type_synonym lru_state = "nat \<Rightarrow> nat"

definition lru_invalidate :: "nat \<Rightarrow> lru_state \<Rightarrow> lru_state res" where
  "lru_invalidate way lastTouchTick = Inr (lastTouchTick(way := 0))"

definition lru_touch :: "nat \<Rightarrow> nat \<Rightarrow> lru_state \<Rightarrow> lru_state res" where
  "lru_touch now way lastTouchTick = Inr (lastTouchTick(way := now))"

definition lru_reset :: "nat \<Rightarrow> nat \<Rightarrow> lru_state \<Rightarrow> lru_state res" where
  "lru_reset now way lastTouchTick = Inr (lastTouchTick(way := now))"

definition lru_getVictim :: "nat list \<Rightarrow> lru_state \<Rightarrow> nat res" where
  "lru_getVictim candidates lastTouchTick =
     asrt LRU_cc 77 (candidates \<noteq> []) (Inr (victim_scan (<) lastTouchTick (hd candidates) candidates))"

definition LRU :: "lru_state policy" where
  "LRU = \<lparr>rp_instantiate = (\<lambda>_. 0), rp_invalidate = lru_invalidate, rp_touch = lru_touch, rp_reset = lru_reset,
     rp_getVictim = (\<lambda>now cs r. rbind (lru_getVictim cs r) (\<lambda>v. Inr (v, r)))\<rparr>"

text \<open>BIP inserts a new entry as the oldest one unless the random number is small.\<close>

definition bip_reset :: "nat \<Rightarrow> nat \<Rightarrow> nat \<Rightarrow> nat \<Rightarrow> lru_state \<Rightarrow> lru_state res" where
  "bip_reset btp random now way lastTouchTick =
     Inr (if random \<le> btp then lastTouchTick(way := now) else lastTouchTick(way := 1))"

definition BIP :: "nat \<Rightarrow> nat \<Rightarrow> lru_state policy" where
  "BIP btp random = LRU\<lparr>rp_reset := bip_reset btp random\<rparr>"

text \<open>The most recently used entry goes first, unless one was never touched.\<close>

fun mru_scan :: "lru_state \<Rightarrow> nat \<Rightarrow> nat list \<Rightarrow> nat" where
  "mru_scan lastTouchTick victim [] = victim"
| "mru_scan lastTouchTick victim (candidate # candidates) =
     (if lastTouchTick candidate = 0 then candidate
      else mru_scan lastTouchTick (if lastTouchTick candidate > lastTouchTick victim then candidate else victim) candidates)"

definition mru_getVictim :: "nat list \<Rightarrow> lru_state \<Rightarrow> nat res" where
  "mru_getVictim candidates lastTouchTick =
     asrt MRU_cc 77 (candidates \<noteq> []) (Inr (mru_scan lastTouchTick (hd candidates) candidates))"

definition MRU :: "lru_state policy" where
  "MRU = LRU\<lparr>rp_getVictim := (\<lambda>now cs r. rbind (mru_getVictim cs r) (\<lambda>v. Inr (v, r)))\<rparr>"

definition fifo_invalidate :: "nat \<Rightarrow> lru_state \<Rightarrow> lru_state res" where
  "fifo_invalidate way tickInserted = Inr (tickInserted(way := 0))"

definition fifo_touch :: "nat \<Rightarrow> nat \<Rightarrow> lru_state \<Rightarrow> lru_state res" where
  "fifo_touch now way tickInserted = Inr tickInserted"

definition fifo_reset :: "nat \<Rightarrow> nat \<Rightarrow> lru_state \<Rightarrow> lru_state res" where
  "fifo_reset now way tickInserted = Inr (tickInserted(way := now))"

definition fifo_getVictim :: "nat list \<Rightarrow> lru_state \<Rightarrow> nat res" where
  "fifo_getVictim candidates tickInserted =
     asrt FIFO_cc 75 (candidates \<noteq> []) (Inr (victim_scan (<) tickInserted (hd candidates) candidates))"

definition FIFO :: "lru_state policy" where
  "FIFO = \<lparr>rp_instantiate = (\<lambda>_. 0), rp_invalidate = fifo_invalidate, rp_touch = fifo_touch, rp_reset = fifo_reset,
     rp_getVictim = (\<lambda>now cs r. rbind (fifo_getVictim cs r) (\<lambda>v. Inr (v, r)))\<rparr>"

text \<open>The reference count is an unsigned int and wraps around.\<close>

type_synonym lfu_state = "nat \<Rightarrow> 32 word"

definition lfu_invalidate :: "nat \<Rightarrow> lfu_state \<Rightarrow> lfu_state res" where
  "lfu_invalidate way refCount = Inr (refCount(way := 0))"

definition lfu_touch :: "nat \<Rightarrow> nat \<Rightarrow> lfu_state \<Rightarrow> lfu_state res" where
  "lfu_touch now way refCount = Inr (refCount(way := refCount way + 1))"

definition lfu_reset :: "nat \<Rightarrow> nat \<Rightarrow> lfu_state \<Rightarrow> lfu_state res" where
  "lfu_reset now way refCount = Inr (refCount(way := 1))"

definition lfu_getVictim :: "nat list \<Rightarrow> lfu_state \<Rightarrow> nat res" where
  "lfu_getVictim candidates refCount =
     asrt LFU_cc 73 (candidates \<noteq> []) (Inr (victim_scan (<) refCount (hd candidates) candidates))"

definition LFU :: "lfu_state policy" where
  "LFU = \<lparr>rp_instantiate = (\<lambda>_. 0), rp_invalidate = lfu_invalidate, rp_touch = lfu_touch, rp_reset = lfu_reset,
     rp_getVictim = (\<lambda>now cs r. rbind (lfu_getVictim cs r) (\<lambda>v. Inr (v, r)))\<rparr>"

record wlru_data =
  lastTouchTick :: nat
  last_occ_ptr :: int

type_synonym wlru_state = "nat \<Rightarrow> wlru_data"

definition wlru_touch :: "nat \<Rightarrow> nat \<Rightarrow> int \<Rightarrow> wlru_state \<Rightarrow> wlru_state res" where
  "wlru_touch now way occupancy d = Inr (d(way := (d way)\<lparr>lastTouchTick := now, last_occ_ptr := occupancy\<rparr>))"

definition wlru_getVictim :: "nat list \<Rightarrow> wlru_state \<Rightarrow> nat res" where
  "wlru_getVictim candidates d =
     asrt WLRU_cc 65 (candidates \<noteq> [])
       (Inr (victim_scan (\<lambda>candidate victim.
               if last_occ_ptr candidate < last_occ_ptr victim then True
               else if last_occ_ptr candidate = last_occ_ptr victim then lastTouchTick candidate < lastTouchTick victim
               else False) d (hd candidates) candidates))"

definition WeightedLRU :: "wlru_state policy" where
  "WeightedLRU =
     \<lparr>rp_instantiate = (\<lambda>_. \<lparr>lastTouchTick = 0, last_occ_ptr = 0\<rparr>),
      rp_invalidate = (\<lambda>way d. Inr (d(way := (d way)\<lparr>lastTouchTick := 0\<rparr>))),
      rp_touch = (\<lambda>now way d. Inr (d(way := (d way)\<lparr>lastTouchTick := now\<rparr>))),
      rp_reset = (\<lambda>now way d. Inr (d(way := (d way)\<lparr>lastTouchTick := now\<rparr>))),
      rp_getVictim = (\<lambda>now cs r. rbind (wlru_getVictim cs r) (\<lambda>v. Inr (v, r)))\<rparr>"

section \<open>Second chance\<close>

record sc_data =
  tickInserted :: nat
  hasSecondChance :: bool

type_synonym sc_state = "nat \<Rightarrow> sc_data"

definition useSecondChance :: "nat \<Rightarrow> nat \<Rightarrow> sc_state \<Rightarrow> sc_state" where
  "useSecondChance now way d = d(way := (d way)\<lparr>tickInserted := now, hasSecondChance := False\<rparr>)"

definition sc_invalidate :: "nat \<Rightarrow> sc_state \<Rightarrow> sc_state res" where
  "sc_invalidate way d = Inr (d(way := (d way)\<lparr>tickInserted := 0, hasSecondChance := False\<rparr>))"

definition sc_touch :: "nat \<Rightarrow> nat \<Rightarrow> sc_state \<Rightarrow> sc_state res" where
  "sc_touch now way d = Inr (d(way := (d way)\<lparr>hasSecondChance := True\<rparr>))"

definition sc_reset :: "nat \<Rightarrow> nat \<Rightarrow> sc_state \<Rightarrow> sc_state res" where
  "sc_reset now way d = Inr (d(way := (d way)\<lparr>tickInserted := now, hasSecondChance := False\<rparr>))"

lemma victim_scan_member: "victim_scan b d v cs \<in> insert v (set cs)"
  by (induction cs arbitrary: v) (auto split: if_splits)

lemma victim_scan_hd: "cs \<noteq> [] \<Longrightarrow> victim_scan b d (hd cs) cs \<in> set cs"
  using victim_scan_member [of b d "hd cs" cs] by auto

text \<open>
  The loop takes the second chance away from the oldest candidate until the oldest one has none;
  each round leaves one chance less.
\<close>

function sc_search :: "nat \<Rightarrow> nat list \<Rightarrow> sc_state \<Rightarrow> (nat \<times> sc_state) res" where
  "sc_search now candidates d =
     rbind (fifo_getVictim candidates (\<lambda>k. tickInserted (d k))) (\<lambda>victim.
       if hasSecondChance (d victim) then sc_search now candidates (useSecondChance now victim d)
       else Inr (victim, d))"
  by auto
termination
proof (relation "measure (\<lambda>(now, candidates, d). card {k \<in> set candidates. hasSecondChance (d k)})")
  fix now :: nat and candidates :: "nat list" and d :: sc_state and victim :: nat
  assume f: "fifo_getVictim candidates (\<lambda>k. tickInserted (d k)) = Inr victim" and v: "hasSecondChance (d victim)"
  have "{k \<in> set candidates. hasSecondChance (useSecondChance now victim d k)}
      \<subset> {k \<in> set candidates. hasSecondChance (d k)}"
    using v f victim_scan_hd by (auto simp: useSecondChance_def fifo_getVictim_def asrt_eq_Inr split: if_splits)
  then have "card {k \<in> set candidates. hasSecondChance (useSecondChance now victim d k)}
      < card {k \<in> set candidates. hasSecondChance (d k)}"
    by (rule psubset_card_mono [rotated]) simp
  then show "((now, candidates, useSecondChance now victim d), now, candidates, d)
      \<in> measure (\<lambda>(now, candidates, d). card {k \<in> set candidates. hasSecondChance (d k)})"
    by simp
qed simp

declare sc_search.simps [simp del]

definition sc_getVictim :: "nat \<Rightarrow> nat list \<Rightarrow> sc_state \<Rightarrow> (nat \<times> sc_state) res" where
  "sc_getVictim now candidates d =
     asrt SecondChance_cc 95 (candidates \<noteq> [])
       (case find (\<lambda>k. tickInserted (d k) = 0 \<and> \<not> hasSecondChance (d k)) candidates of
          Some candidate \<Rightarrow> Inr (candidate, d)
        | None \<Rightarrow> sc_search now candidates d)"

definition SecondChance :: "sc_state policy" where
  "SecondChance =
     \<lparr>rp_instantiate = (\<lambda>_. \<lparr>tickInserted = 0, hasSecondChance = False\<rparr>),
      rp_invalidate = sc_invalidate, rp_touch = sc_touch, rp_reset = sc_reset, rp_getVictim = sc_getVictim\<rparr>"

section \<open>Random replacement and re-reference intervals\<close>

text \<open>The random number of a victim search is an index into the candidates.\<close>

type_synonym random_state = "nat \<Rightarrow> bool"

definition random_invalidate :: "nat \<Rightarrow> random_state \<Rightarrow> random_state res" where
  "random_invalidate way valid = Inr (valid(way := False))"

definition random_reset :: "nat \<Rightarrow> nat \<Rightarrow> random_state \<Rightarrow> random_state res" where
  "random_reset now way valid = Inr (valid(way := True))"

definition random_getVictim :: "nat \<Rightarrow> nat list \<Rightarrow> random_state \<Rightarrow> nat res" where
  "random_getVictim random candidates valid =
     asrt Random_cc 74 (candidates \<noteq> [])
       (case find (\<lambda>k. \<not> valid k) candidates of
          Some candidate \<Rightarrow> Inr candidate
        | None \<Rightarrow> if random < length candidates then Inr (candidates ! random) else Inl (UndefinedAt Random_cc 77))"

definition RandomRP :: "nat \<Rightarrow> random_state policy" where
  "RandomRP random =
     \<lparr>rp_instantiate = (\<lambda>_. False), rp_invalidate = random_invalidate, rp_touch = (\<lambda>now way r. Inr r),
      rp_reset = random_reset, rp_getVictim = (\<lambda>now cs r. rbind (random_getVictim random cs r) (\<lambda>v. Inr (v, r)))\<rparr>"

text \<open>A saturating counter of \<open>num_bits\<close> bits: its largest value is \<open>2 ^ num_bits - 1\<close>.\<close>

record rrip_data =
  rrpv :: nat
  rrip_valid :: bool

type_synonym rrip_state = "nat \<Rightarrow> rrip_data"

definition sat_max :: "nat \<Rightarrow> nat" where
  "sat_max num_bits = 2 ^ num_bits - 1"

definition sat_add :: "nat \<Rightarrow> nat \<Rightarrow> nat \<Rightarrow> nat" where
  "sat_add num_bits counter value =
     (if sat_max num_bits - counter \<ge> value then counter + value else sat_max num_bits)"

definition rrip_invalidate :: "nat \<Rightarrow> rrip_state \<Rightarrow> rrip_state res" where
  "rrip_invalidate way d = Inr (d(way := (d way)\<lparr>rrip_valid := False\<rparr>))"

definition rrip_touch :: "bool \<Rightarrow> nat \<Rightarrow> nat \<Rightarrow> rrip_state \<Rightarrow> rrip_state res" where
  "rrip_touch hitPriority now way d =
     Inr (d(way := (d way)\<lparr>rrpv := (if hitPriority then 0 else if rrpv (d way) > 0 then rrpv (d way) - 1 else 0)\<rparr>))"

definition rrip_reset :: "nat \<Rightarrow> nat \<Rightarrow> nat \<Rightarrow> nat \<Rightarrow> nat \<Rightarrow> rrip_state \<Rightarrow> rrip_state res" where
  "rrip_reset num_bits btp random now way d =
     (let v = sat_max num_bits in
      Inr (d(way := \<lparr>rrpv = (if random \<le> btp then (if v > 0 then v - 1 else 0) else v), rrip_valid = True\<rparr>)))"

text \<open>The search stops at an invalid entry and otherwise keeps the first largest value.\<close>

fun rrip_scan :: "rrip_state \<Rightarrow> nat \<Rightarrow> nat list \<Rightarrow> nat + nat" where
  "rrip_scan d victim [] = Inr victim"
| "rrip_scan d victim (candidate # candidates) =
     (if \<not> rrip_valid (d candidate) then Inl candidate
      else rrip_scan d (if rrpv (d candidate) > rrpv (d victim) then candidate else victim) candidates)"

definition rrip_age :: "nat \<Rightarrow> nat \<Rightarrow> nat \<Rightarrow> rrip_state \<Rightarrow> rrip_state" where
  "rrip_age num_bits diff way d = d(way := (d way)\<lparr>rrpv := sat_add num_bits (rrpv (d way)) diff\<rparr>)"

definition rrip_getVictim :: "nat \<Rightarrow> nat list \<Rightarrow> rrip_state \<Rightarrow> (nat \<times> rrip_state) res" where
  "rrip_getVictim num_bits candidates d =
     asrt BRRIP_cc 100 (candidates \<noteq> [])
       (case rrip_scan d (hd candidates) candidates of
          Inl candidate \<Rightarrow> Inr (candidate, d)
        | Inr victim \<Rightarrow>
            (let diff = sat_max num_bits - rrpv (d victim);
                 d1 = d(victim := (d victim)\<lparr>rrpv := sat_max num_bits\<rparr>) in
             Inr (victim, if diff > 0 then fold (rrip_age num_bits diff) candidates d1 else d1)))"

definition BRRIP :: "nat \<Rightarrow> bool \<Rightarrow> nat \<Rightarrow> nat \<Rightarrow> rrip_state policy" where
  "BRRIP num_bits hitPriority btp random =
     \<lparr>rp_instantiate = (\<lambda>_. \<lparr>rrpv = 0, rrip_valid = False\<rparr>), rp_invalidate = rrip_invalidate,
      rp_touch = rrip_touch hitPriority, rp_reset = rrip_reset num_bits btp random,
      rp_getVictim = (\<lambda>now. rrip_getVictim num_bits)\<rparr>"

section \<open>The tree policy\<close>

text \<open>
  The ways of a set are the leaves of a complete binary tree, whose inner nodes are numbered from
  the root in an array of bits; way \<open>w\<close> is node \<open>w + numLeaves - 1\<close>. Indices are 64-bit: the parent of
  the root is computed from a wrapped difference. An access outside the array throws.
\<close>

definition parentIndex :: "nat \<Rightarrow> nat" where
  "parentIndex index = (if index = 0 then (2 ^ 64 - 1) div 2 else (index - 1) div 2)"

definition leftSubtreeIndex :: "nat \<Rightarrow> nat" where
  "leftSubtreeIndex index = 2 * index + 1"

definition rightSubtreeIndex :: "nat \<Rightarrow> nat" where
  "rightSubtreeIndex index = 2 * index + 2"

definition isRightSubtree :: "nat \<Rightarrow> bool" where
  "isRightSubtree index \<longleftrightarrow> index mod 2 = 0"

text \<open>The loop of \<open>touch\<close> and \<open>invalidate\<close>: \<open>away\<close> tells which way the bits on the path are set.\<close>

function plru_update :: "nat \<Rightarrow> bool \<Rightarrow> nat \<Rightarrow> bool list \<Rightarrow> bool list res" where
  "plru_update ln away tree_index tree =
     (let right = isRightSubtree tree_index; up = parentIndex tree_index in
      if up < length tree then
        (let tree' = tree[up := (if away then \<not> right else right)] in
         if up \<noteq> 0 then plru_update ln away up tree' else Inr tree')
      else Inl (PanicAt TreePLRU_cc ln))"
  by auto
termination
  by (relation "measure (\<lambda>(ln, away, i, tree). if i = 0 then 2 ^ 64 else i)")
    (auto simp: parentIndex_def split: if_splits)

declare plru_update.simps [simp del]

definition plru_leaf :: "nat \<Rightarrow> nat \<Rightarrow> nat" where
  "plru_leaf numLeaves way = (way mod numLeaves) + numLeaves - 1"

definition plru_invalidate :: "nat \<Rightarrow> nat \<Rightarrow> bool list \<Rightarrow> bool list res" where
  "plru_invalidate numLeaves way tree = plru_update 133 False (plru_leaf numLeaves way) tree"

definition plru_touch :: "nat \<Rightarrow> nat \<Rightarrow> nat \<Rightarrow> bool list \<Rightarrow> bool list res" where
  "plru_touch numLeaves now way tree = plru_update 159 True (plru_leaf numLeaves way) tree"

function plru_descend :: "bool list \<Rightarrow> nat \<Rightarrow> nat" where
  "plru_descend tree tree_index =
     (if tree_index < length tree
      then plru_descend tree (if tree ! tree_index then rightSubtreeIndex tree_index else leftSubtreeIndex tree_index)
      else tree_index)"
  by auto
termination
  by (relation "measure (\<lambda>(tree, i). length tree - i)") (auto simp: rightSubtreeIndex_def leftSubtreeIndex_def)

declare plru_descend.simps [simp del]

definition plru_getVictim :: "nat \<Rightarrow> nat list \<Rightarrow> bool list \<Rightarrow> nat res" where
  "plru_getVictim numLeaves candidates tree =
     asrt TreePLRU_cc 175 (candidates \<noteq> [])
       (let k = plru_descend tree 0 - (numLeaves - 1) in
        if k < length candidates then Inr (candidates ! k) else Inl (UndefinedAt TreePLRU_cc 196))"

definition TreePLRU :: "nat \<Rightarrow> bool list policy" where
  "TreePLRU numLeaves =
     \<lparr>rp_instantiate = replicate (numLeaves - 1) False, rp_invalidate = plru_invalidate numLeaves,
      rp_touch = plru_touch numLeaves, rp_reset = plru_touch numLeaves,
      rp_getVictim = (\<lambda>now cs r. rbind (plru_getVictim numLeaves cs r) (\<lambda>v. Inr (v, r)))\<rparr>"

section \<open>Choosing among the candidates\<close>

text \<open>
  What a cache relies on when it may offer any non-empty list of ways: the operations on the
  replacement data complete, and the victim is one of the ways that were offered.
\<close>

locale victim_choice =
  fixes pol :: "'r policy"
  assumes touches: "\<exists>r'. rp_touch pol now way r = Inr r'"
    and resets: "\<exists>r'. rp_reset pol now way r = Inr r'"
    and invalidates: "\<exists>r'. rp_invalidate pol way r = Inr r'"
    and chooses: "cs \<noteq> [] \<Longrightarrow> \<exists>v r'. rp_getVictim pol now cs r = Inr (v, r') \<and> v \<in> set cs"
begin

lemma victim_offered:
  assumes "rp_getVictim pol now cs r = Inr (v, r')" and "cs \<noteq> []"
  shows "v \<in> set cs"
  using chooses [OF assms(2), of now r] assms(1) by auto

end

interpretation lru: victim_choice LRU
  by unfold_locales (simp_all add: LRU_def lru_touch_def lru_reset_def lru_invalidate_def lru_getVictim_def victim_scan_hd)

interpretation bip: victim_choice "BIP btp random" for btp random
  by unfold_locales
    (simp_all add: BIP_def LRU_def lru_touch_def bip_reset_def lru_invalidate_def lru_getVictim_def victim_scan_hd)

lemma mru_scan_member: "mru_scan d v cs \<in> insert v (set cs)"
  by (induction cs arbitrary: v) (auto split: if_splits)

lemma mru_scan_hd: "cs \<noteq> [] \<Longrightarrow> mru_scan d (hd cs) cs \<in> set cs"
  using mru_scan_member [of d "hd cs" cs] by auto

interpretation mru: victim_choice MRU
  by unfold_locales
    (simp_all add: MRU_def LRU_def lru_touch_def lru_reset_def lru_invalidate_def mru_getVictim_def mru_scan_hd)

interpretation fifo: victim_choice FIFO
  by unfold_locales (simp_all add: FIFO_def fifo_touch_def fifo_reset_def fifo_invalidate_def fifo_getVictim_def victim_scan_hd)

interpretation lfu: victim_choice LFU
  by unfold_locales (simp_all add: LFU_def lfu_touch_def lfu_reset_def lfu_invalidate_def lfu_getVictim_def victim_scan_hd)

interpretation wlru: victim_choice WeightedLRU
  by unfold_locales (simp_all add: WeightedLRU_def wlru_getVictim_def victim_scan_hd)

lemma victim_scan_least:
  fixes d :: "nat \<Rightarrow> 'a :: linorder"
  shows "k \<in> insert v (set cs) \<Longrightarrow> d (victim_scan (<) d v cs) \<le> d k"
proof (induction cs arbitrary: v k)
  case (Cons c cs)
  let ?w = "if d c < d v then c else v"
  have "d (victim_scan (<) d ?w cs) \<le> d ?w" "d ?w \<le> d v" "d ?w \<le> d c"
    using Cons.IH [of ?w ?w] by auto
  then show ?case
    using Cons.IH [of k ?w] Cons.prems by (auto simp del: if_split intro: order_trans)
qed simp

lemma sc_search_result:
  assumes "cs \<noteq> []"
  shows "\<exists>v d'. sc_search now cs d = Inr (v, d') \<and> v \<in> set cs \<and> \<not> hasSecondChance (d' v)
     \<and> (\<forall>k \<in> set cs. tickInserted (d' v) \<le> tickInserted (d' k)) \<and> (\<forall>k. k \<notin> set cs \<longrightarrow> d' k = d k)"
  using assms
proof (induction now cs d rule: sc_search.induct)
  case (1 now cs d)
  let ?v = "victim_scan (<) (\<lambda>k. tickInserted (d k)) (hd cs) cs"
  have f: "fifo_getVictim cs (\<lambda>k. tickInserted (d k)) = Inr ?v" and v: "?v \<in> set cs"
    using 1(2) victim_scan_hd by (simp_all add: fifo_getVictim_def)
  show ?case
  proof (cases "hasSecondChance (d ?v)")
    case True
    obtain u d' where "sc_search now cs (useSecondChance now ?v d) = Inr (u, d')" "u \<in> set cs" "\<not> hasSecondChance (d' u)"
        "\<forall>k \<in> set cs. tickInserted (d' u) \<le> tickInserted (d' k)" "\<forall>k. k \<notin> set cs \<longrightarrow> d' k = useSecondChance now ?v d k"
      using 1(1) [OF f True 1(2)] by blast
    moreover have "useSecondChance now ?v d k = d k" if "k \<notin> set cs" for k
      using that v by (auto simp: useSecondChance_def)
    ultimately show ?thesis
      using f True by (subst sc_search.simps) auto
  next
    case False
    have "\<forall>k \<in> set cs. tickInserted (d ?v) \<le> tickInserted (d k)"
      using victim_scan_least [of _ "hd cs" cs "\<lambda>k. tickInserted (d k)"] by simp
    then show ?thesis
      using f v False by (subst sc_search.simps) auto
  qed
qed

interpretation sc: victim_choice SecondChance
proof unfold_locales
  fix cs :: "nat list" and now and r :: sc_state
  assume "cs \<noteq> []"
  with sc_search_result [OF this, of now r]
  show "\<exists>v r'. rp_getVictim SecondChance now cs r = Inr (v, r') \<and> v \<in> set cs"
    by (auto simp: SecondChance_def sc_getVictim_def find_Some_iff split: option.splits)
qed (simp_all add: SecondChance_def sc_touch_def sc_reset_def sc_invalidate_def)

lemma rrip_scan_member: "rrip_scan d v cs = Inl k \<Longrightarrow> k \<in> set cs" "rrip_scan d v cs = Inr k \<Longrightarrow> k \<in> insert v (set cs)"
  by (induction cs arbitrary: v) (auto split: if_splits)

interpretation brrip: victim_choice "BRRIP num_bits hp btp random" for num_bits hp btp random
proof unfold_locales
  fix cs :: "nat list" and now and r :: rrip_state
  assume cs: "cs \<noteq> []"
  then show "\<exists>v r'. rp_getVictim (BRRIP num_bits hp btp random) now cs r = Inr (v, r') \<and> v \<in> set cs"
    using rrip_scan_member [of r "hd cs" cs]
    by (cases "rrip_scan r (hd cs) cs") (auto simp: BRRIP_def rrip_getVictim_def Let_def)
qed (simp_all add: BRRIP_def rrip_touch_def rrip_reset_def rrip_invalidate_def Let_def)

section \<open>Paths of the tree\<close>

text \<open>Node \<open>i\<close> lies on the path from \<open>x\<close> to the root.\<close>

definition above :: "nat \<Rightarrow> nat \<Rightarrow> bool" where
  "above i x \<longleftrightarrow> (\<exists>k. ((\<lambda>j. (j - 1) div 2) ^^ k) x = i)"

lemma above_refl [simp]: "above i i"
  unfolding above_def by (rule exI [of _ 0]) simp

lemma above_step: "above i x \<Longrightarrow> above ((i - 1) div 2) x"
  unfolding above_def by (metis (no_types, lifting) comp_apply funpow.simps(2))

lemma above_le: "above i x \<Longrightarrow> i \<le> x"
proof -
  have "((\<lambda>j. (j - 1) div 2) ^^ k) x \<le> x" for k :: nat
  proof (induction k)
    case (Suc k)
    have "(y - 1) div 2 \<le> y" for y :: nat
      by simp
    then show ?case
      using Suc order_trans by fastforce
  qed simp
  then show "above i x \<Longrightarrow> i \<le> x"
    by (auto simp: above_def)
qed

lemma above_cases: "above i x \<Longrightarrow> i = x \<or> x > 0 \<and> above i ((x - 1) div 2)"
proof -
  assume "above i x"
  then obtain k where k: "((\<lambda>j. (j - 1) div 2) ^^ k) x = i"
    by (auto simp: above_def)
  show ?thesis
  proof (cases k)
    case (Suc m)
    then have "above i ((x - 1) div 2)"
      using k by (auto simp: above_def funpow_Suc_right simp del: funpow.simps)
    moreover have "x = 0 \<Longrightarrow> i = x"
      using k above_le [of i x] \<open>above i x\<close> by simp
    ultimately show ?thesis
      by auto
  qed (use k in simp)
qed

lemma above_up: "x > 0 \<Longrightarrow> above i ((x - 1) div 2) \<Longrightarrow> above i x"
  unfolding above_def by (metis (no_types, lifting) comp_apply funpow_Suc_right)

lemma above_root: "above 0 x"
proof (induction x rule: less_induct)
  case (less x)
  then show ?case
    by (cases "x = 0") (auto intro: above_up)
qed

lemma above_child:
  assumes "above i x" and "i \<noteq> x"
  shows "\<exists>y. above y x \<and> 0 < y \<and> (y - 1) div 2 = i"
  using assms
proof (induction x rule: less_induct)
  case (less x)
  then have x: "x > 0" "above i ((x - 1) div 2)"
    using above_cases by blast+
  show ?case
  proof (cases "i = (x - 1) div 2")
    case False
    then obtain y where "above y ((x - 1) div 2)" "0 < y" "(y - 1) div 2 = i"
      using less.IH [of "(x - 1) div 2"] x by fastforce
    then show ?thesis
      using above_up x by blast
  qed (use x in \<open>auto intro: exI [of _ x]\<close>)
qed

lemma above_chain: "above y x \<Longrightarrow> above z x \<Longrightarrow> above y z \<or> above z y"
proof (induction x rule: less_induct)
  case (less x)
  consider "y = x" | "z = x" | "x > 0" "above y ((x - 1) div 2)" "above z ((x - 1) div 2)"
    using less.prems above_cases by blast
  then show ?case
  proof cases
    case 3
    then show ?thesis
      using less.IH [of "(x - 1) div 2"] by fastforce
  qed (use less.prems in auto)
qed

lemma below_root:
  assumes "above y x" "above z x" and "0 < y" "(y - 1) div 2 = 0" and "0 < z" "(z - 1) div 2 = 0"
  shows "y = z"
proof -
  have "y \<in> {1, 2}" "z \<in> {1, 2}"
    using assms(3-6) by auto
  moreover have "\<not> above 1 2" "\<not> above 2 1"
    using above_cases [of 1 2] above_le [of 2 1] above_le [of 1 0] by auto
  ultimately show ?thesis
    using above_chain [OF assms(1,2)] by auto
qed

lemma plru_update_path:
  assumes "0 < x" and "x \<le> 2 * length tree"
  shows "\<exists>tree'. plru_update ln away x tree = Inr tree' \<and> length tree' = length tree
     \<and> (\<forall>y. above y x \<and> 0 < y \<longrightarrow> tree' ! ((y - 1) div 2) = (isRightSubtree y \<noteq> away))
     \<and> (\<forall>j. j = x \<or> \<not> above j x \<longrightarrow> tree' ! j = tree ! j)"
  using assms
proof (induction ln away x tree rule: plru_update.induct)
  case (1 ln away x tree)
  let ?up = "(x - 1) div 2" and ?b = "isRightSubtree x \<noteq> away"
  have up: "parentIndex x = ?up" "?up < length tree" "?up < x"
    using 1(2,3) by (auto simp: parentIndex_def)
  have b: "(if away then \<not> isRightSubtree x else isRightSubtree x) = ?b"
    by simp
  show ?case
  proof (cases "?up = 0")
    case True
    then have "plru_update ln away x tree = Inr (tree[?up := ?b])"
      using up b by (subst plru_update.simps) (simp add: Let_def)
    moreover have "tree[?up := ?b] ! ((y - 1) div 2) = (isRightSubtree y \<noteq> away)" if "above y x" "0 < y" for y
    proof -
      have "y = x"
        using above_cases [OF that(1)] above_le [of y ?up] True that(2) by auto
      then show ?thesis
        using up(2) by simp
    qed
    moreover have "tree[?up := ?b] ! j = tree ! j" if "j = x \<or> \<not> above j x" for j
    proof -
      have "j \<noteq> ?up"
        using that True above_root [of x] 1(2) by (cases "j = 0") auto
      then show ?thesis
        by simp
    qed
    ultimately show ?thesis
      by (metis length_list_update)
  next
    case False
    obtain t where t: "plru_update ln away ?up (tree[?up := ?b]) = Inr t" "length t = length tree"
        "\<forall>y. above y ?up \<and> 0 < y \<longrightarrow> t ! ((y - 1) div 2) = (isRightSubtree y \<noteq> away)"
        "\<forall>j. j = ?up \<or> \<not> above j ?up \<longrightarrow> t ! j = tree[?up := ?b] ! j"
      using 1(1) [OF refl refl _ refl] up b False by (auto simp: Let_def)
    have "plru_update ln away x tree = Inr t"
      using up b False t(1) by (subst plru_update.simps) (simp add: Let_def)
    moreover have "t ! ((y - 1) div 2) = (isRightSubtree y \<noteq> away)" if "above y x" "0 < y" for y
      using above_cases [OF that(1)] t(3,4) up that(2) by auto
    moreover have "t ! j = tree ! j" if "j = x \<or> \<not> above j x" for j
    proof -
      have "\<not> above j ?up" "j \<noteq> ?up"
        using that up(3) above_up [OF 1(2)] above_le [of x ?up] above_refl [of ?up] by (metis leD)+
      then show ?thesis
        using t(4) by simp
    qed
    ultimately show ?thesis
      using t(2) by blast
  qed
qed

lemma plru_descend_above: "above i (plru_descend tree i)"
proof (induction tree i rule: plru_descend.induct)
  case (1 tree i)
  show ?case
  proof (cases "i < length tree")
    case True
    let ?ch = "if tree ! i then rightSubtreeIndex i else leftSubtreeIndex i"
    have "(?ch - 1) div 2 = i"
      by (simp add: rightSubtreeIndex_def leftSubtreeIndex_def)
    then show ?thesis
      using above_step [OF 1 [OF True]] True by (subst plru_descend.simps) simp
  qed (simp add: plru_descend.simps)
qed

lemma plru_descend_bounds:
  assumes "i \<le> 2 * length tree"
  shows "length tree \<le> plru_descend tree i \<and> plru_descend tree i \<le> 2 * length tree"
  using assms
proof (induction tree i rule: plru_descend.induct)
  case (1 tree i)
  then show ?case
    by (subst (1 2) plru_descend.simps) (auto simp: rightSubtreeIndex_def leftSubtreeIndex_def)
qed

lemma plru_descend_path:
  assumes "\<And>y. above y x \<Longrightarrow> 0 < y \<Longrightarrow> tree ! ((y - 1) div 2) = isRightSubtree y"
    and "length tree \<le> x" "x \<le> 2 * length tree" and "above i x"
  shows "plru_descend tree i = x"
  using assms
proof (induction tree i rule: plru_descend.induct)
  case (1 tree i)
  show ?case
  proof (cases "i < length tree")
    case True
    then have "i \<noteq> x"
      using 1(3) by simp
    with above_child [OF 1(5)] obtain y where y: "above y x" "0 < y" "(y - 1) div 2 = i"
      by blast
    moreover have "y = (if isRightSubtree y then 2 * i + 2 else 2 * i + 1)"
      using y(2,3) unfolding isRightSubtree_def by presburger
    ultimately have "(if tree ! i then rightSubtreeIndex i else leftSubtreeIndex i) = y"
      using 1(2) [of y] by (simp add: rightSubtreeIndex_def leftSubtreeIndex_def split: if_splits)
    then show ?thesis
      using 1(1) [OF True] 1(2-4) y True by (subst plru_descend.simps) simp
  next
    case False
    have "i = x"
    proof (rule ccontr)
      assume "i \<noteq> x"
      with above_child [OF 1(5)] obtain y where "above y x" "0 < y" "(y - 1) div 2 = i"
        by blast
      then show False
        using above_le [of y x] 1(4) False by linarith
    qed
    then show ?thesis
      using False by (simp add: plru_descend.simps)
  qed
qed

lemma plru_leaf_bounds:
  "2 \<le> n \<Longrightarrow> way < n \<Longrightarrow> length tree = n - 1 \<Longrightarrow>
     plru_leaf n way = way + n - 1 \<and> 0 < plru_leaf n way \<and> length tree \<le> plru_leaf n way \<and> plru_leaf n way \<le> 2 * length tree"
  by (auto simp: plru_leaf_def)

lemma plru_invalidate_victim:
  assumes n: "2 \<le> n" "way < n" "length tree = n - 1"
  shows "\<exists>t. plru_invalidate n way tree = Inr t \<and> length t = n - 1 \<and> plru_descend t 0 = way + n - 1"
proof -
  note x = plru_leaf_bounds [OF n]
  obtain t where t: "plru_update 133 False (plru_leaf n way) tree = Inr t" "length t = length tree"
      "\<And>y. above y (plru_leaf n way) \<Longrightarrow> 0 < y \<Longrightarrow> t ! ((y - 1) div 2) = isRightSubtree y"
    using plru_update_path [of "plru_leaf n way" tree 133 False] x by auto
  have "plru_descend t 0 = plru_leaf n way"
    using x t(2) by (intro plru_descend_path t(3) above_root) simp_all
  then show ?thesis
    using t x n(3) by (auto simp: plru_invalidate_def)
qed

lemma plru_touch_victim:
  assumes n: "2 \<le> n" "way < n" "length tree = n - 1"
  shows "\<exists>t. plru_touch n now way tree = Inr t \<and> length t = n - 1 \<and> plru_descend t 0 \<noteq> way + n - 1"
proof -
  note x = plru_leaf_bounds [OF n]
  let ?x = "plru_leaf n way"
  obtain t where t: "plru_update 159 True ?x tree = Inr t" "length t = length tree"
      "\<And>y. above y ?x \<Longrightarrow> 0 < y \<Longrightarrow> t ! ((y - 1) div 2) = (\<not> isRightSubtree y)"
    using plru_update_path [of ?x tree 159 True] x by auto
  obtain y where y: "above y ?x" "0 < y" "(y - 1) div 2 = 0"
    using above_child [OF above_root, of ?x] x by auto
  let ?z = "if t ! 0 then rightSubtreeIndex 0 else leftSubtreeIndex 0"
  have "0 < length t"
    using n t(2) by simp
  then have d: "plru_descend t 0 = plru_descend t ?z"
    by (subst plru_descend.simps) simp
  have "y \<in> {1, 2}"
    using y(2,3) by auto
  then have z: "?z \<noteq> y" "0 < ?z" "(?z - 1) div 2 = 0"
    using t(3) [OF y(1,2)] y(3) by (auto simp: isRightSubtree_def rightSubtreeIndex_def leftSubtreeIndex_def)
  have "plru_descend t 0 \<noteq> ?x"
    using below_root [OF _ y(1) z(2,3) y(2,3)] plru_descend_above [of ?z t] z(1) d by metis
  then show ?thesis
    using t x n(3) by (auto simp: plru_touch_def)
qed

section \<open>Properties\<close>

text \<open>
  The least recently used way is evicted. The victim of the LRU policy is one of the candidates
  and no candidate was touched before it; a way that has just been invalidated is evicted before
  every way that has been touched since the start, and a way touched later than the others only
  when it is the only candidate.
\<close>

theorem lru_victim_least:
  assumes "candidates \<noteq> []"
  shows "\<exists>v. lru_getVictim candidates t = Inr v \<and> v \<in> set candidates \<and> (\<forall>k \<in> set candidates. t v \<le> t k)
     \<and> (way \<in> set candidates \<longrightarrow> (\<forall>k. k \<noteq> way \<longrightarrow> 0 < t k) \<longrightarrow>
          rbind (lru_invalidate way t) (lru_getVictim candidates) = Inr way)
     \<and> ((\<exists>k \<in> set candidates. k \<noteq> way) \<longrightarrow> (\<forall>k. t k < now) \<longrightarrow>
          rbind (lru_touch now way t) (lru_getVictim candidates) \<noteq> Inr way)"
proof -
  have g: "lru_getVictim candidates u = Inr (victim_scan (<) u (hd candidates) candidates)"
      "victim_scan (<) u (hd candidates) candidates \<in> set candidates" for u
    using assms victim_scan_hd by (simp_all add: lru_getVictim_def)
  have l: "u (victim_scan (<) u (hd candidates) candidates) \<le> u k" if "k \<in> set candidates" for u :: lru_state and k
    using victim_scan_least [of k "hd candidates" candidates u] that by simp
  have "victim_scan (<) (t(way := 0)) (hd candidates) candidates = way"
    if "way \<in> set candidates" "\<forall>k. k \<noteq> way \<longrightarrow> 0 < t k"
    using l [OF that(1), of "t(way := 0)"] that(2) by (metis fun_upd_apply le_zero_eq less_numeral_extra(3))
  moreover have "victim_scan (<) (t(way := now)) (hd candidates) candidates \<noteq> way"
    if "k \<in> set candidates" "k \<noteq> way" "\<forall>k. t k < now" for k
    using l [OF that(1), of "t(way := now)"] that(2,3) by (metis fun_upd_apply not_le)
  ultimately show ?thesis
    using g l by (auto simp: lru_invalidate_def lru_touch_def)
qed

theorem lru_victim_least_witness:
  "\<exists>v. lru_getVictim [2, 0, 1] (\<lambda>k. [7, 3, 5] ! k) = Inr v \<and> v \<in> {0, 1, 2 :: nat} \<and> v \<noteq> 0"
  using lru_victim_least [of "[2, 0, 1]" "\<lambda>k. [7, 3, 5] ! k" 0 9] by force

text \<open>
  The tree policy points away from the last access. For a set of at least two ways, all of
  them offered, the way that was just invalidated is the next victim, and the way that was just
  touched is not.
\<close>

theorem tree_plru_victim:
  assumes "2 \<le> n" and "way < n" and "length tree = n - 1"
  shows "rbind (plru_invalidate n way tree) (plru_getVictim n [0..<n]) = Inr way
     \<and> (\<exists>v < n. v \<noteq> way \<and> rbind (plru_touch n now way tree) (plru_getVictim n [0..<n]) = Inr v)"
proof -
  obtain t where t: "plru_invalidate n way tree = Inr t" "plru_descend t 0 = way + n - 1"
    using plru_invalidate_victim [OF assms] by blast
  obtain u where u: "plru_touch n now way tree = Inr u" "length u = n - 1" "plru_descend u 0 \<noteq> way + n - 1"
    using plru_touch_victim [OF assms] by blast
  have "n - 1 \<le> plru_descend u 0 \<and> plru_descend u 0 \<le> 2 * (n - 1)"
    using plru_descend_bounds [of 0 u] u(2) by simp
  then have "plru_descend u 0 - (n - 1) < n" "plru_descend u 0 - (n - 1) \<noteq> way"
    using assms(1) u(3) by linarith+
  then show ?thesis
    using assms(1,2) t u(1) by (auto simp: plru_getVictim_def Let_def)
qed

theorem tree_plru_victim_witness:
  "rbind (plru_invalidate 4 2 [True, False, True]) (plru_getVictim 4 [0..<4]) = Inr 2"
  using tree_plru_victim [of 4 2 "[True, False, True]"] by simp

text \<open>
  C39. The second-chance search ends. Whatever candidates are offered, as long as there is one, the
  search of the second-chance policy returns a candidate that has no second chance left and is the
  oldest of the candidates at that moment, and it leaves the other ways alone.
\<close>

theorem second_chance_terminates:
  assumes "candidates \<noteq> []"
  shows "\<exists>v d'. sc_getVictim now candidates d = Inr (v, d') \<and> v \<in> set candidates \<and> \<not> hasSecondChance (d' v)
     \<and> (\<forall>k \<in> set candidates. tickInserted (d' v) \<le> tickInserted (d' k))
     \<and> (\<forall>k. k \<notin> set candidates \<longrightarrow> d' k = d k)"
proof (cases "find (\<lambda>k. tickInserted (d k) = 0 \<and> \<not> hasSecondChance (d k)) candidates")
  case None
  then show ?thesis
    using sc_search_result [OF assms, of now d] assms by (simp add: sc_getVictim_def)
next
  case (Some v)
  moreover from this have "v \<in> set candidates" "tickInserted (d v) = 0" "\<not> hasSecondChance (d v)"
    by (auto simp: find_Some_iff)
  ultimately show ?thesis
    using assms by (auto simp: sc_getVictim_def)
qed

theorem second_chance_terminates_witness:
  "\<exists>v d'. sc_getVictim 9 [0, 1] (\<lambda>k. \<lparr>tickInserted = k + 1, hasSecondChance = (k = 0)\<rparr>) = Inr (v, d') \<and> v \<in> {0, 1}"
  using second_chance_terminates [of "[0, 1]" 9 "\<lambda>k. \<lparr>tickInserted = k + 1, hasSecondChance = (k = 0)\<rparr>"] by auto

end
