(* ===== verification/Cache_Array.thy ===== *)
theory Cache_Array
  imports Replacement Abort_Signal
begin

text \<open>
  The set-associative cache (\<^verbatim>\<open>mem/ruby/structures/CacheMemory.cc\<close>): an array of sets of ways, an
  index from tags to ways, and the replacement state of every set. The transactional memory
  managers see this cache as a map from line addresses to lines; here the array is shown to
  implement that map, and the choice of a victim to respect the running transaction.
\<close>

section \<open>Entries\<close>

text \<open>
  An entry (\<^verbatim>\<open>AbstractCacheEntry\<close>) with the data block of the protocol's entry and the position that
  \<^verbatim>\<open>ReplaceableEntry\<close> holds. A null pointer in the array is \<open>None\<close>.
\<close>

record cache_entry =
  m_Address :: addr
  m_locked :: int
  e_Permission :: AccessPermission
  m_last_touch_tick :: nat
  validBlocks :: int
  m_htmInReadSet :: bool
  m_htmInWriteSet :: bool
  e_htmLogPending :: bool
  e_DataBlk :: DataBlock
  e_set :: nat
  e_way :: nat

definition entry_init :: "DataBlock \<Rightarrow> int \<Rightarrow> nat \<Rightarrow> nat \<Rightarrow> cache_entry" where
  "entry_init blk vb st wy =
     \<lparr>m_Address = 0, m_locked = - 1, e_Permission = NotPresent, m_last_touch_tick = 0, validBlocks = vb,
      m_htmInReadSet = False, m_htmInWriteSet = False, e_htmLogPending = False, e_DataBlk = blk,
      e_set = st, e_way = wy\<rparr>"

definition changePermission :: "AccessPermission \<Rightarrow> cache_entry \<Rightarrow> cache_entry" where
  "changePermission new_perm e =
     (let e1 = e\<lparr>e_Permission := new_perm\<rparr> in
      if new_perm = Perm_Invalid \<or> new_perm = NotPresent then e1\<lparr>m_locked := - 1\<rparr> else e1)"

definition entry_setLocked :: "int \<Rightarrow> cache_entry \<Rightarrow> cache_entry" where
  "entry_setLocked context_id e = e\<lparr>m_locked := context_id\<rparr>"

definition entry_clearLocked :: "cache_entry \<Rightarrow> cache_entry" where
  "entry_clearLocked e = e\<lparr>m_locked := - 1\<rparr>"

definition entry_isLocked :: "int \<Rightarrow> cache_entry \<Rightarrow> bool" where
  "entry_isLocked context_id e \<longleftrightarrow> m_locked e = context_id"

section \<open>The array\<close>

record cache_params =
  m_cache_assoc :: nat
  m_cache_num_sets :: nat
  m_cache_num_set_bits :: nat
  m_start_index_bit :: nat
  m_is_instruction_only_cache :: bool
  m_htm_aware_replacements :: bool
  m_htm_allowed_read_set_evictions :: bool
  m_use_occupancy :: bool

record 'r cache =
  m_cache :: "cache_entry option list list"
  m_tag_index :: "(addr, nat) smap"
  replacement_data :: "'r list"

text \<open>\<^verbatim>\<open>floorLog2\<close> of an \<^verbatim>\<open>int\<close>, which has four bytes: it halves the number of bits in play with every test.\<close>

definition log_step :: "nat \<Rightarrow> nat \<times> nat \<Rightarrow> nat \<times> nat" where
  "log_step k p = (case p of (y, ux) \<Rightarrow>
     if (ux div 2 ^ k) mod 2 ^ k \<noteq> 0 then (y + k, ux div 2 ^ k) else (y, ux))"

definition floorLog2 :: "nat \<Rightarrow> nat" where
  "floorLog2 x =
     (let (y, ux) = log_step 2 (log_step 4 (log_step 8 (log_step 16 (0, x)))) in
      if (ux div 2) mod 2 \<noteq> 0 then y + 1 else y)"

definition cache_geometry :: "htm_params \<Rightarrow> nat \<Rightarrow> nat \<Rightarrow> cache_params \<Rightarrow> cache_params res" where
  "cache_geometry c cache_size block_size p =
     (let bs = (if block_size = 0 then getBlockSizeBytes (block_size_bits c) else block_size) in
      if m_cache_assoc p = 0 then Inl (UndefinedAt CacheMemory_cc 99)
      else let n = (cache_size div m_cache_assoc p) div bs in
        asrt CacheMemory_cc 100 (n > 1)
          (let k = floorLog2 n in
           asrt CacheMemory_cc 102 (k > 0) (Inr (p\<lparr>m_cache_num_sets := n, m_cache_num_set_bits := k\<rparr>))))"

definition cache_init :: "'r policy \<Rightarrow> cache_params \<Rightarrow> 'r cache" where
  "cache_init pol p =
     \<lparr>m_cache = replicate (m_cache_num_sets p) (replicate (m_cache_assoc p) None), m_tag_index = [],
      replacement_data = replicate (m_cache_num_sets p) (rp_instantiate pol)\<rparr>"

definition addressToCacheSet :: "htm_params \<Rightarrow> cache_params \<Rightarrow> addr \<Rightarrow> nat res" where
  "addressToCacheSet c p address =
     asrt CacheMemory_cc 132 (address = line c address)
       (rbind (bitSelect address (m_start_index_bit p) (m_start_index_bit p + m_cache_num_set_bits p - 1)) (\<lambda>b.
          Inr (unat b)))"

text \<open>An element of the array, and its replacement in place.\<close>

definition slot :: "nat \<Rightarrow> 'r cache \<Rightarrow> nat \<Rightarrow> nat \<Rightarrow> cache_entry option res" where
  "slot ln s i w = vread CacheMemory_cc ln (m_cache s) i (\<lambda>row. vread CacheMemory_cc ln row w Inr)"

definition put_slot :: "nat \<Rightarrow> nat \<Rightarrow> cache_entry option \<Rightarrow> 'r cache \<Rightarrow> 'r cache" where
  "put_slot i w x s = s\<lparr>m_cache := (m_cache s)[i := ((m_cache s) ! i)[w := x]]\<rparr>"

definition findTagInSet :: "htm_params \<Rightarrow> nat \<Rightarrow> addr \<Rightarrow> 'r cache \<Rightarrow> nat option res" where
  "findTagInSet c cacheSet tag s =
     asrt CacheMemory_cc 142 (tag = line c tag)
       (case smap_find (m_tag_index s) tag of
          None \<Rightarrow> Inr None
        | Some w \<Rightarrow> rbind (slot 146 s cacheSet w) (\<lambda>x.
            case x of
              None \<Rightarrow> Inl (UndefinedAt CacheMemory_cc 146)
            | Some e \<Rightarrow> Inr (if e_Permission e \<noteq> NotPresent then Some w else None)))"

definition findTagInSetIgnorePermissions :: "htm_params \<Rightarrow> nat \<Rightarrow> addr \<Rightarrow> 'r cache \<Rightarrow> nat option res" where
  "findTagInSetIgnorePermissions c cacheSet tag s =
     asrt CacheMemory_cc 158 (tag = line c tag) (Inr (smap_find (m_tag_index s) tag))"

definition getAddressAtIdx :: "cache_params \<Rightarrow> nat \<Rightarrow> 'r cache \<Rightarrow> addr res" where
  "getAddressAtIdx p idx s =
     (if m_cache_assoc p = 0 then Inl (UndefinedAt CacheMemory_cc 174)
      else let st = idx div m_cache_assoc p in
        asrt CacheMemory_cc 175 (st < m_cache_num_sets p)
          (let way = idx - st * m_cache_assoc p in
           asrt CacheMemory_cc 178 (way < m_cache_assoc p)
             (rbind (slot 180 s st way) (\<lambda>x.
                Inr (case x of
                       None \<Rightarrow> 0
                     | Some e \<Rightarrow> if e_Permission e = Perm_Invalid \<or> e_Permission e = NotPresent then 0
                                 else m_Address e)))))"

definition lookup :: "htm_params \<Rightarrow> cache_params \<Rightarrow> addr \<Rightarrow> 'r cache \<Rightarrow> cache_entry option res" where
  "lookup c p address s =
     asrt CacheMemory_cc 373 (address = line c address)
       (rbind (addressToCacheSet c p address) (\<lambda>cacheSet.
        rbind (findTagInSet c cacheSet address s) (\<lambda>loc.
          case loc of None \<Rightarrow> Inr None | Some w \<Rightarrow> slot 377 s cacheSet w)))"

text \<open>A change of an entry that was found; the pointer names its place in the array.\<close>

definition set_repl :: "nat \<Rightarrow> 'r \<Rightarrow> 'r cache \<Rightarrow> 'r cache" where
  "set_repl i r s = s\<lparr>replacement_data := (replacement_data s)[i := r]\<rparr>"

definition touch_entry :: "'r policy \<Rightarrow> nat \<Rightarrow> cache_entry \<Rightarrow> 'r cache \<Rightarrow> 'r cache res" where
  "touch_entry pol now e s =
     vread CacheMemory_cc 198 (replacement_data s) (e_set e) (\<lambda>r.
       rbind (rp_touch pol now (e_way e) r) (\<lambda>r'.
         Inr (put_slot (e_set e) (e_way e) (Some (e\<lparr>m_last_touch_tick := now\<rparr>)) (set_repl (e_set e) r' s))))"

definition array_tryCacheAccess ::
    "htm_params \<Rightarrow> cache_params \<Rightarrow> 'r policy \<Rightarrow> nat \<Rightarrow> addr \<Rightarrow> RubyRequestType \<Rightarrow> bool \<Rightarrow> 'r cache
     \<Rightarrow> (DataBlock option \<times> 'r cache) res" where
  "array_tryCacheAccess c p pol now address type touch s =
     rbind (lookup c p address s) (\<lambda>entry.
       case entry of
         None \<Rightarrow> Inr (None, s)
       | Some e \<Rightarrow>
           rbind (if touch then touch_entry pol now e s else Inr s) (\<lambda>s1.
             if e_Permission e = Read_Write then Inr (Some (e_DataBlk e), s1)
             else if e_Permission e = Read_Only \<and> (type = LD \<or> type = IFETCH) then Inr (Some (e_DataBlk e), s1)
             else Inr (None, s1)))"

definition testCacheAccess ::
    "htm_params \<Rightarrow> cache_params \<Rightarrow> 'r policy \<Rightarrow> nat \<Rightarrow> addr \<Rightarrow> 'r cache \<Rightarrow> (bool \<times> DataBlock option \<times> 'r cache) res" where
  "testCacheAccess c p pol now address s =
     rbind (lookup c p address s) (\<lambda>entry.
       case entry of
         None \<Rightarrow> Inr (False, None, s)
       | Some e \<Rightarrow> rbind (touch_entry pol now e s) (\<lambda>s1. Inr (e_Permission e \<noteq> NotPresent, Some (e_DataBlk e), s1)))"

definition isTagPresent :: "htm_params \<Rightarrow> cache_params \<Rightarrow> addr \<Rightarrow> 'r cache \<Rightarrow> bool res" where
  "isTagPresent c p address s = rbind (lookup c p address s) (\<lambda>entry. Inr (entry \<noteq> None))"

fun avail_scan :: "addr \<Rightarrow> cache_entry option list \<Rightarrow> bool" where
  "avail_scan address [] = False"
| "avail_scan address (None # row) = True"
| "avail_scan address (Some e # row) =
     (if m_Address e = address \<or> e_Permission e = NotPresent then True else avail_scan address row)"

definition cacheAvail :: "htm_params \<Rightarrow> cache_params \<Rightarrow> addr \<Rightarrow> 'r cache \<Rightarrow> bool res" where
  "cacheAvail c p address s =
     asrt CacheMemory_cc 255 (address = line c address)
       (rbind (addressToCacheSet c p address) (\<lambda>cacheSet.
          vread CacheMemory_cc 260 (m_cache s) cacheSet (\<lambda>row.
            Inr (avail_scan address (take (m_cache_assoc p) row)))))"

text \<open>The loop of \<^verbatim>\<open>allocate\<close>: the first way that is empty or whose entry is not present.\<close>

fun open_way :: "cache_entry option list \<Rightarrow> nat option" where
  "open_way [] = None"
| "open_way (None # row) = Some 0"
| "open_way (Some e # row) = (if e_Permission e = NotPresent then Some 0 else map_option Suc (open_way row))"

definition allocate ::
    "htm_params \<Rightarrow> cache_params \<Rightarrow> 'r policy \<Rightarrow> nat \<Rightarrow> addr \<Rightarrow> cache_entry \<Rightarrow> 'r cache \<Rightarrow> 'r cache res" where
  "allocate c p pol now address entry s =
     asrt CacheMemory_cc 277 (address = line c address)
      (rbind (isTagPresent c p address s) (\<lambda>present.
       asrt CacheMemory_cc 278 (\<not> present)
        (rbind (cacheAvail c p address s) (\<lambda>avail.
         asrt CacheMemory_cc 279 avail
          (rbind (addressToCacheSet c p address) (\<lambda>cacheSet.
            vread CacheMemory_cc 284 (m_cache s) cacheSet (\<lambda>row.
              case open_way (take (m_cache_assoc p) row) of
                None \<Rightarrow> Inl (PanicAt CacheMemory_cc 312)
              | Some i \<Rightarrow>
                  (let e = entry\<lparr>m_Address := address, e_Permission := Perm_Invalid, m_locked := - 1,
                                 e_set := cacheSet, e_way := i, m_last_touch_tick := now\<rparr>;
                       s1 = (put_slot cacheSet i (Some e) s)\<lparr>m_tag_index := smap_assign address i (m_tag_index s)\<rparr> in
                   vread CacheMemory_cc 302 (replacement_data s1) cacheSet (\<lambda>r.
                     rbind (rp_reset pol now i r) (\<lambda>r'. Inr (set_repl cacheSet r' s1)))))))))))"

definition deallocate :: "htm_params \<Rightarrow> cache_params \<Rightarrow> 'r policy \<Rightarrow> addr \<Rightarrow> 'r cache \<Rightarrow> 'r cache res" where
  "deallocate c p pol address s =
     rbind (lookup c p address s) (\<lambda>entry.
       case entry of
         None \<Rightarrow> Inl (AssertFail CacheMemory_cc 320)
       | Some e \<Rightarrow>
           vread CacheMemory_cc 321 (replacement_data s) (e_set e) (\<lambda>r.
             rbind (rp_invalidate pol (e_way e) r) (\<lambda>r'.
             rbind (slot 325 s (e_set e) (e_way e)) (\<lambda>_.
               Inr ((put_slot (e_set e) (e_way e) None (set_repl (e_set e) r' s))
                      \<lparr>m_tag_index := smap_erase address (m_tag_index s)\<rparr>)))))"

section \<open>Choosing a victim\<close>

text \<open>
  One pass of the loop over the ways of a full set. \<open>mgr\<close> is the transaction manager the cache was
  given, if any; \<open>xact\<close> is the local copy that the loop drops after a pass without candidates.
\<close>

definition probe_skips :: "htm_params \<Rightarrow> cache_params \<Rightarrow> xact option \<Rightarrow> xact option \<Rightarrow> cache_entry \<Rightarrow> bool res" where
  "probe_skips c p mgr xact e =
     (if mgr \<noteq> None \<and> \<not> lazy_vm c \<and> e_htmLogPending e then Inr True
      else case xact of
        None \<Rightarrow> Inr False
      | Some w \<Rightarrow>
          if m_htm_aware_replacements p then
            rbind (checkWriteSignature c w (m_Address e)) (\<lambda>wr.
              if wr then Inr True
              else if \<not> m_htm_allowed_read_set_evictions p then checkReadSignature c w (m_Address e)
              else Inr False)
          else Inr False)"

fun probe_pass ::
    "htm_params \<Rightarrow> cache_params \<Rightarrow> xact option \<Rightarrow> xact option \<Rightarrow> cache_entry option list \<Rightarrow> cache_entry list res" where
  "probe_pass c p mgr xact [] = Inr []"
| "probe_pass c p mgr xact (None # row) = Inl (UndefinedAt CacheMemory_cc 343)"
| "probe_pass c p mgr xact (Some e # row) =
     rbind (probe_skips c p mgr xact e) (\<lambda>skip.
     rbind (probe_pass c p mgr xact row) (\<lambda>candidates.
       Inr (if skip then candidates else e # candidates)))"

text \<open>The \<^verbatim>\<open>do ... while\<close> loop may run forever; then its value is \<open>None\<close>.\<close>

partial_function (option) probe_loop ::
    "htm_params \<Rightarrow> cache_params \<Rightarrow> xact option \<Rightarrow> cache_entry option list \<Rightarrow> xact option \<Rightarrow> cache_entry list res option" where
  "probe_loop c p mgr row xact =
     (case probe_pass c p mgr xact row of
        Inl f \<Rightarrow> Some (Inl f)
      | Inr candidates \<Rightarrow> if candidates = [] then probe_loop c p mgr row None else Some (Inr candidates))"

text \<open>The policy sees the ways of the candidates; the victim is looked up in the set by its way.\<close>

definition probe_victim ::
    "'r policy \<Rightarrow> nat \<Rightarrow> nat \<Rightarrow> cache_entry list \<Rightarrow> 'r cache \<Rightarrow> (addr \<times> 'r cache) res" where
  "probe_victim pol now cacheSet candidates s =
     vread CacheMemory_cc 364 (replacement_data s) cacheSet (\<lambda>r.
       rbind (rp_getVictim pol now (map e_way candidates) r) (\<lambda>(way, r').
       rbind (slot 364 s cacheSet way) (\<lambda>x.
         case x of
           None \<Rightarrow> Inl (UndefinedAt CacheMemory_cc 365)
         | Some e \<Rightarrow> Inr (m_Address e, set_repl cacheSet r' s))))"

definition cacheProbe ::
    "htm_params \<Rightarrow> cache_params \<Rightarrow> 'r policy \<Rightarrow> nat \<Rightarrow> xact option \<Rightarrow> addr \<Rightarrow> 'r cache \<Rightarrow> (addr \<times> 'r cache) res option" where
  "cacheProbe c p pol now mgr address s =
     (case asrt CacheMemory_cc 333 (address = line c address)
             (rbind (cacheAvail c p address s) (\<lambda>avail.
               asrt CacheMemory_cc 334 (\<not> avail)
                 (rbind (addressToCacheSet c p address) (\<lambda>cacheSet.
                   vread CacheMemory_cc 343 (m_cache s) cacheSet (\<lambda>row. Inr (cacheSet, row)))))) of
        Inl f \<Rightarrow> Some (Inl f)
      | Inr (cacheSet, row) \<Rightarrow>
          map_option (\<lambda>r. rbind r (\<lambda>candidates. probe_victim pol now cacheSet candidates s))
            (probe_loop c p mgr (take (m_cache_assoc p) row) mgr))"

section \<open>The other operations\<close>

definition setMRU :: "htm_params \<Rightarrow> cache_params \<Rightarrow> 'r policy \<Rightarrow> nat \<Rightarrow> addr \<Rightarrow> 'r cache \<Rightarrow> 'r cache res" where
  "setMRU c p pol now address s =
     rbind (lookup c p (line c address) s) (\<lambda>entry.
       case entry of None \<Rightarrow> Inr s | Some e \<Rightarrow> touch_entry pol now e s)"

text \<open>With the weighted policy the occupancy is recorded too.\<close>

definition setMRU_weighted ::
    "htm_params \<Rightarrow> cache_params \<Rightarrow> nat \<Rightarrow> addr \<Rightarrow> int \<Rightarrow> wlru_state cache \<Rightarrow> wlru_state cache res" where
  "setMRU_weighted c p now address occupancy s =
     rbind (lookup c p (line c address) s) (\<lambda>entry.
       case entry of
         None \<Rightarrow> Inr s
       | Some e \<Rightarrow>
           touch_entry (if m_use_occupancy p then WeightedLRU\<lparr>rp_touch := (\<lambda>now way. wlru_touch now way occupancy)\<rparr>
                        else WeightedLRU) now e s)"

definition getReplacementWeight :: "cache_params \<Rightarrow> nat \<Rightarrow> nat \<Rightarrow> 'r cache \<Rightarrow> int res" where
  "getReplacementWeight p st loc s =
     asrt CacheMemory_cc 432 (st < m_cache_num_sets p)
       (asrt CacheMemory_cc 433 (loc < m_cache_assoc p)
         (rbind (slot 435 s st loc) (\<lambda>x.
            case x of None \<Rightarrow> Inr 0 | Some e \<Rightarrow> asrt CacheMemory_cc 437 (validBlocks e \<ge> 0) (Inr (validBlocks e)))))"

text \<open>The records of a checkpoint: address, request type, last access and data of every readable line.\<close>

definition record_entry :: "cache_params \<Rightarrow> cache_entry option \<Rightarrow> (addr \<times> RubyRequestType \<times> nat \<times> DataBlock) list" where
  "record_entry p x =
     (case x of
        None \<Rightarrow> []
      | Some e \<Rightarrow>
          if e_Permission e = Read_Only
          then [(m_Address e, if m_is_instruction_only_cache p then IFETCH else LD, m_last_touch_tick e, e_DataBlk e)]
          else if e_Permission e = Read_Write then [(m_Address e, ST, m_last_touch_tick e, e_DataBlk e)]
          else [])"

definition recordCacheContents :: "cache_params \<Rightarrow> 'r cache \<Rightarrow> (addr \<times> RubyRequestType \<times> nat \<times> DataBlock) list" where
  "recordCacheContents p s = concat (map (record_entry p) (concat (m_cache s)))"

definition update_found ::
    "htm_params \<Rightarrow> cache_params \<Rightarrow> nat \<Rightarrow> addr \<Rightarrow> (cache_entry \<Rightarrow> cache_entry res) \<Rightarrow> 'r cache \<Rightarrow> 'r cache res" where
  "update_found c p ln address f s =
     rbind (lookup c p address s) (\<lambda>entry.
       case entry of
         None \<Rightarrow> Inl (AssertFail CacheMemory_cc ln)
       | Some e \<Rightarrow> rbind (f e) (\<lambda>e'. Inr (put_slot (e_set e) (e_way e) (Some e') s)))"

definition setLocked :: "htm_params \<Rightarrow> cache_params \<Rightarrow> addr \<Rightarrow> int \<Rightarrow> 'r cache \<Rightarrow> 'r cache res" where
  "setLocked c p address context_id s = update_found c p 512 address (\<lambda>e. Inr (entry_setLocked context_id e)) s"

definition clearLocked :: "htm_params \<Rightarrow> cache_params \<Rightarrow> addr \<Rightarrow> 'r cache \<Rightarrow> 'r cache res" where
  "clearLocked c p address s = update_found c p 521 address (\<lambda>e. Inr (entry_clearLocked e)) s"

definition map_entries :: "(cache_entry \<Rightarrow> cache_entry) \<Rightarrow> 'r cache \<Rightarrow> 'r cache" where
  "map_entries f s = s\<lparr>m_cache := map (map (map_option f)) (m_cache s)\<rparr>"

definition clearLockedAll :: "int \<Rightarrow> 'r cache \<Rightarrow> 'r cache" where
  "clearLockedAll context_id s = map_entries (\<lambda>e. if entry_isLocked context_id e then entry_clearLocked e else e) s"

definition isLocked :: "htm_params \<Rightarrow> cache_params \<Rightarrow> addr \<Rightarrow> int \<Rightarrow> 'r cache \<Rightarrow> bool res" where
  "isLocked c p address context_id s =
     rbind (lookup c p address s) (\<lambda>entry.
       case entry of None \<Rightarrow> Inl (AssertFail CacheMemory_cc 546) | Some e \<Rightarrow> Inr (entry_isLocked context_id e))"

definition isBlockInvalid :: "nat \<Rightarrow> nat \<Rightarrow> 'r cache \<Rightarrow> bool res" where
  "isBlockInvalid st loc s =
     rbind (slot 704 s st loc) (\<lambda>x.
       case x of None \<Rightarrow> Inl (UndefinedAt CacheMemory_cc 704) | Some e \<Rightarrow> Inr (e_Permission e = Perm_Invalid))"

definition isBlockNotBusy :: "nat \<Rightarrow> nat \<Rightarrow> 'r cache \<Rightarrow> bool res" where
  "isBlockNotBusy st loc s =
     rbind (slot 710 s st loc) (\<lambda>x.
       case x of None \<Rightarrow> Inl (UndefinedAt CacheMemory_cc 710) | Some e \<Rightarrow> Inr (e_Permission e \<noteq> Busy))"

text \<open>
  The commit and the abort that the cache itself can do, with the sizes of the read and write sets
  they sample; \<open>invalidateEntry\<close> is the function of the protocol's entry.
\<close>

definition entries :: "'r cache \<Rightarrow> cache_entry list" where
  "entries s = concat (map (\<lambda>x. case x of None \<Rightarrow> [] | Some e \<Rightarrow> [e]) (concat (m_cache s)))"

definition htm_set_sizes :: "'r cache \<Rightarrow> nat \<times> nat" where
  "htm_set_sizes s = (length (filter m_htmInReadSet (entries s)), length (filter m_htmInWriteSet (entries s)))"

definition htmAbortTransaction :: "(cache_entry \<Rightarrow> cache_entry) \<Rightarrow> 'r cache \<Rightarrow> (nat \<times> nat) \<times> 'r cache" where
  "htmAbortTransaction invalidateEntry s =
     (htm_set_sizes s,
      map_entries (\<lambda>e. let e1 = (if m_htmInWriteSet e then invalidateEntry e else e) in
        entry_clearLocked (e1\<lparr>m_htmInWriteSet := False, m_htmInReadSet := False\<rparr>)) s)"

definition htmCommitTransaction :: "'r cache \<Rightarrow> (nat \<times> nat) \<times> 'r cache" where
  "htmCommitTransaction s =
     (htm_set_sizes s,
      map_entries (\<lambda>e. entry_clearLocked (e\<lparr>m_htmInWriteSet := False, m_htmInReadSet := False\<rparr>)) s)"

definition setHtmLogPending :: "htm_params \<Rightarrow> cache_params \<Rightarrow> addr \<Rightarrow> bool \<Rightarrow> 'r cache \<Rightarrow> 'r cache res" where
  "setHtmLogPending c p address val s =
     update_found c p 783 address
       (\<lambda>e. asrt CacheMemory_cc 785 (val \<or> e_htmLogPending e) (Inr (e\<lparr>e_htmLogPending := val\<rparr>))) s"

definition isHtmLogPending :: "htm_params \<Rightarrow> cache_params \<Rightarrow> addr \<Rightarrow> 'r cache \<Rightarrow> bool res" where
  "isHtmLogPending c p address s =
     rbind (lookup c p address s) (\<lambda>entry.
       Inr (case entry of None \<Rightarrow> False | Some e \<Rightarrow> e_htmLogPending e))"

definition array_checkHtmLogPendingClear :: "'r cache \<Rightarrow> unit res" where
  "array_checkHtmLogPendingClear s =
     rfold (\<lambda>x u. case x of None \<Rightarrow> Inr u | Some e \<Rightarrow> asrt CacheMemory_cc 814 (\<not> e_htmLogPending e) (Inr u))
       (concat (m_cache s)) ()"

section \<open>Geometry\<close>

text \<open>The state of the cascade: \<open>ux\<close> is what is left of \<open>x\<close> after \<open>y\<close> bits.\<close>

definition log_state :: "nat \<Rightarrow> nat \<Rightarrow> nat \<times> nat \<Rightarrow> bool" where
  "log_state x k p \<longleftrightarrow> x div 2 ^ fst p = snd p \<and> 0 < snd p \<and> snd p < 2 ^ k"

lemma log_step_state:
  assumes "log_state x (2 * k) p"
  shows "log_state x k (log_step k p)"
proof -
  obtain y ux where p: "p = (y, ux)"
    by fastforce
  have ux: "x div 2 ^ y = ux" "0 < ux" "ux < 2 ^ (2 * k)"
    using assms p by (simp_all add: log_state_def)
  then have d: "ux div 2 ^ k < 2 ^ k"
    by (simp add: div_less_iff_less_mult flip: power_add mult_2)
  show ?thesis
  proof (cases "ux div 2 ^ k = 0")
    case True
    then show ?thesis
      using ux p by (simp add: log_state_def log_step_def div_eq_0_iff)
  next
    case False
    moreover have "x div 2 ^ (y + k) = ux div 2 ^ k"
      using ux(1) by (simp add: power_add div_mult2_eq)
    ultimately show ?thesis
      using d p by (simp add: log_state_def log_step_def)
  qed
qed

lemma floorLog2_bounds:
  assumes "0 < x" and "x < 2 ^ 32"
  shows "2 ^ floorLog2 x \<le> x \<and> x < 2 ^ (floorLog2 x + 1)"
proof -
  have "log_state x 32 (0, x)"
    using assms by (simp add: log_state_def)
  from log_step_state [of x 2] log_step_state [of x 4] log_step_state [of x 8] log_step_state [of x 16] this
  have "log_state x 2 (log_step 2 (log_step 4 (log_step 8 (log_step 16 (0, x)))))"
    by simp
  then obtain y ux where p: "log_step 2 (log_step 4 (log_step 8 (log_step 16 (0, x)))) = (y, ux)"
      and ux: "x div 2 ^ y = ux" "0 < ux" "ux < 4"
    by (cases "log_step 2 (log_step 4 (log_step 8 (log_step 16 (0, x))))") (auto simp: log_state_def)
  obtain r where "x = ux * 2 ^ y + r" "r < 2 ^ y"
    using ux(1) by (metis div_mult_mod_eq mod_less_divisor zero_less_numeral zero_less_power)
  moreover have "ux \<in> {1, 2, 3}"
    using ux(2,3) by auto
  ultimately show ?thesis
    using p by (auto simp: floorLog2_def)
qed

definition params_ok :: "cache_params \<Rightarrow> bool" where
  "params_ok p \<longleftrightarrow> 0 < m_cache_assoc p \<and> 0 < m_cache_num_set_bits p \<and> m_cache_num_set_bits p < 32
     \<and> 2 ^ m_cache_num_set_bits p \<le> m_cache_num_sets p \<and> m_start_index_bit p < 64"

lemma geometry_ok:
  assumes "cache_geometry c sz bs p = Inr q" and "sz < 2 ^ 32" and "m_start_index_bit p < 64"
  shows "params_ok q"
proof -
  let ?n = "(sz div m_cache_assoc p) div (if bs = 0 then getBlockSizeBytes (block_size_bits c) else bs)"
  have q: "q = p\<lparr>m_cache_num_sets := ?n, m_cache_num_set_bits := floorLog2 ?n\<rparr>" "1 < ?n" "0 < floorLog2 ?n" "0 < m_cache_assoc p"
    using assms(1) by (auto simp: cache_geometry_def Let_def asrt_eq_Inr split: if_splits)
  have "?n \<le> sz"
    by (meson div_le_dividend order_trans)
  then have n: "?n < 2 ^ 32"
    using assms(2) by linarith
  have "floorLog2 ?n < 32"
  proof (rule ccontr)
    assume "\<not> floorLog2 ?n < 32"
    then have "(2 :: nat) ^ 32 \<le> 2 ^ floorLog2 ?n"
      by (intro power_increasing) auto
    then show False
      using floorLog2_bounds [of ?n] q(2) n by linarith
  qed
  then show ?thesis
    using q floorLog2_bounds [of ?n] n assms(3) by (simp add: params_ok_def)
qed

definition set_of :: "cache_params \<Rightarrow> addr \<Rightarrow> nat" where
  "set_of p a = unat (drop_bit (m_start_index_bit p) a AND mask (m_cache_num_set_bits p))"

lemma set_of_bound:
  assumes "params_ok p"
  shows "set_of p a < m_cache_num_sets p"
proof -
  let ?k = "m_cache_num_set_bits p"
  have "drop_bit (m_start_index_bit p) a AND mask ?k = take_bit ?k (drop_bit (m_start_index_bit p) a)"
    by (simp add: take_bit_eq_mask)
  then have "set_of p a = take_bit ?k (unat (drop_bit (m_start_index_bit p) a))"
    by (simp add: set_of_def unsigned_take_bit_eq)
  then have "set_of p a < 2 ^ ?k"
    by (simp add: take_bit_eq_mod)
  then show ?thesis
    using assms by (auto simp: params_ok_def)
qed

lemma addressToCacheSet_eq:
  assumes "params_ok p" and "a = line c a"
  shows "addressToCacheSet c p a = Inr (set_of p a)"
proof -
  have "(m_start_index_bit p + m_cache_num_set_bits p - 1 - m_start_index_bit p + 1) mod 2 ^ 32 = m_cache_num_set_bits p"
    using assms(1) by (simp add: params_ok_def)
  moreover have "m_start_index_bit p \<le> m_start_index_bit p + m_cache_num_set_bits p - 1"
    using assms(1) unfolding params_ok_def by linarith
  ultimately show ?thesis
    using assms by (simp add: addressToCacheSet_def bitSelect_def bits_def params_ok_def set_of_def mask64_mask Let_def)
qed

section \<open>The invariant\<close>

abbreviation at :: "'r cache \<Rightarrow> nat \<Rightarrow> nat \<Rightarrow> cache_entry option" where
  "at s i w \<equiv> m_cache s ! i ! w"

text \<open>
  Every entry stands in the set of its address and knows its place, and the tag index names exactly
  the entries. No entry is \<^verbatim>\<open>NotPresent\<close>: \<open>allocate\<close> overwrites such an entry without taking its tag
  out of the index, which the source calls a bug of the protocol.
\<close>

definition entry_ok :: "htm_params \<Rightarrow> cache_params \<Rightarrow> 'r cache \<Rightarrow> nat \<Rightarrow> nat \<Rightarrow> cache_entry \<Rightarrow> bool" where
  "entry_ok c p s i w e \<longleftrightarrow> m_Address e = line c (m_Address e) \<and> set_of p (m_Address e) = i \<and> e_set e = i \<and> e_way e = w
     \<and> e_Permission e \<noteq> NotPresent \<and> smap_find (m_tag_index s) (m_Address e) = Some w"

definition shape_ok :: "cache_params \<Rightarrow> 'r cache \<Rightarrow> bool" where
  "shape_ok p s \<longleftrightarrow> length (m_cache s) = m_cache_num_sets p \<and> (\<forall>i < m_cache_num_sets p. length (m_cache s ! i) = m_cache_assoc p)
     \<and> length (replacement_data s) = m_cache_num_sets p"

definition cache_inv :: "htm_params \<Rightarrow> cache_params \<Rightarrow> 'r cache \<Rightarrow> bool" where
  "cache_inv c p s \<longleftrightarrow> params_ok p \<and> shape_ok p s
     \<and> (\<forall>i < m_cache_num_sets p. \<forall>w < m_cache_assoc p. \<forall>e. at s i w = Some e \<longrightarrow> entry_ok c p s i w e)
     \<and> (\<forall>a w. smap_find (m_tag_index s) a = Some w \<longrightarrow> w < m_cache_assoc p \<and>
          (\<exists>e. at s (set_of p a) w = Some e \<and> m_Address e = a))"

text \<open>The entry of a line.\<close>

definition found :: "cache_params \<Rightarrow> 'r cache \<Rightarrow> addr \<Rightarrow> cache_entry option" where
  "found p s a = (case smap_find (m_tag_index s) a of None \<Rightarrow> None | Some w \<Rightarrow> at s (set_of p a) w)"

lemma init_inv: "params_ok p \<Longrightarrow> cache_inv c p (cache_init pol p)"
  by (auto simp: cache_inv_def shape_ok_def cache_init_def)

lemma found_entry:
  assumes "cache_inv c p s" and "found p s a = Some e"
  shows "m_Address e = a" "a = line c a" "e_set e = set_of p a" "e_way e < m_cache_assoc p" "e_Permission e \<noteq> NotPresent"
    "at s (set_of p a) (e_way e) = Some e" "smap_find (m_tag_index s) a = Some (e_way e)" "set_of p a < m_cache_num_sets p"
proof -
  from assms(2) obtain w where w: "smap_find (m_tag_index s) a = Some w" "at s (set_of p a) w = Some e"
    by (auto simp: found_def split: option.splits)
  have i: "set_of p a < m_cache_num_sets p"
    using assms(1) set_of_bound by (auto simp: cache_inv_def)
  have "w < m_cache_assoc p" "m_Address e = a"
    using assms(1) w by (fastforce simp: cache_inv_def)+
  moreover from this have "entry_ok c p s (set_of p a) w e"
    using assms(1) w i by (auto simp: cache_inv_def)
  ultimately show "m_Address e = a" "a = line c a" "e_set e = set_of p a" "e_way e < m_cache_assoc p"
    "e_Permission e \<noteq> NotPresent" "at s (set_of p a) (e_way e) = Some e"
    "smap_find (m_tag_index s) a = Some (e_way e)" "set_of p a < m_cache_num_sets p"
    using w i by (auto simp: entry_ok_def)
qed

lemma found_at:
  assumes "cache_inv c p s" and "i < m_cache_num_sets p" "w < m_cache_assoc p" and "at s i w = Some e"
  shows "found p s (m_Address e) = Some e" "set_of p (m_Address e) = i" "e_way e = w" "m_Address e = line c (m_Address e)"
  using assms by (auto simp: cache_inv_def entry_ok_def found_def)

lemma slot_in:
  "shape_ok p s \<Longrightarrow> i < m_cache_num_sets p \<Longrightarrow> w < m_cache_assoc p \<Longrightarrow> slot ln s i w = Inr (at s i w)"
  by (simp add: slot_def shape_ok_def)

lemma lookup_eq:
  assumes inv: "cache_inv c p s" and a: "a = line c a"
  shows "lookup c p a s = Inr (found p s a)"
proof -
  have p: "params_ok p" "shape_ok p s"
    using inv by (simp_all add: cache_inv_def)
  show ?thesis
  proof (cases "smap_find (m_tag_index s) a")
    case None
    then show ?thesis
      using a addressToCacheSet_eq [OF p(1) a] by (simp add: lookup_def findTagInSet_def found_def)
  next
    case (Some w)
    then obtain e where e: "w < m_cache_assoc p" "at s (set_of p a) w = Some e"
      using inv unfolding cache_inv_def by blast
    then have f: "found p s a = Some e"
      using Some by (simp add: found_def)
    have sl: "slot ln s (set_of p a) w = Inr (Some e)" for ln
      using slot_in [OF p(2) set_of_bound [OF p(1)] e(1)] e(2) by simp
    show ?thesis
      using a addressToCacheSet_eq [OF p(1) a] Some sl f found_entry(5) [OF inv f]
      by (simp add: lookup_def findTagInSet_def)
  qed
qed

lemma at_put:
  assumes "shape_ok p s" "i < m_cache_num_sets p" "w < m_cache_assoc p"
  shows "at (put_slot i w x s) j v = (if j = i \<and> v = w then x else at s j v)"
  using assms by (auto simp: put_slot_def shape_ok_def nth_list_update)

lemma shape_put [simp]: "shape_ok p s \<Longrightarrow> shape_ok p (put_slot i w x s)"
  by (cases "i < length (m_cache s)") (auto simp: put_slot_def shape_ok_def nth_list_update)

lemma shape_repl [simp]: "shape_ok p (set_repl i r s) = shape_ok p s"
  by (simp add: set_repl_def shape_ok_def)

lemma shape_tags [simp]: "shape_ok p (s\<lparr>m_tag_index := t\<rparr>) = shape_ok p s"
  by (simp add: shape_ok_def)

lemma put_sel [simp]:
  "m_tag_index (put_slot i w x s) = m_tag_index s" "replacement_data (put_slot i w x s) = replacement_data s"
  "m_cache (set_repl i r s) = m_cache s" "m_tag_index (set_repl i r s) = m_tag_index s"
  by (simp_all add: put_slot_def set_repl_def)

lemma inv_repl [simp]: "cache_inv c p (set_repl i r s) = cache_inv c p s" "found p (set_repl i r s) = found p s"
  by (simp_all add: cache_inv_def entry_ok_def found_def fun_eq_iff split: option.split)

text \<open>An entry may be changed in place as long as its address and position stay and it is present.\<close>

lemma put_found:
  assumes inv: "cache_inv c p s" and e: "found p s a = Some e"
    and e': "m_Address e' = a" "e_set e' = e_set e" "e_way e' = e_way e" "e_Permission e' \<noteq> NotPresent"
  shows "cache_inv c p (put_slot (e_set e) (e_way e) (Some e') s)"
    "found p (put_slot (e_set e) (e_way e) (Some e') s) = (found p s)(a := Some e')"
proof -
  note f = found_entry [OF inv e]
  have sh: "shape_ok p s"
    using inv by (simp add: cache_inv_def)
  let ?s = "put_slot (set_of p a) (e_way e) (Some e') s"
  have at: "at ?s j v = (if j = set_of p a \<and> v = e_way e then Some e' else at s j v)" for j v
    by (rule at_put [OF sh f(8) f(4)])
  have 1: "entry_ok c p ?s i w x" if "i < m_cache_num_sets p" "w < m_cache_assoc p" "at ?s i w = Some x" for i w x
  proof (cases "i = set_of p a \<and> w = e_way e")
    case True
    then show ?thesis
      using that(3) f e' by (simp add: at entry_ok_def)
  next
    case False
    then show ?thesis
      using that inv by (auto simp: at entry_ok_def cache_inv_def)
  qed
  have other: "\<not> (set_of p b = set_of p a \<and> w = e_way e)" if "smap_find (m_tag_index s) b = Some w" "b \<noteq> a" for b w
    using inv that f(1,6) unfolding cache_inv_def by (metis option.inject)
  have 2: "w < m_cache_assoc p \<and> (\<exists>x. at ?s (set_of p b) w = Some x \<and> m_Address x = b)"
    if "smap_find (m_tag_index s) b = Some w" for b w
  proof (cases "b = a")
    case True
    then have "w = e_way e"
      using that f(7) by simp
    then show ?thesis
      using True f(4) e'(1) at [of "set_of p a" "e_way e"] by simp
  next
    case False
    have "at ?s (set_of p b) w = at s (set_of p b) w"
      by (simp only: at other [OF that False] if_False)
    then show ?thesis
      using inv that unfolding cache_inv_def by simp
  qed
  have "cache_inv c p ?s"
    unfolding cache_inv_def put_sel using inv sh 1 2 by (simp add: cache_inv_def)
  moreover have "found p ?s = (found p s)(a := Some e')"
  proof
    fix b
    show "found p ?s b = ((found p s)(a := Some e')) b"
      using f(7) other [of b] by (cases "smap_find (m_tag_index s) b"; cases "b = a") (auto simp: found_def at)
  qed
  ultimately show "cache_inv c p (put_slot (e_set e) (e_way e) (Some e') s)"
    "found p (put_slot (e_set e) (e_way e) (Some e') s) = (found p s)(a := Some e')"
    unfolding f(3) by blast+
qed

lemma touch_found:
  assumes inv: "cache_inv c p s" and e: "found p s a = Some e"
    and ok: "\<And>r. \<exists>r'. rp_touch pol now (e_way e) r = Inr r'"
  shows "\<exists>s'. touch_entry pol now e s = Inr s' \<and> cache_inv c p s'
     \<and> found p s' = (found p s)(a := Some (e\<lparr>m_last_touch_tick := now\<rparr>))"
proof -
  note f = found_entry [OF inv e]
  have "e_set e < length (replacement_data s)"
    using inv f(3,8) by (simp add: cache_inv_def shape_ok_def)
  moreover obtain r' where "rp_touch pol now (e_way e) (replacement_data s ! e_set e) = Inr r'"
    using ok by blast
  ultimately have "touch_entry pol now e s =
      Inr (put_slot (e_set e) (e_way e) (Some (e\<lparr>m_last_touch_tick := now\<rparr>)) (set_repl (e_set e) r' s))"
    by (simp add: touch_entry_def)
  then show ?thesis
    using put_found [of c p "set_repl (e_set e) r' s" a e "e\<lparr>m_last_touch_tick := now\<rparr>"] inv e f by simp
qed

lemma deallocate_found:
  assumes inv: "cache_inv c p s" and e: "found p s a = Some e"
    and ok: "\<And>r. \<exists>r'. rp_invalidate pol (e_way e) r = Inr r'"
  shows "\<exists>s'. deallocate c p pol a s = Inr s' \<and> cache_inv c p s' \<and> found p s' = (found p s)(a := None)"
proof -
  note f = found_entry [OF inv e]
  have sh: "shape_ok p s"
    using inv by (simp add: cache_inv_def)
  have "set_of p a < length (replacement_data s)"
    using sh f(8) by (simp add: shape_ok_def)
  moreover obtain r' where "rp_invalidate pol (e_way e) (replacement_data s ! set_of p a) = Inr r'"
    using ok by blast
  ultimately have run: "deallocate c p pol a s = Inr ((put_slot (set_of p a) (e_way e) None (set_repl (set_of p a) r' s))
                      \<lparr>m_tag_index := smap_erase a (m_tag_index s)\<rparr>)" (is "_ = Inr ?s")
    using lookup_eq [OF inv f(2)] e slot_in [OF sh f(8) f(4), of 325] f(3) by (simp add: deallocate_def)
  have at: "at ?s j v = (if j = set_of p a \<and> v = e_way e then None else at s j v)" for j v
    using at_put [of p "set_repl (set_of p a) r' s" "set_of p a" "e_way e" None j v] sh f(4,8) by simp
  have other: "\<not> (set_of p b = set_of p a \<and> w = e_way e)" if "smap_find (m_tag_index s) b = Some w" "b \<noteq> a" for b w
    using inv that f(1,6) unfolding cache_inv_def by (metis option.inject)
  have "entry_ok c p ?s i w x" if "i < m_cache_num_sets p" "w < m_cache_assoc p" "at ?s i w = Some x" for i w x
  proof -
    have "at s i w = Some x" "\<not> (i = set_of p a \<and> w = e_way e)"
      using that(3) unfolding at by (metis option.distinct(1))+
    then have "entry_ok c p s i w x" "m_Address x \<noteq> a"
      using inv that(1,2) f(7) by (auto simp: cache_inv_def entry_ok_def)
    then show ?thesis
      by (simp add: entry_ok_def)
  qed
  moreover have "w < m_cache_assoc p \<and> (\<exists>x. at ?s (set_of p b) w = Some x \<and> m_Address x = b)"
    if "smap_find (m_tag_index ?s) b = Some w" for b w
  proof -
    have b: "smap_find (m_tag_index s) b = Some w" "b \<noteq> a"
      using that by (auto split: if_splits)
    then show ?thesis
      using inv other [OF b] unfolding cache_inv_def at by auto
  qed
  moreover have "shape_ok p ?s"
    using sh by simp
  ultimately have "cache_inv c p ?s"
    using inv unfolding cache_inv_def by blast
  moreover have "found p ?s = (found p s)(a := None)"
  proof
    fix b
    show "found p ?s b = ((found p s)(a := None)) b"
      using other [of b] by (cases "smap_find (m_tag_index s) b"; cases "b = a") (auto simp: found_def at [simplified])
  qed
  ultimately show ?thesis
    using run by blast
qed

lemma open_way_Some: "open_way row = Some i \<Longrightarrow> i < length row \<and> (\<forall>e. row ! i = Some e \<longrightarrow> e_Permission e = NotPresent)"
  by (induction row arbitrary: i rule: open_way.induct) (auto split: if_splits)

lemma open_way_None: "open_way row = None \<longleftrightarrow> (\<forall>x \<in> set row. \<exists>e. x = Some e \<and> e_Permission e \<noteq> NotPresent)"
  by (induction row rule: open_way.induct) auto

lemma avail_scan_eq: "avail_scan a row \<longleftrightarrow> (\<exists>x \<in> set row. \<forall>e. x = Some e \<longrightarrow> m_Address e = a \<or> e_Permission e = NotPresent)"
  by (induction a row rule: avail_scan.induct) auto

text \<open>A set is full when each of its ways holds an entry.\<close>

definition full :: "cache_params \<Rightarrow> 'r cache \<Rightarrow> nat \<Rightarrow> bool" where
  "full p s i \<longleftrightarrow> (\<forall>w < m_cache_assoc p. at s i w \<noteq> None)"

lemma set_row:
  assumes "cache_inv c p s" and "i < m_cache_num_sets p"
  shows "length (m_cache s ! i) = m_cache_assoc p" "take (m_cache_assoc p) (m_cache s ! i) = m_cache s ! i"
    "i < length (m_cache s)" "i < length (replacement_data s)"
    "\<And>x. x \<in> set (m_cache s ! i) \<longleftrightarrow> (\<exists>w < m_cache_assoc p. at s i w = x)"
  using assms by (auto simp: cache_inv_def shape_ok_def in_set_conv_nth)

lemma cacheAvail_eq:
  assumes inv: "cache_inv c p s" and a: "a = line c a"
  shows "cacheAvail c p a s = Inr (\<not> full p s (set_of p a) \<or> found p s a \<noteq> None)"
proof -
  let ?i = "set_of p a"
  have p: "params_ok p"
    using inv by (simp add: cache_inv_def)
  note r = set_row [OF inv set_of_bound [OF p, of a]]
  have "avail_scan a (m_cache s ! ?i) \<longleftrightarrow> \<not> full p s ?i \<or> found p s a \<noteq> None"
  proof
    assume "avail_scan a (m_cache s ! ?i)"
    then obtain x where x: "x \<in> set (m_cache s ! ?i)" "\<forall>e. x = Some e \<longrightarrow> m_Address e = a \<or> e_Permission e = NotPresent"
      unfolding avail_scan_eq by blast
    then obtain w where w: "w < m_cache_assoc p" "\<forall>e. at s ?i w = Some e \<longrightarrow> m_Address e = a \<or> e_Permission e = NotPresent"
      using r(5) by metis
    show "\<not> full p s ?i \<or> found p s a \<noteq> None"
    proof (cases "at s ?i w")
      case (Some e)
      then have "entry_ok c p s ?i w e"
        using inv w(1) set_of_bound [OF p] by (simp add: cache_inv_def)
      then show ?thesis
        using w(2) Some by (auto simp: entry_ok_def found_def)
    qed (use w(1) in \<open>auto simp: full_def\<close>)
  next
    assume "\<not> full p s ?i \<or> found p s a \<noteq> None"
    then show "avail_scan a (m_cache s ! ?i)"
    proof
      assume "\<not> full p s ?i"
      then obtain w where "w < m_cache_assoc p" "at s ?i w = None"
        by (auto simp: full_def)
      then show ?thesis
        unfolding avail_scan_eq using r(5) by (metis option.distinct(1))
    next
      assume "found p s a \<noteq> None"
      then obtain e where "found p s a = Some e"
        by blast
      note f = found_entry [OF inv this]
      then show ?thesis
        unfolding avail_scan_eq using r(5) by (metis option.inject)
    qed
  qed
  then show ?thesis
    using a r addressToCacheSet_eq [OF p a] by (simp add: cacheAvail_def)
qed

definition allocated :: "nat \<Rightarrow> addr \<Rightarrow> nat \<Rightarrow> nat \<Rightarrow> cache_entry \<Rightarrow> cache_entry" where
  "allocated now a i w e = e\<lparr>m_Address := a, e_Permission := Perm_Invalid, m_locked := - 1, e_set := i, e_way := w,
     m_last_touch_tick := now\<rparr>"

lemma allocate_run:
  assumes inv: "cache_inv c p s" and a: "a = line c a" and nf: "found p s a = None" and room: "\<not> full p s (set_of p a)"
    and ok: "\<And>w r. \<exists>r'. rp_reset pol now w r = Inr r'"
  shows "\<exists>w r'. w < m_cache_assoc p \<and> at s (set_of p a) w = None \<and> allocate c p pol now a e s =
     Inr (set_repl (set_of p a) r' ((put_slot (set_of p a) w (Some (allocated now a (set_of p a) w e)) s)
            \<lparr>m_tag_index := smap_assign a w (m_tag_index s)\<rparr>))"
proof -
  let ?i = "set_of p a"
  have p: "params_ok p" and i: "?i < m_cache_num_sets p"
    using inv set_of_bound by (auto simp: cache_inv_def)
  note r = set_row [OF inv i]
  have present: "e_Permission x \<noteq> NotPresent" if "w < m_cache_assoc p" "at s ?i w = Some x" for w x
    using inv i that by (auto simp: cache_inv_def entry_ok_def)
  obtain v where "v < m_cache_assoc p" "at s ?i v = None"
    using room by (auto simp: full_def)
  then have "open_way (m_cache s ! ?i) \<noteq> None"
    unfolding open_way_None using r(5) by force
  then obtain w where ow: "open_way (m_cache s ! ?i) = Some w"
    by blast
  have w: "w < m_cache_assoc p" "at s ?i w = None"
    using open_way_Some [OF ow] present r(1) by (cases "at s ?i w"; auto)+
  obtain r' where r': "rp_reset pol now w (replacement_data s ! ?i) = Inr r'"
    using ok by blast
  have "isTagPresent c p a s = Inr False" "cacheAvail c p a s = Inr True"
    using lookup_eq [OF inv a] nf cacheAvail_eq [OF inv a] room by (simp_all add: isTagPresent_def)
  then have "allocate c p pol now a e s =
     Inr (set_repl ?i r' ((put_slot ?i w (Some (allocated now a ?i w e)) s)\<lparr>m_tag_index := smap_assign a w (m_tag_index s)\<rparr>))"
    using a r ow r' addressToCacheSet_eq [OF p a] by (simp add: allocate_def Let_def allocated_def)
  with w show ?thesis
    by blast
qed

lemma allocate_inv:
  assumes inv: "cache_inv c p s" and a: "a = line c a" and nf: "found p s a = None"
    and w: "w < m_cache_assoc p" "at s (set_of p a) w = None"
  shows "cache_inv c p ((put_slot (set_of p a) w (Some (allocated now a (set_of p a) w e)) s)
            \<lparr>m_tag_index := smap_assign a w (m_tag_index s)\<rparr>)"
    and "found p ((put_slot (set_of p a) w (Some (allocated now a (set_of p a) w e)) s)
            \<lparr>m_tag_index := smap_assign a w (m_tag_index s)\<rparr>) = (found p s)(a := Some (allocated now a (set_of p a) w e))"
proof -
  let ?s = "(put_slot (set_of p a) w (Some (allocated now a (set_of p a) w e)) s)
            \<lparr>m_tag_index := smap_assign a w (m_tag_index s)\<rparr>"
  let ?e = "allocated now a (set_of p a) w e"
  have sh: "shape_ok p s" and p: "params_ok p"
    using inv by (simp_all add: cache_inv_def)
  have i: "set_of p a < m_cache_num_sets p"
    using set_of_bound [OF p] .
  have at: "at ?s j v = (if j = set_of p a \<and> v = w then Some ?e else at s j v)" for j v
    using at_put [OF sh i w(1), of "Some ?e" j v] by simp
  have fresh: "smap_find (m_tag_index s) a = None"
    using inv nf unfolding cache_inv_def found_def by (metis option.case_eq_if option.collapse option.distinct(1))
  have 1: "entry_ok c p ?s j v x" if "j < m_cache_num_sets p" "v < m_cache_assoc p" "at ?s j v = Some x" for j v x
  proof (cases "j = set_of p a \<and> v = w")
    case True
    then have "x = ?e"
      using that(3) unfolding at by simp
    then show ?thesis
      using True a by (simp add: entry_ok_def allocated_def)
  next
    case False
    then have "entry_ok c p s j v x"
      using that inv unfolding at cache_inv_def by auto
    then show ?thesis
      using fresh by (auto simp: entry_ok_def)
  qed
  have 2: "v < m_cache_assoc p \<and> (\<exists>x. at ?s (set_of p b) v = Some x \<and> m_Address x = b)"
    if "smap_find (m_tag_index ?s) b = Some v" for b v
  proof (cases "b = a")
    case True
    then have "v = w"
      using that by simp
    then show ?thesis
      using True w(1) unfolding at by (simp add: allocated_def)
  next
    case False
    then have b: "smap_find (m_tag_index s) b = Some v"
      using that by simp
    then obtain x where "v < m_cache_assoc p" "at s (set_of p b) v = Some x" "m_Address x = b"
      using inv unfolding cache_inv_def by blast
    then show ?thesis
      using w(2) unfolding at by auto
  qed
  show "cache_inv c p ?s"
    unfolding cache_inv_def using p sh 1 2 by simp
  have "\<not> (set_of p b = set_of p a \<and> v = w)" if "smap_find (m_tag_index s) b = Some v" for b v
    using inv that w(2) unfolding cache_inv_def by (metis option.distinct(1))
  then show "found p ?s = (found p s)(a := Some ?e)"
    by (auto simp: found_def at [simplified] fun_eq_iff split: option.split)
qed

lemma map_entries_inv:
  assumes inv: "cache_inv c p s"
    and f: "\<And>e. m_Address (f e) = m_Address e \<and> e_set (f e) = e_set e \<and> e_way (f e) = e_way e
              \<and> (e_Permission e \<noteq> NotPresent \<longrightarrow> e_Permission (f e) \<noteq> NotPresent)"
  shows "cache_inv c p (map_entries f s)" "found p (map_entries f s) a = map_option f (found p s a)"
proof -
  have sh: "shape_ok p s" and p: "params_ok p"
    using inv by (simp_all add: cache_inv_def)
  have at: "at (map_entries f s) i w = map_option f (at s i w)" if "i < m_cache_num_sets p" "w < m_cache_assoc p" for i w
    using sh that by (simp add: map_entries_def shape_ok_def)
  have tags: "m_tag_index (map_entries f s) = m_tag_index s"
    by (simp add: map_entries_def)
  have "shape_ok p (map_entries f s)"
    using sh by (simp add: map_entries_def shape_ok_def)
  moreover have "entry_ok c p (map_entries f s) i w e"
    if "i < m_cache_num_sets p" "w < m_cache_assoc p" "at (map_entries f s) i w = Some e" for i w e
    using that at [OF that(1,2)] inv f by (auto simp: cache_inv_def entry_ok_def tags)
  moreover have "w < m_cache_assoc p \<and> (\<exists>e. at (map_entries f s) (set_of p b) w = Some e \<and> m_Address e = b)"
    if t: "smap_find (m_tag_index s) b = Some w" for b w
  proof -
    obtain e where "w < m_cache_assoc p" "at s (set_of p b) w = Some e" "m_Address e = b"
      using inv t unfolding cache_inv_def by blast
    then show ?thesis
      using at [OF set_of_bound [OF p]] f by simp
  qed
  ultimately show "cache_inv c p (map_entries f s)"
    using p unfolding cache_inv_def tags by blast
  show "found p (map_entries f s) a = map_option f (found p s a)"
  proof (cases "smap_find (m_tag_index s) a")
    case (Some w)
    then have "w < m_cache_assoc p"
      using inv unfolding cache_inv_def by blast
    then show ?thesis
      using Some at [OF set_of_bound [OF p]] by (simp add: found_def tags)
  qed (simp add: found_def tags)
qed

text \<open>The lines of a set, and how many there can be.\<close>

definition lines_in :: "cache_params \<Rightarrow> 'r cache \<Rightarrow> nat \<Rightarrow> addr set" where
  "lines_in p s i = {a. found p s a \<noteq> None \<and> set_of p a = i}"

lemma lines_in_ways:
  assumes inv: "cache_inv c p s" and i: "i < m_cache_num_sets p"
  shows "bij_betw (\<lambda>w. m_Address (the (at s i w))) {w. w < m_cache_assoc p \<and> at s i w \<noteq> None} (lines_in p s i)"
proof (rule bij_betw_imageI)
  show "inj_on (\<lambda>w. m_Address (the (at s i w))) {w. w < m_cache_assoc p \<and> at s i w \<noteq> None}"
  proof (rule inj_onI)
    fix v w
    assume v: "v \<in> {w. w < m_cache_assoc p \<and> at s i w \<noteq> None}" and w: "w \<in> {w. w < m_cache_assoc p \<and> at s i w \<noteq> None}"
      and eq: "m_Address (the (at s i v)) = m_Address (the (at s i w))"
    from v w obtain d e where "at s i v = Some d" "at s i w = Some e"
      by blast
    moreover from this have "entry_ok c p s i v d" "entry_ok c p s i w e"
      using inv i v w by (auto simp: cache_inv_def)
    ultimately show "v = w"
      using eq by (simp add: entry_ok_def)
  qed
  show "(\<lambda>w. m_Address (the (at s i w))) ` {w. w < m_cache_assoc p \<and> at s i w \<noteq> None} = lines_in p s i"
  proof (intro set_eqI iffI)
    fix a
    assume "a \<in> (\<lambda>w. m_Address (the (at s i w))) ` {w. w < m_cache_assoc p \<and> at s i w \<noteq> None}"
    then obtain w e where "w < m_cache_assoc p" "at s i w = Some e" "a = m_Address e"
      by auto
    then show "a \<in> lines_in p s i"
      using found_at [OF inv i] by (auto simp: lines_in_def)
  next
    fix a
    assume "a \<in> lines_in p s i"
    then obtain e where e: "found p s a = Some e" "set_of p a = i"
      by (auto simp: lines_in_def)
    note f = found_entry [OF inv e(1)]
    have "e_way e \<in> {w. w < m_cache_assoc p \<and> at s i w \<noteq> None}" "m_Address (the (at s i (e_way e))) = a"
      using f e(2) by auto
    then show "a \<in> (\<lambda>w. m_Address (the (at s i w))) ` {w. w < m_cache_assoc p \<and> at s i w \<noteq> None}"
      by blast
  qed
qed

lemma lines_in_card:
  assumes "cache_inv c p s" and "i < m_cache_num_sets p"
  shows "finite (lines_in p s i)" "card (lines_in p s i) \<le> m_cache_assoc p" "full p s i \<longleftrightarrow> card (lines_in p s i) = m_cache_assoc p"
proof -
  let ?W = "{w. w < m_cache_assoc p \<and> at s i w \<noteq> None}"
  note b = lines_in_ways [OF assms]
  have W: "?W \<subseteq> {..<m_cache_assoc p}"
    by auto
  then have fin: "finite ?W"
    by (rule finite_subset) simp
  have card: "card (lines_in p s i) = card ?W"
    using bij_betw_same_card [OF b] by simp
  show "finite (lines_in p s i)"
    using b fin bij_betw_finite by blast
  show "card (lines_in p s i) \<le> m_cache_assoc p"
    using card card_mono [OF _ W] by simp
  have "full p s i \<longleftrightarrow> ?W = {..<m_cache_assoc p}"
    by (auto simp: full_def)
  then show "full p s i \<longleftrightarrow> card (lines_in p s i) = m_cache_assoc p"
    using card card_subset_eq [OF _ W] by (metis card_lessThan finite_lessThan)
qed

section \<open>Runs of the cache\<close>

text \<open>
  What can happen to a cache: the operations above, and a change that the protocol makes to the entry
  it looked up (its permission, its data, its transactional bits). The protocol keeps the address and
  the position of the entry and does not make it \<^verbatim>\<open>NotPresent\<close>; so does the \<open>invalidateEntry\<close> of an abort.
\<close>

definition keeps_place :: "(cache_entry \<Rightarrow> cache_entry) \<Rightarrow> bool" where
  "keeps_place f \<longleftrightarrow> (\<forall>e. m_Address (f e) = m_Address e \<and> e_set (f e) = e_set e \<and> e_way (f e) = e_way e
     \<and> (e_Permission e \<noteq> NotPresent \<longrightarrow> e_Permission (f e) \<noteq> NotPresent))"

inductive cache_step :: "htm_params \<Rightarrow> cache_params \<Rightarrow> 'r policy \<Rightarrow> 'r cache \<Rightarrow> 'r cache \<Rightarrow> bool" for c p pol where
  Allocate: "allocate c p pol now a e s = Inr s' \<Longrightarrow> cache_step c p pol s s'"
| Deallocate: "deallocate c p pol a s = Inr s' \<Longrightarrow> cache_step c p pol s s'"
| Access: "array_tryCacheAccess c p pol now a type touch s = Inr (b, s') \<Longrightarrow> cache_step c p pol s s'"
| Test: "testCacheAccess c p pol now a s = Inr (t, b, s') \<Longrightarrow> cache_step c p pol s s'"
| Mru: "setMRU c p pol now a s = Inr s' \<Longrightarrow> cache_step c p pol s s'"
| Probe: "cacheProbe c p pol now mgr a s = Some (Inr (v, s')) \<Longrightarrow> cache_step c p pol s s'"
| Lock: "setLocked c p a n s = Inr s' \<Longrightarrow> cache_step c p pol s s'"
| Unlock: "clearLocked c p a s = Inr s' \<Longrightarrow> cache_step c p pol s s'"
| UnlockAll: "cache_step c p pol s (clearLockedAll n s)"
| Log: "setHtmLogPending c p a val s = Inr s' \<Longrightarrow> cache_step c p pol s s'"
| Commit: "cache_step c p pol s (snd (htmCommitTransaction s))"
| Abort: "keeps_place f \<Longrightarrow> cache_step c p pol s (snd (htmAbortTransaction f s))"
| Protocol: "found p s a = Some e \<Longrightarrow> keeps_place f \<Longrightarrow> cache_step c p pol s (put_slot (e_set e) (e_way e) (Some (f e)) s)"

lemma map_entries_keeps: "cache_inv c p s \<Longrightarrow> keeps_place f \<Longrightarrow> cache_inv c p (map_entries f s)"
  unfolding keeps_place_def by (intro map_entries_inv) blast+

lemma put_keeps:
  "cache_inv c p s \<Longrightarrow> found p s a = Some e \<Longrightarrow> keeps_place f \<Longrightarrow> cache_inv c p (put_slot (e_set e) (e_way e) (Some (f e)) s)"
  using found_entry [of c p s a e] unfolding keeps_place_def by (intro put_found(1) [where a = a]) metis+

lemma lookup_aligned: "lookup c p a s = Inr x \<Longrightarrow> a = line c a"
  by (simp add: lookup_def asrt_eq_Inr)

lemma update_found_inv:
  assumes inv: "cache_inv c p s" and run: "update_found c p ln a f s = Inr s'"
    and f: "\<And>e e'. f e = Inr e' \<Longrightarrow> \<exists>g. keeps_place g \<and> e' = g e"
  shows "cache_inv c p s'"
proof -
  from run obtain x where x: "lookup c p a s = Inr x"
    by (auto simp: update_found_def rbind_eq_Inr)
  then have "x = found p s a"
    using lookup_eq [OF inv lookup_aligned [OF x]] by simp
  then obtain e e' where "found p s a = Some e" "f e = Inr e'" "s' = put_slot (e_set e) (e_way e) (Some e') s"
    using run x by (auto simp: update_found_def rbind_eq_Inr split: option.splits)
  then show ?thesis
    using f [of e e'] put_keeps [OF inv] by blast
qed

lemma cacheProbe_state:
  assumes "cacheProbe c p pol now mgr a s = Some (Inr (v, s'))"
  shows "\<exists>i r. s' = set_repl i r s"
proof -
  obtain i cs where "probe_victim pol now i cs s = Inr (v, s')"
    using assms by (auto simp: cacheProbe_def rbind_eq_Inr split: sum.splits)
  then show ?thesis
    by (auto simp: probe_victim_def vread_def rbind_pair_eq_Inr rbind_eq_Inr split: if_splits option.splits)
qed

context victim_choice
begin

lemma allocate_found:
  assumes inv: "cache_inv c p s" and run: "allocate c p pol now a e s = Inr s'"
  shows "a = line c a" "found p s a = None" "\<not> full p s (set_of p a)" "cache_inv c p s'"
    "\<exists>w. found p s' = (found p s)(a := Some (allocated now a (set_of p a) w e))"
proof -
  show a: "a = line c a"
    using run by (simp add: allocate_def asrt_eq_Inr)
  show nf: "found p s a = None"
    using run lookup_eq [OF inv a] by (simp add: allocate_def asrt_eq_Inr rbind_eq_Inr isTagPresent_def)
  show room: "\<not> full p s (set_of p a)"
    using run cacheAvail_eq [OF inv a] nf unfolding allocate_def asrt_eq_Inr rbind_eq_Inr by auto
  obtain w r' where "w < m_cache_assoc p" "at s (set_of p a) w = None" "s' =
     set_repl (set_of p a) r' ((put_slot (set_of p a) w (Some (allocated now a (set_of p a) w e)) s)
            \<lparr>m_tag_index := smap_assign a w (m_tag_index s)\<rparr>)"
    using allocate_run [OF inv a nf room, of pol now e] resets run by auto
  then show "cache_inv c p s'" "\<exists>w. found p s' = (found p s)(a := Some (allocated now a (set_of p a) w e))"
    using allocate_inv [OF inv a nf, of w now e] by auto
qed

lemma allocate_succeeds:
  assumes inv: "cache_inv c p s" and a: "a = line c a" and "found p s a = None" "\<not> full p s (set_of p a)"
  shows "\<exists>s'. allocate c p pol now a e s = Inr s'"
  using allocate_run [OF assms, of pol now e] resets by blast

lemma access_found:
  assumes inv: "cache_inv c p s" and run: "array_tryCacheAccess c p pol now a type touch s = Inr (b, s')"
  shows "cache_inv c p s'"
proof -
  have a: "a = line c a"
    using run lookup_aligned by (auto simp: array_tryCacheAccess_def rbind_eq_Inr)
  show ?thesis
  proof (cases "found p s a")
    case None
    then show ?thesis
      using run inv lookup_eq [OF inv a] by (simp add: array_tryCacheAccess_def)
  next
    case (Some e)
    obtain s1 where "touch_entry pol now e s = Inr s1" "cache_inv c p s1"
      using touch_found [OF inv Some] touches by blast
    then show ?thesis
      using run inv lookup_eq [OF inv a] Some by (auto simp: array_tryCacheAccess_def split: if_splits)
  qed
qed

lemma touch_inv:
  assumes inv: "cache_inv c p s" and "lookup c p a s = Inr (Some e)" "touch_entry pol now e s = Inr s'"
  shows "cache_inv c p s'"
  using touch_found [OF inv, of a e pol now] touches assms(2,3) lookup_eq [OF inv lookup_aligned [OF assms(2)]] by auto

lemma deallocate_inv:
  assumes inv: "cache_inv c p s" and run: "deallocate c p pol a s = Inr s'"
  shows "a = line c a" "found p s a \<noteq> None" "cache_inv c p s'" "found p s' = (found p s)(a := None)"
proof -
  show a: "a = line c a"
    using run lookup_aligned by (auto simp: deallocate_def rbind_eq_Inr)
  then obtain e where e: "found p s a = Some e"
    using run lookup_eq [OF inv a] by (cases "found p s a") (auto simp: deallocate_def)
  then show "found p s a \<noteq> None"
    by simp
  show "cache_inv c p s'" "found p s' = (found p s)(a := None)"
    using deallocate_found [OF inv e, of pol] invalidates run by auto
qed

lemma cache_step_inv:
  assumes "cache_step c p pol s s'" and inv: "cache_inv c p s"
  shows "cache_inv c p s'"
  using assms(1)
proof cases
  case (Allocate now a e)
  then show ?thesis
    by (rule allocate_found(4) [OF inv])
next
  case (Deallocate a)
  then show ?thesis
    by (rule deallocate_inv(3) [OF inv])
next
  case (Access now a type touch b)
  then show ?thesis
    by (rule access_found [OF inv])
next
  case (Test now a t b)
  then show ?thesis
    using inv touch_inv [OF inv] by (auto simp: testCacheAccess_def rbind_eq_Inr split: option.splits)
next
  case (Mru now a)
  then show ?thesis
    using inv touch_inv [OF inv] by (auto simp: setMRU_def rbind_eq_Inr split: option.splits)
next
  case (Probe now mgr a v)
  then show ?thesis
    using inv cacheProbe_state by fastforce
next
  case (Lock a n)
  have "keeps_place (entry_setLocked n)"
    by (simp add: keeps_place_def entry_setLocked_def)
  then show ?thesis
    using update_found_inv [OF inv Lock [unfolded setLocked_def]] by blast
next
  case (Unlock a)
  have "keeps_place entry_clearLocked"
    by (simp add: keeps_place_def entry_clearLocked_def)
  then show ?thesis
    using update_found_inv [OF inv Unlock [unfolded clearLocked_def]] by blast
next
  case (Log a val)
  have k: "keeps_place (e_htmLogPending_update (\<lambda>_. val))"
    by (simp add: keeps_place_def)
  show ?thesis
    by (rule update_found_inv [OF inv Log [unfolded setHtmLogPending_def]])
      (use k in \<open>unfold asrt_eq_Inr, blast\<close>)
next
  case (UnlockAll n)
  then show ?thesis
    using inv by (auto simp: clearLockedAll_def keeps_place_def entry_clearLocked_def intro!: map_entries_keeps)
next
  case Commit
  then show ?thesis
    using inv by (auto simp: htmCommitTransaction_def keeps_place_def entry_clearLocked_def intro!: map_entries_keeps)
next
  case (Abort f)
  then show ?thesis
    using inv by (auto simp: htmAbortTransaction_def keeps_place_def entry_clearLocked_def Let_def intro!: map_entries_keeps)
next
  case (Protocol a e f)
  then show ?thesis
    using put_keeps [OF inv] by blast
qed

end

sublocale victim_choice \<subseteq>
  runs: invariant_system "\<lambda>s. params_ok p \<and> s = cache_init pol p" "cache_step c p pol" "cache_inv c p" for c p
  by unfold_locales (auto intro: init_inv cache_step_inv)

context victim_choice
begin

lemma runs_inv: "params_ok p \<Longrightarrow> (cache_step c p pol)\<^sup>*\<^sup>* (cache_init pol p) s \<Longrightarrow> cache_inv c p s"
  by (blast intro: runs.reachable_inv)

end

section \<open>Properties\<close>

text \<open>
  C17. The capacity of the cache. A cache whose geometry \<open>init\<close> accepts never holds more lines in a set
  than it has ways, whatever is done to it and with every replacement policy that keeps the contract;
  every address has a set of the array; and a line that is not in the cache can be allocated exactly
  when its address is aligned and its set holds fewer lines than it has ways.
\<close>

theorem cache_capacity:
  assumes pol: "victim_choice pol"
    and geometry: "cache_geometry c cache_size block_size q = Inr p" "cache_size < 2 ^ 32" "m_start_index_bit q < 64"
    and run: "(cache_step c p pol)\<^sup>*\<^sup>* (cache_init pol p) s"
  shows "card (lines_in p s i) \<le> m_cache_assoc p
     \<and> set_of p a < m_cache_num_sets p
     \<and> (found p s a = None \<longrightarrow>
          ((\<exists>s'. allocate c p pol now a e s = Inr s') \<longleftrightarrow> a = line c a \<and> card (lines_in p s (set_of p a)) < m_cache_assoc p))"
proof (intro conjI impI)
  have p: "params_ok p"
    using geometry_ok [OF geometry] .
  then have inv: "cache_inv c p s"
    using victim_choice.runs_inv [OF pol] run by blast
  show "set_of p a < m_cache_num_sets p"
    using set_of_bound [OF p] .
  show "card (lines_in p s i) \<le> m_cache_assoc p"
  proof (cases "i < m_cache_num_sets p")
    case False
    then have "lines_in p s i = {}"
      using set_of_bound [OF p] by (auto simp: lines_in_def)
    then show ?thesis
      by simp
  qed (rule lines_in_card(2) [OF inv])
  have "\<not> full p s (set_of p a) \<longleftrightarrow> card (lines_in p s (set_of p a)) < m_cache_assoc p"
    using lines_in_card(2,3) [OF inv set_of_bound [OF p], of a] by auto
  moreover assume "found p s a = None"
  ultimately show "(\<exists>s'. allocate c p pol now a e s = Inr s') \<longleftrightarrow> a = line c a \<and> card (lines_in p s (set_of p a)) < m_cache_assoc p"
    using victim_choice.allocate_found(1,3) [OF pol inv] victim_choice.allocate_succeeds [OF pol inv] by blast
qed

text \<open>Four kilobytes in two ways, one line allocated.\<close>

definition small_params :: cache_params where
  "small_params = \<lparr>m_cache_assoc = 2, m_cache_num_sets = 32, m_cache_num_set_bits = 5, m_start_index_bit = 6,
     m_is_instruction_only_cache = False, m_htm_aware_replacements = True, m_htm_allowed_read_set_evictions = False,
     m_use_occupancy = False\<rparr>"

lemma small_geometry: "cache_geometry el_params 4096 64 (small_params\<lparr>m_cache_num_sets := 0, m_cache_num_set_bits := 0\<rparr>) = Inr small_params"
  by (simp add: cache_geometry_def small_params_def floorLog2_def log_step_def)

lemma small_params_sel [simp]: "m_cache_assoc small_params = 2" "m_start_index_bit small_params = 6"
  by (simp_all add: small_params_def)

lemma example_aligned [simp]: "makeLineAddress 6 0x1200 = 0x1200"
  by (simp add: makeLineAddress_def maskLowOrderBits_def mask64_def mbits_def)

theorem cache_capacity_witness:
  "\<exists>s. allocate el_params small_params LRU 7 0x1200 (entry_init (replicate 64 0) 0 0 0) (cache_init LRU small_params) = Inr s
     \<and> card (lines_in small_params s 8) \<le> 2"
proof -
  let ?p = small_params and ?s0 = "cache_init LRU small_params" and ?e = "entry_init (replicate 64 0) 0 0 0"
  note cap = cache_capacity [OF lru.victim_choice_axioms small_geometry, simplified]
  have "lines_in ?p ?s0 i = {}" "found ?p ?s0 b = None" for i b
    by (simp_all add: lines_in_def found_def cache_init_def)
  then obtain s where s: "allocate el_params ?p LRU 7 0x1200 ?e ?s0 = Inr s"
    using cap [where s = ?s0 and a = "0x1200" and now = 7 and e = ?e] by auto
  then have "(cache_step el_params ?p LRU)\<^sup>*\<^sup>* ?s0 s"
    by (blast intro: cache_step.Allocate)
  then show ?thesis
    using s cap [where s = s and i = 8] by blast
qed

end
