(* ===== verification/Cache_Probe.thy ===== *)
theory Cache_Probe
  imports Cache_Array
begin

text \<open>
  The two clients of the cache array: the transactional memory managers, which see it as a map from
  line addresses to lines, and the controllers, which ask \<^verbatim>\<open>cacheProbe\<close> for a victim when a set is full.
\<close>

section \<open>The array as a map\<close>

definition line_of :: "cache_entry \<Rightarrow> cache_line" where
  "line_of e = \<lparr>m_Permission = e_Permission e, m_DataBlk = e_DataBlk e, m_htmLogPending = e_htmLogPending e\<rparr>"

definition represents :: "cache_params \<Rightarrow> 'r cache \<Rightarrow> (addr, cache_line) smap \<Rightarrow> bool" where
  "represents p s m \<longleftrightarrow> smap_ok m \<and> (\<forall>a. smap_find m a = map_option line_of (found p s a))"

lemma line_of_sel [simp]:
  "m_Permission (line_of e) = e_Permission e" "m_DataBlk (line_of e) = e_DataBlk e"
  "m_htmLogPending (line_of e) = e_htmLogPending e" "line_of (e\<lparr>m_last_touch_tick := n\<rparr>) = line_of e"
  by (simp_all add: line_of_def)

lemma cache_lookup_eq:
  assumes "cache_inv c p s" and "represents p s m" and "a = line c a"
  shows "cache_lookup c a m = Inr (map_option line_of (found p s a))"
  using assms found_entry(5) [OF assms(1), of a]
  by (cases "found p s a") (auto simp: cache_lookup_def represents_def)

lemma lookup_misaligned: "a \<noteq> line c a \<Longrightarrow> lookup c p a s = Inl (AssertFail CacheMemory_cc 373)"
  by (simp add: lookup_def asrt_def)

lemma rfold_check: "rfold (\<lambda>x u. if P x then Inr u else Inl f) xs u = (if \<forall>x \<in> set xs. P x then Inr u else Inl f)"
  by (induction xs) auto

lemma represents_entries:
  assumes inv: "cache_inv c p s" and "represents p s m"
  shows "(\<forall>x \<in> set m. P (snd x)) \<longleftrightarrow> (\<forall>x \<in> set (concat (m_cache s)). \<forall>e. x = Some e \<longrightarrow> P (line_of e))"
proof
  have m: "smap_ok m" "\<And>a. smap_find m a = map_option line_of (found p s a)"
    using assms(2) by (simp_all add: represents_def)
  have find: "(a, l) \<in> set m \<longleftrightarrow> smap_find m a = Some l" for a l
    using m(1) by (simp add: smap_ok_def smap_find_def)
  show "\<forall>x \<in> set (concat (m_cache s)). \<forall>e. x = Some e \<longrightarrow> P (line_of e)" if all: "\<forall>x \<in> set m. P (snd x)"
  proof (intro ballI allI impI)
    fix x e
    assume "x \<in> set (concat (m_cache s))" "x = Some e"
    then obtain i w where "i < m_cache_num_sets p" "w < m_cache_assoc p" "at s i w = Some e"
      using inv by (auto simp: cache_inv_def shape_ok_def in_set_conv_nth)
    then have "found p s (m_Address e) = Some e"
      by (rule found_at(1) [OF inv])
    then have "(m_Address e, line_of e) \<in> set m"
      using find m(2) by simp
    then show "P (line_of e)"
      using all by fastforce
  qed
  show "\<forall>x \<in> set m. P (snd x)" if all: "\<forall>x \<in> set (concat (m_cache s)). \<forall>e. x = Some e \<longrightarrow> P (line_of e)"
  proof
    fix x
    assume "x \<in> set m"
    then have "smap_find m (fst x) = Some (snd x)"
      using find by (metis prod.collapse)
    then obtain e where e: "found p s (fst x) = Some e" "snd x = line_of e"
      using m(2) by auto
    note f = found_entry [OF inv e(1)]
    have "Some e \<in> set (m_cache s ! set_of p (fst x))" "m_cache s ! set_of p (fst x) \<in> set (m_cache s)"
      using set_row [OF inv f(8)] f(4,6) by (metis nth_mem)+
    then show "P (snd x)"
      using all e(2) by auto
  qed
qed

section \<open>The loop that collects candidates\<close>

text \<open>An entry that no pass may offer: the log entry of its line is still pending.\<close>

definition pinned :: "htm_params \<Rightarrow> xact option \<Rightarrow> cache_entry \<Rightarrow> bool" where
  "pinned c mgr e \<longleftrightarrow> mgr \<noteq> None \<and> \<not> lazy_vm c \<and> e_htmLogPending e"

lemma probe_pass_filter:
  assumes "probe_pass c p mgr xact (map Some es) = Inr cs"
  shows "cs = filter (\<lambda>e. probe_skips c p mgr xact e = Inr False) es
    \<and> (\<forall>e \<in> set es. \<exists>b. probe_skips c p mgr xact e = Inr b)"
  using assms
proof (induction es arbitrary: cs)
  case (Cons e es)
  from Cons.prems obtain b ds where b: "probe_skips c p mgr xact e = Inr b" and ds: "probe_pass c p mgr xact (map Some es) = Inr ds"
      and cs: "cs = (if b then ds else e # ds)"
    by (auto simp: rbind_eq_Inr)
  then show ?case
    using Cons.IH [OF ds] by simp
qed simp

lemma probe_pass_None: "probe_pass c p mgr None (map Some es) = Inr (filter (\<lambda>e. \<not> pinned c mgr e) es)"
  by (induction es) (auto simp: probe_skips_def pinned_def)

lemma probe_pass_pinned: "\<forall>e \<in> set es. pinned c mgr e \<Longrightarrow> probe_pass c p mgr xact (map Some es) = Inr []"
  by (induction es) (auto simp: probe_skips_def pinned_def)

lemma probe_loop_productive: "probe_loop c p mgr row xact = Some r \<Longrightarrow> \<exists>x. probe_pass c p mgr x row \<noteq> Inr []"
  by (rule probe_loop.raw_induct [where P = "\<lambda>c p mgr row xact r. \<exists>x. probe_pass c p mgr x row \<noteq> Inr []", rotated])
    (auto split: sum.splits if_splits, (metis sum.distinct(1) sum.inject(2))+)

lemma probe_loop_never: "\<forall>e \<in> set es. pinned c mgr e \<Longrightarrow> probe_loop c p mgr (map Some es) xact = None"
  using probe_loop_productive probe_pass_pinned by (metis option.exhaust)

lemma probe_loop_eq:
  "probe_loop c p mgr (map Some es) xact =
     (case probe_pass c p mgr xact (map Some es) of
        Inl f \<Rightarrow> Some (Inl f)
      | Inr cs \<Rightarrow>
          if cs \<noteq> [] then Some (Inr cs)
          else let ds = filter (\<lambda>e. \<not> pinned c mgr e) es in if ds = [] then None else Some (Inr ds))"
proof (cases "filter (\<lambda>e. \<not> pinned c mgr e) es = []")
  case True
  then have "\<forall>e \<in> set es. pinned c mgr e"
    by (simp add: filter_empty_conv)
  then show ?thesis
    using True probe_loop_never probe_pass_pinned by (simp add: probe_loop_never probe_pass_pinned)
next
  case False
  then have "probe_loop c p mgr (map Some es) None = Some (Inr (filter (\<lambda>e. \<not> pinned c mgr e) es))"
    by (subst probe_loop.simps) (simp add: probe_pass_None)
  then show ?thesis
    using False by (subst probe_loop.simps) (auto split: sum.split)
qed

text \<open>What a probe of a full set amounts to.\<close>

definition set_entries :: "cache_params \<Rightarrow> 'r cache \<Rightarrow> nat \<Rightarrow> cache_entry list" where
  "set_entries p s i = map (\<lambda>w. the (at s i w)) [0..<m_cache_assoc p]"

lemma full_row:
  assumes inv: "cache_inv c p s" and i: "i < m_cache_num_sets p" and full: "full p s i"
  shows "m_cache s ! i = map Some (set_entries p s i)"
  using full set_row(1) [OF inv i] by (auto simp: set_entries_def full_def intro!: nth_equalityI)

lemma set_entries_found:
  assumes inv: "cache_inv c p s" and i: "i < m_cache_num_sets p" and full: "full p s i"
  shows "e \<in> set (set_entries p s i) \<longleftrightarrow> found p s (m_Address e) = Some e \<and> set_of p (m_Address e) = i"
proof
  assume "e \<in> set (set_entries p s i)"
  then obtain w where "w < m_cache_assoc p" "at s i w = Some e"
    using full by (auto simp: set_entries_def full_def)
  then show "found p s (m_Address e) = Some e \<and> set_of p (m_Address e) = i"
    using found_at [OF inv i] by blast
next
  assume e: "found p s (m_Address e) = Some e \<and> set_of p (m_Address e) = i"
  then show "e \<in> set (set_entries p s i)"
    using found_entry [OF inv, of "m_Address e" e] by (force simp: set_entries_def image_iff)
qed

lemma cacheProbe_full:
  assumes inv: "cache_inv c p s" and a: "a = line c a" and nf: "found p s a = None" and full: "full p s (set_of p a)"
  shows "cacheProbe c p pol now mgr a s =
     map_option (\<lambda>r. rbind r (\<lambda>cs. probe_victim pol now (set_of p a) cs s))
       (probe_loop c p mgr (map Some (set_entries p s (set_of p a))) mgr)"
proof -
  have p: "params_ok p" and i: "set_of p a < m_cache_num_sets p"
    using inv set_of_bound by (auto simp: cache_inv_def)
  note r = set_row [OF inv i]
  show ?thesis
    using r(1-3) full_row [OF inv i full] cacheAvail_eq [OF inv a] full nf addressToCacheSet_eq [OF p a] a
    by (simp add: cacheProbe_def)
qed

lemma cacheProbe_guards:
  assumes inv: "cache_inv c p s" and run: "cacheProbe c p pol now mgr a s = Some (Inr x)"
  shows "a = line c a" "found p s a = None" "full p s (set_of p a)"
proof -
  show a: "a = line c a"
    using run by (auto simp: cacheProbe_def asrt_def split: if_splits)
  have "cacheAvail c p a s = Inr False"
    using run cacheAvail_eq [OF inv a] a by (auto simp: cacheProbe_def asrt_def split: if_splits)
  then show "found p s a = None" "full p s (set_of p a)"
    using cacheAvail_eq [OF inv a] by auto
qed

context victim_choice
begin

lemma probe_victim_offered:
  assumes inv: "cache_inv c p s" and i: "i < m_cache_num_sets p" and full: "full p s i"
    and cs: "cs \<noteq> []" "set cs \<subseteq> set (set_entries p s i)"
  shows "\<exists>e \<in> set cs. \<exists>r. probe_victim pol now i cs s = Inr (m_Address e, set_repl i r s)"
proof -
  obtain v r' where v: "rp_getVictim pol now (map e_way cs) (replacement_data s ! i) = Inr (v, r')" "v \<in> e_way ` set cs"
    using chooses [of "map e_way cs" now "replacement_data s ! i"] cs(1) by auto
  then obtain e where e: "e \<in> set cs" "v = e_way e"
    by blast
  then have "found p s (m_Address e) = Some e" "set_of p (m_Address e) = i"
    using cs(2) set_entries_found [OF inv i full] by auto
  then have "v < m_cache_assoc p" "at s i v = Some e"
    using found_entry(4,6) [OF inv] e(2) by blast+
  then have "slot 364 s i v = Inr (Some e)"
    using slot_in [OF _ i, of s v 364] inv by (simp add: cache_inv_def)
  then have "probe_victim pol now i cs s = Inr (m_Address e, set_repl i r' s)"
    using v(1) set_row(4) [OF inv i] by (simp add: probe_victim_def)
  with e(1) show ?thesis
    by blast
qed

lemma cacheProbe_victim:
  assumes inv: "cache_inv c p s" and run: "cacheProbe c p pol now mgr a s = Some (Inr (v, s'))"
  shows "\<exists>e r. found p s v = Some e \<and> set_of p v = set_of p a \<and> s' = set_repl (set_of p a) r s \<and> \<not> pinned c mgr e
     \<and> (probe_skips c p mgr mgr e = Inr False
        \<or> (\<forall>b d. found p s b = Some d \<longrightarrow> set_of p b = set_of p a \<longrightarrow> probe_skips c p mgr mgr d = Inr True))"
proof -
  note g = cacheProbe_guards [OF inv run]
  let ?i = "set_of p a" and ?es = "set_entries p s (set_of p a)"
  have i: "?i < m_cache_num_sets p"
    using inv set_of_bound by (auto simp: cache_inv_def)
  note mem = set_entries_found [OF inv i g(3)]
  have entry: "d \<in> set ?es" if "found p s b = Some d" "set_of p b = ?i" for b d
    using mem [of d] that found_entry(1) [OF inv that(1)] by simp
  obtain cs where loop: "probe_loop c p mgr (map Some ?es) mgr = Some (Inr cs)" and pv: "probe_victim pol now ?i cs s = Inr (v, s')"
    using run cacheProbe_full [OF inv g] by (auto simp: rbind_eq_Inr)
  from loop obtain ds where ds: "probe_pass c p mgr mgr (map Some ?es) = Inr ds"
      and cs: "cs \<noteq> []" "cs = ds \<or> ds = [] \<and> cs = filter (\<lambda>e. \<not> pinned c mgr e) ?es"
    by (auto simp: probe_loop_eq Let_def split: sum.splits if_splits)
  note pass = conjunct1 [OF probe_pass_filter [OF ds]] conjunct2 [OF probe_pass_filter [OF ds]]
  have sub: "set cs \<subseteq> set ?es"
    using cs(2) pass(1) by (metis filter_is_subset)
  obtain e r where e: "e \<in> set cs" "v = m_Address e" "s' = set_repl ?i r s"
    using probe_victim_offered [OF inv i g(3) cs(1) sub, of now] pv by auto
  have skip: "\<not> pinned c mgr d" if "probe_skips c p mgr mgr d = Inr False" for d
    using that by (auto simp: probe_skips_def pinned_def)
  have "\<not> pinned c mgr e"
  proof (cases "cs = ds")
    case False
    then show ?thesis
      using cs(2) e(1) by simp
  qed (use e(1) pass(1) skip in simp)
  moreover have "probe_skips c p mgr mgr d = Inr True"
    if "probe_skips c p mgr mgr e \<noteq> Inr False" and d: "found p s b = Some d" "set_of p b = ?i" for b d
  proof -
    have "ds = []"
      using that(1) cs(2) e(1) pass(1) by force
    then have "filter (\<lambda>e. probe_skips c p mgr mgr e = Inr False) ?es = []"
      using pass(1) by simp
    moreover obtain x where "probe_skips c p mgr mgr d = Inr x"
      using pass(2) entry [OF d] by blast
    ultimately show ?thesis
      using entry [OF d] unfolding filter_empty_conv by (cases x) auto
  qed
  moreover have "found p s v = Some e" "set_of p v = ?i"
    using mem [of e] sub e(1,2) by blast+
  ultimately show ?thesis
    using e(3) by blast
qed

end

section \<open>An example\<close>

text \<open>Two sets of two ways; two lines of the same set, the first of them used last.\<close>

definition tiny_params :: cache_params where
  "tiny_params = \<lparr>m_cache_assoc = 2, m_cache_num_sets = 2, m_cache_num_set_bits = 1, m_start_index_bit = 6,
     m_is_instruction_only_cache = False, m_htm_aware_replacements = True, m_htm_allowed_read_set_evictions = False,
     m_use_occupancy = False\<rparr>"

definition tiny_entry :: cache_entry where
  "tiny_entry = entry_init (replicate 64 0) 0 0 0"

definition tiny_cache :: "'r policy \<Rightarrow> 'r cache res" where
  "tiny_cache pol =
     rbind (allocate el_params tiny_params pol 1 0x1200 tiny_entry (cache_init pol tiny_params)) (\<lambda>s.
     rbind (allocate el_params tiny_params pol 2 0x1280 tiny_entry s) (\<lambda>s.
       setMRU el_params tiny_params pol 3 0x1200 s))"

definition tiny_rows :: "cache_entry option list list" where
  "tiny_rows = [[Some ((allocated 1 0x1200 0 0 tiny_entry)\<lparr>m_last_touch_tick := 3\<rparr>), Some (allocated 2 0x1280 0 1 tiny_entry)], [None, None]]"

lemmas cache_eval =
  tiny_params_def cache_init_def allocate_def isTagPresent_def lookup_def addressToCacheSet_def bitSelect_def bits_def
  findTagInSet_def cacheAvail_def setMRU_def touch_entry_def slot_def put_slot_def set_repl_def asrt_def vread_def
  makeLineAddress_def maskLowOrderBits_def mask64_def mbits_def allocated_def Let_def

lemma rbind_assoc: "rbind (rbind x f) g = rbind x (\<lambda>y. rbind (f y) g)"
  by (cases x) auto

lemma replicate_2: "replicate 2 x = [x, x]"
  by (simp add: numeral_2_eq_2)

lemma tiny_cache_eq:
  "tiny_cache pol =
     rbind (rp_reset pol 1 0 (rp_instantiate pol)) (\<lambda>r1.
     rbind (rp_reset pol 2 1 r1) (\<lambda>r2.
     rbind (rp_touch pol 3 0 r2) (\<lambda>r3.
       Inr \<lparr>m_cache = tiny_rows, m_tag_index = [(0x1200, 0), (0x1280, 1)], replacement_data = [r3, rp_instantiate pol]\<rparr>)))"
proof -
  have 1: "allocate el_params tiny_params pol 1 0x1200 tiny_entry (cache_init pol tiny_params) =
      rbind (rp_reset pol 1 0 (rp_instantiate pol)) (\<lambda>r. Inr
        \<lparr>m_cache = [[Some (allocated 1 0x1200 0 0 tiny_entry), None], [None, None]], m_tag_index = [(0x1200, 0)],
         replacement_data = [r, rp_instantiate pol]\<rparr>)"
    by (simp add: cache_eval replicate_2)
  have 2: "allocate el_params tiny_params pol 2 0x1280 tiny_entry
        \<lparr>m_cache = [[Some (allocated 1 0x1200 0 0 tiny_entry), None], [None, None]], m_tag_index = [(0x1200, 0)],
         replacement_data = [r, rp_instantiate pol]\<rparr> =
      rbind (rp_reset pol 2 1 r) (\<lambda>r. Inr
        \<lparr>m_cache = [[Some (allocated 1 0x1200 0 0 tiny_entry), Some (allocated 2 0x1280 0 1 tiny_entry)], [None, None]],
         m_tag_index = [(0x1200, 0), (0x1280, 1)], replacement_data = [r, rp_instantiate pol]\<rparr>)" for r
    by (simp add: cache_eval)
  have 3: "setMRU el_params tiny_params pol 3 0x1200
        \<lparr>m_cache = [[Some (allocated 1 0x1200 0 0 tiny_entry), Some (allocated 2 0x1280 0 1 tiny_entry)], [None, None]],
         m_tag_index = [(0x1200, 0), (0x1280, 1)], replacement_data = [r, rp_instantiate pol]\<rparr> =
      rbind (rp_touch pol 3 0 r) (\<lambda>r. Inr
        \<lparr>m_cache = tiny_rows, m_tag_index = [(0x1200, 0), (0x1280, 1)], replacement_data = [r, rp_instantiate pol]\<rparr>)" for r
    by (simp add: cache_eval tiny_rows_def)
  show ?thesis
    by (simp add: tiny_cache_def 1 [simplified] 2 [simplified] 3 [simplified] rbind_assoc)
qed

definition tiny_result :: "'r \<Rightarrow> 'r \<Rightarrow> 'r cache" where
  "tiny_result r r0 = \<lparr>m_cache = tiny_rows, m_tag_index = [(0x1200, 0), (0x1280, 1)], replacement_data = [r, r0]\<rparr>"

abbreviation tiny_lru_cache :: "lru_state cache" where
  "tiny_lru_cache \<equiv> tiny_result ((\<lambda>_. 0)(0 := 3, 1 := 2)) (\<lambda>_. 0)"

lemma tiny_lru: "tiny_cache LRU = Inr tiny_lru_cache"
  by (simp add: tiny_cache_eq tiny_result_def LRU_def lru_reset_def lru_touch_def fun_upd_twist)

lemma tiny_plru: "tiny_cache (TreePLRU 2) = Inr (tiny_result [True] [False])"
  by (simp add: tiny_cache_eq tiny_result_def TreePLRU_def plru_touch_def plru_leaf_def plru_update.simps parentIndex_def
      isRightSubtree_def)

lemma tiny_params_ok: "params_ok tiny_params"
  by (simp add: params_ok_def tiny_params_def)

lemma tiny_run: "tiny_cache pol = Inr s \<Longrightarrow> (cache_step el_params tiny_params pol)\<^sup>*\<^sup>* (cache_init pol tiny_params) s"
  unfolding tiny_cache_def rbind_eq_Inr
  by (meson cache_step.Allocate cache_step.Mru rtranclp.rtrancl_refl rtranclp.rtrancl_into_rtrancl)

lemma tiny_inv: "cache_inv el_params tiny_params tiny_lru_cache"
  using lru.runs_inv [OF tiny_params_ok tiny_run [OF tiny_lru]] .

text \<open>A transaction that wrote the line used first, and the probe for a third line of the set.\<close>

definition tiny_writer :: xact where
  "tiny_writer = (running_tx el_params)\<lparr>iso := iso_init\<lparr>m_writeSet := [(0x1280, RETIRED_STORE)]\<rparr>\<rparr>"

lemma tiny_writer_signatures:
  "checkWriteSignature el_params tiny_writer 0x1280 = Inr True" "checkWriteSignature el_params tiny_writer 0x1200 = Inr False"
  "checkReadSignature el_params tiny_writer 0x1200 = Inr False"
  by (simp_all add: checkWriteSignature_def checkReadSignature_def isInWriteSetPerfectFilter_def isInReadSetPerfectFilter_def
      tiny_writer_def iso_init_def asrt_def makeLineAddress_def maskLowOrderBits_def mask64_def mbits_def)

lemma tiny_entry_sel [simp]: "e_htmLogPending tiny_entry = False"
  by (simp add: tiny_entry_def entry_init_def)

lemma tiny_probe:
  "cacheProbe el_params tiny_params pol now None 0x1300 (tiny_result r r0) =
     Some (probe_victim pol now 0 [(allocated 1 0x1200 0 0 tiny_entry)\<lparr>m_last_touch_tick := 3\<rparr>, allocated 2 0x1280 0 1 tiny_entry] (tiny_result r r0))"
  "cacheProbe el_params tiny_params pol now (Some tiny_writer) 0x1300 (tiny_result r r0) =
     Some (probe_victim pol now 0 [(allocated 1 0x1200 0 0 tiny_entry)\<lparr>m_last_touch_tick := 3\<rparr>] (tiny_result r r0))"
  by (simp_all add: cacheProbe_def tiny_result_def tiny_rows_def cache_eval probe_loop.simps probe_skips_def tiny_writer_signatures)

lemma tiny_victim:
  "probe_victim LRU now 0 [(allocated 1 0x1200 0 0 tiny_entry)\<lparr>m_last_touch_tick := 3\<rparr>, allocated 2 0x1280 0 1 tiny_entry]
     tiny_lru_cache = Inr (0x1280, tiny_lru_cache)"
  "probe_victim LRU now 0 [(allocated 1 0x1200 0 0 tiny_entry)\<lparr>m_last_touch_tick := 3\<rparr>]
     tiny_lru_cache = Inr (0x1200, tiny_lru_cache)"
  by (simp_all add: probe_victim_def tiny_result_def tiny_rows_def LRU_def lru_getVictim_def allocated_def slot_def vread_def set_repl_def asrt_def)

section \<open>Properties\<close>

text \<open>
  C4. The array implements the map that the transactional memory managers use: a lookup returns the
  line of the map or fails the same assertion; an access returns the same data block and keeps the
  represented map; a deallocation fails exactly where the map's does and otherwise represents the map
  without the line; the check for pending log entries at a commit gives the same answer.
\<close>

theorem cache_refines_map:
  assumes pol: "victim_choice pol" and inv: "cache_inv c p s" and m: "represents p s m"
  shows "rbind (lookup c p a s) (\<lambda>x. Inr (map_option line_of x)) = cache_lookup c a m
     \<and> (case array_tryCacheAccess c p pol now a type touch s of
          Inl f \<Rightarrow> tryCacheAccess c a type m = Inl f
        | Inr (b, s') \<Rightarrow> tryCacheAccess c a type m = Inr b \<and> cache_inv c p s' \<and> represents p s' m)
     \<and> (case deallocate c p pol a s of
          Inl f \<Rightarrow> cache_deallocate c a m = Inl f
        | Inr s' \<Rightarrow> (\<exists>m'. cache_deallocate c a m = Inr m' \<and> cache_inv c p s' \<and> represents p s' m'))
     \<and> array_checkHtmLogPendingClear s = checkHtmLogPendingClear m"
proof -
  have clear: "array_checkHtmLogPendingClear s = checkHtmLogPendingClear m"
  proof -
    have arr: "array_checkHtmLogPendingClear s = (if \<forall>x \<in> set (concat (m_cache s)). \<forall>e. x = Some e \<longrightarrow> \<not> m_htmLogPending (line_of e)
        then Inr () else Inl (AssertFail CacheMemory_cc 814))"
      unfolding array_checkHtmLogPendingClear_def rfold_check [symmetric]
      by (rule arg_cong2 [where f = "\<lambda>f xs. rfold f xs ()"]) (auto simp: fun_eq_iff asrt_def split: option.split)
    have "checkHtmLogPendingClear m = (if \<forall>x \<in> set m. \<not> m_htmLogPending (snd x) then Inr () else Inl (AssertFail CacheMemory_cc 814))"
      unfolding checkHtmLogPendingClear_def rfold_check [symmetric] asrt_def ..
    then show ?thesis
      unfolding arr represents_entries [OF inv m, of "\<lambda>l. \<not> m_htmLogPending l"] by simp
  qed
  show ?thesis
  proof (cases "a = line c a")
    case False
    then show ?thesis
      using clear lookup_misaligned [OF False, of p s]
      by (simp add: array_tryCacheAccess_def deallocate_def tryCacheAccess_def cache_deallocate_def cache_lookup_def asrt_def)
  next
    case a: True
    note look = lookup_eq [OF inv a] cache_lookup_eq [OF inv m a]
    show ?thesis
    proof (cases "found p s a")
      case None
      then show ?thesis
        using clear look inv m
        by (simp add: array_tryCacheAccess_def deallocate_def tryCacheAccess_def cache_deallocate_def asrt_def)
    next
      case (Some e)
      obtain s1 where s1: "touch_entry pol now e s = Inr s1" "cache_inv c p s1"
          "found p s1 = (found p s)(a := Some (e\<lparr>m_last_touch_tick := now\<rparr>))"
        using touch_found [OF inv Some] victim_choice.touches [OF pol] by blast
      then have "represents p s1 m"
        using m Some by (auto simp: represents_def)
      moreover obtain s2 where s2: "deallocate c p pol a s = Inr s2" "cache_inv c p s2" "found p s2 = (found p s)(a := None)"
        using deallocate_found [OF inv Some] victim_choice.invalidates [OF pol] by blast
      moreover from s2(3) have "represents p s2 (smap_erase a m)"
        using m by (simp add: represents_def)
      ultimately show ?thesis
        using clear look Some inv m s1 s2(1,2)
        by (cases touch) (auto simp: array_tryCacheAccess_def tryCacheAccess_def cache_deallocate_def asrt_def)
    qed
  qed
qed

theorem cache_refines_map_witness:
  "\<exists>s. allocate el_params small_params LRU 7 0x1200 (entry_init (replicate 64 0) 0 0 0) (cache_init LRU small_params) = Inr s
     \<and> cache_lookup el_params 0x1200 [(0x1200, line_of (allocated 7 0x1200 8 0 (entry_init (replicate 64 0) 0 0 0)))]
       = rbind (lookup el_params small_params 0x1200 s) (\<lambda>x. Inr (map_option line_of x))"
proof -
  let ?p = small_params and ?s0 = "cache_init LRU small_params" and ?e = "entry_init (replicate 64 0) 0 0 0"
  have p: "params_ok ?p"
    by (simp add: params_ok_def small_params_def)
  have inv: "cache_inv el_params ?p ?s0"
    using init_inv [OF p] .
  have none: "found ?p ?s0 = (\<lambda>b. None)"
    by (simp add: fun_eq_iff found_def cache_init_def)
  have "\<not> full ?p ?s0 (set_of ?p 0x1200)"
    using set_of_bound [OF p, of "0x1200"] by (auto simp: full_def cache_init_def intro!: exI [of _ 0])
  then obtain s where s: "allocate el_params ?p LRU 7 0x1200 ?e ?s0 = Inr s"
    using lru.allocate_succeeds [OF inv, of "0x1200"] none by auto
  obtain w where "found ?p s = (\<lambda>b. None)(0x1200 := Some (allocated 7 0x1200 (set_of ?p 0x1200) w ?e))"
    using lru.allocate_found(5) [OF inv s] none by auto
  then have "represents ?p s [(0x1200, line_of (allocated 7 0x1200 8 0 ?e))]"
    by (auto simp: represents_def smap_ok_def smap_find_def line_of_def allocated_def)
  from cache_refines_map [OF lru.victim_choice_axioms lru.allocate_found(4) [OF inv s] this, of "0x1200"]
  show ?thesis
    using s by metis
qed

text \<open>
  C37. When the search for a victim ends. Asked for a victim of a full set, the loop of \<^verbatim>\<open>cacheProbe\<close>
  runs forever exactly when the cache belongs to a processor with eager versioning and every line of
  the set has a pending log entry; in every other case the probe returns or fails a check.
\<close>

theorem cacheProbe_terminates:
  assumes inv: "cache_inv c p s" and a: "a = line c a" and nf: "found p s a = None" and full: "full p s (set_of p a)"
  shows "cacheProbe c p pol now mgr a s = None \<longleftrightarrow>
     mgr \<noteq> None \<and> \<not> lazy_vm c \<and> (\<forall>b e. found p s b = Some e \<and> set_of p b = set_of p a \<longrightarrow> e_htmLogPending e)"
proof -
  let ?es = "set_entries p s (set_of p a)"
  have i: "set_of p a < m_cache_num_sets p"
    using inv set_of_bound by (auto simp: cache_inv_def)
  have mem: "e \<in> set ?es \<longleftrightarrow> (\<exists>b. found p s b = Some e \<and> set_of p b = set_of p a)" for e
    using set_entries_found [OF inv i full, of e] found_entry(1) [OF inv, of _ e] by blast
  have "0 < m_cache_assoc p"
    using inv by (simp add: cache_inv_def params_ok_def)
  then have ne: "?es \<noteq> []"
    by (simp add: set_entries_def)
  have "cacheProbe c p pol now mgr a s = None \<longleftrightarrow> probe_loop c p mgr (map Some ?es) mgr = None"
    using cacheProbe_full [OF inv a nf full] by simp
  also have "\<dots> \<longleftrightarrow> (\<forall>e \<in> set ?es. pinned c mgr e)"
    using probe_pass_pinned [of ?es c mgr p mgr] by (auto simp: probe_loop_eq Let_def filter_empty_conv split: sum.split)
  also have "\<dots> \<longleftrightarrow> mgr \<noteq> None \<and> \<not> lazy_vm c \<and> (\<forall>e \<in> set ?es. e_htmLogPending e)"
    using ne by (cases ?es) (auto simp: pinned_def)
  also have "(\<forall>e \<in> set ?es. e_htmLogPending e) \<longleftrightarrow>
      (\<forall>b e. found p s b = Some e \<and> set_of p b = set_of p a \<longrightarrow> e_htmLogPending e)"
    using mem by blast
  finally show ?thesis .
qed

lemma tiny_full:
  "found tiny_params tiny_lru_cache 0x1300 = None" "full tiny_params tiny_lru_cache (set_of tiny_params 0x1300)"
  "0x1300 = line el_params 0x1300"
  by (simp_all add: found_def tiny_result_def full_def set_of_def tiny_params_def tiny_rows_def less_2_cases_iff
      makeLineAddress_def maskLowOrderBits_def mask64_def mbits_def)

theorem cacheProbe_terminates_witness:
  "cacheProbe el_params tiny_params LRU 9 (Some tiny_writer) 0x1300 tiny_lru_cache \<noteq> None"
  using cacheProbe_terminates [OF tiny_inv tiny_full(3,1,2), of LRU 9 "Some tiny_writer"] by simp

text \<open>
  C36. The victim makes room. With every policy that keeps the contract, a victim that \<^verbatim>\<open>cacheProbe\<close>
  names for an address is a line of the cache in the set of that address; it can be deallocated, and
  then the address can be allocated, is found, and the other lines of the cache are untouched.
\<close>

theorem cacheProbe_makes_room:
  assumes pol: "victim_choice pol" and inv: "cache_inv c p s"
    and run: "cacheProbe c p pol now mgr a s = Some (Inr (v, s'))"
  shows "\<exists>s2 s3 e'. found p s v \<noteq> None \<and> set_of p v = set_of p a \<and> deallocate c p pol v s' = Inr s2
     \<and> allocate c p pol now' a e s2 = Inr s3 \<and> cache_inv c p s3
     \<and> lookup c p a s3 = Inr (Some e') \<and> e_DataBlk e' = e_DataBlk e
     \<and> (\<forall>b. b \<noteq> a \<and> b \<noteq> v \<longrightarrow> found p s3 b = found p s b) \<and> found p s3 v = None"
proof -
  note g = cacheProbe_guards [OF inv run]
  obtain d r where d: "found p s v = Some d" "set_of p v = set_of p a" "s' = set_repl (set_of p a) r s"
    using victim_choice.cacheProbe_victim [OF pol inv run] by blast
  have inv': "cache_inv c p s'" "found p s' = found p s"
    using inv d(3) by simp_all
  obtain s2 where s2: "deallocate c p pol v s' = Inr s2" "cache_inv c p s2" "found p s2 = (found p s)(v := None)"
    using deallocate_found [OF inv'(1), of v d pol] victim_choice.invalidates [OF pol] inv'(2) d(1) by auto
  have i: "set_of p a < m_cache_num_sets p"
    using inv set_of_bound by (auto simp: cache_inv_def)
  have nf: "found p s2 a = None"
    using s2(3) g(2) by simp
  have "lines_in p s2 (set_of p a) = lines_in p s (set_of p a) - {v}" "v \<in> lines_in p s (set_of p a)"
    using s2(3) d by (auto simp: lines_in_def)
  then have "\<not> full p s2 (set_of p a)"
    using lines_in_card [OF inv i] lines_in_card(3) [OF s2(2) i] by (metis card_Diff1_less g(3) less_irrefl)
  then obtain s3 where s3: "allocate c p pol now' a e s2 = Inr s3"
    using victim_choice.allocate_succeeds [OF pol s2(2) g(1) nf] by blast
  note al = victim_choice.allocate_found [OF pol s2(2) s3]
  obtain w where f3: "found p s3 = (found p s2)(a := Some (allocated now' a (set_of p a) w e))"
    using al(5) by blast
  have "v \<noteq> a"
    using d(1) g(2) by auto
  then have "lookup c p a s3 = Inr (Some (allocated now' a (set_of p a) w e))" "found p s3 v = None"
      "\<forall>b. b \<noteq> a \<and> b \<noteq> v \<longrightarrow> found p s3 b = found p s b"
    using lookup_eq [OF al(4) g(1)] f3 s2(3) by auto
  moreover have "e_DataBlk (allocated now' a (set_of p a) w e) = e_DataBlk e"
    by (simp add: allocated_def)
  ultimately show ?thesis
    using d(1,2) s2(1) s3 al(4) by blast
qed

theorem cacheProbe_makes_room_witness:
  "cacheProbe el_params tiny_params LRU 9 None 0x1300 tiny_lru_cache = Some (Inr (0x1280, tiny_lru_cache))
   \<and> (\<exists>s2 s3. deallocate el_params tiny_params LRU 0x1280 tiny_lru_cache = Inr s2
        \<and> allocate el_params tiny_params LRU 10 0x1300 tiny_entry s2 = Inr s3)"
proof -
  have "cacheProbe el_params tiny_params LRU 9 None 0x1300 tiny_lru_cache = Some (Inr (0x1280, tiny_lru_cache))"
    unfolding tiny_probe(1) tiny_victim(1) ..
  from this cacheProbe_makes_room [OF lru.victim_choice_axioms tiny_inv this, of 10 tiny_entry]
  show ?thesis
    by blast
qed

text \<open>
  C16. Replacement spares the running transaction. In a cache with transaction-aware replacement the
  victim is a line outside the write set, and outside the read set unless evictions of read lines are
  allowed; a line of these sets is evicted only when no other line of the cache set is left. A line
  with a pending log entry is never evicted under eager versioning.
\<close>

theorem probe_spares_transaction:
  assumes pol: "victim_choice pol" and inv: "cache_inv c p s" and aware: "m_htm_aware_replacements p"
    and run: "cacheProbe c p pol now (Some w) a s = Some (Inr (v, s'))"
  shows "(checkWriteSignature c w v = Inr False \<and> (m_htm_allowed_read_set_evictions p \<or> checkReadSignature c w v = Inr False)
      \<or> (\<forall>b e. found p s b = Some e \<and> set_of p b = set_of p a \<longrightarrow>
           (\<not> lazy_vm c \<and> e_htmLogPending e) \<or> checkWriteSignature c w b = Inr True
           \<or> (\<not> m_htm_allowed_read_set_evictions p \<and> checkReadSignature c w b = Inr True)))
     \<and> (\<forall>e. found p s v = Some e \<longrightarrow> lazy_vm c \<or> \<not> e_htmLogPending e)"
proof -
  obtain e where e: "found p s v = Some e" "\<not> pinned c (Some w) e"
      and alt: "probe_skips c p (Some w) (Some w) e = Inr False
        \<or> (\<forall>b d. found p s b = Some d \<longrightarrow> set_of p b = set_of p a \<longrightarrow> probe_skips c p (Some w) (Some w) d = Inr True)"
    using victim_choice.cacheProbe_victim [OF pol inv run] by blast
  have addr: "m_Address d = b" if "found p s b = Some d" for b d
    using found_entry(1) [OF inv that] .
  have no: "checkWriteSignature c w (m_Address d) = Inr False
      \<and> (m_htm_allowed_read_set_evictions p \<or> checkReadSignature c w (m_Address d) = Inr False)"
    if "probe_skips c p (Some w) (Some w) d = Inr False" for d
    using that aware by (auto simp: probe_skips_def rbind_eq_Inr split: if_splits)
  have yes: "(\<not> lazy_vm c \<and> e_htmLogPending d) \<or> checkWriteSignature c w (m_Address d) = Inr True
      \<or> (\<not> m_htm_allowed_read_set_evictions p \<and> checkReadSignature c w (m_Address d) = Inr True)"
    if "probe_skips c p (Some w) (Some w) d = Inr True" for d
    using that aware by (auto simp: probe_skips_def rbind_eq_Inr split: if_splits)
  have "\<forall>e. found p s v = Some e \<longrightarrow> lazy_vm c \<or> \<not> e_htmLogPending e"
    using e by (simp add: pinned_def)
  moreover have "checkWriteSignature c w v = Inr False
      \<and> (m_htm_allowed_read_set_evictions p \<or> checkReadSignature c w v = Inr False)"
    if "probe_skips c p (Some w) (Some w) e = Inr False"
    using no [OF that] unfolding addr [OF e(1)] .
  moreover have "(\<not> lazy_vm c \<and> e_htmLogPending d) \<or> checkWriteSignature c w b = Inr True
      \<or> (\<not> m_htm_allowed_read_set_evictions p \<and> checkReadSignature c w b = Inr True)"
    if "probe_skips c p (Some w) (Some w) d = Inr True" "found p s b = Some d" for b d
    using yes [OF that(1)] unfolding addr [OF that(2)] .
  ultimately show ?thesis
    using alt by blast
qed

theorem probe_spares_transaction_witness:
  "cacheProbe el_params tiny_params LRU 9 (Some tiny_writer) 0x1300 tiny_lru_cache = Some (Inr (0x1200, tiny_lru_cache))
   \<and> (\<exists>e. found tiny_params tiny_lru_cache 0x1200 = Some e \<and> (lazy_vm el_params \<or> \<not> e_htmLogPending e))"
proof -
  have aware: "m_htm_aware_replacements tiny_params"
    by (simp add: tiny_params_def)
  have run: "cacheProbe el_params tiny_params LRU 9 (Some tiny_writer) 0x1300 tiny_lru_cache = Some (Inr (0x1200, tiny_lru_cache))"
    unfolding tiny_probe(2) tiny_victim(2) ..
  have "found tiny_params tiny_lru_cache 0x1200 \<noteq> None"
    by (simp add: found_def tiny_result_def tiny_rows_def set_of_def tiny_params_def)
  with run show ?thesis
    using probe_spares_transaction [OF lru.victim_choice_axioms tiny_inv aware run] by blast
qed

lemma plru_descend_right: "plru_descend [True] 0 = 2"
proof -
  have "plru_descend [True] 2 = 2"
    by (subst plru_descend.simps) simp
  then show ?thesis
    by (subst plru_descend.simps) (simp add: rightSubtreeIndex_def numeral_2_eq_2)
qed

text \<open>
  C38. The tree policy reads past the candidates. A cache of two ways with the tree policy holds two
  lines of a set, the first of them used last; the transaction wrote the other one. The tree points
  to the second way, but transaction-aware replacement offers only the first, and the policy takes the
  second element of a list of one.
\<close>

theorem tree_plru_out_of_bounds:
  "\<exists>s. (cache_step el_params tiny_params (TreePLRU 2))\<^sup>*\<^sup>* (cache_init (TreePLRU 2) tiny_params) s
     \<and> cacheProbe el_params tiny_params (TreePLRU 2) now (Some tiny_writer) 0x1300 s = Some (Inl (UndefinedAt TreePLRU_cc 196))"
proof (intro exI conjI)
  show "(cache_step el_params tiny_params (TreePLRU 2))\<^sup>*\<^sup>* (cache_init (TreePLRU 2) tiny_params) (tiny_result [True] [False])"
    using tiny_run [OF tiny_plru] .
  show "cacheProbe el_params tiny_params (TreePLRU 2) now (Some tiny_writer) 0x1300 (tiny_result [True] [False])
      = Some (Inl (UndefinedAt TreePLRU_cc 196))"
    unfolding tiny_probe(2)
    by (simp add: probe_victim_def tiny_result_def TreePLRU_def plru_getVictim_def plru_descend_right vread_def asrt_def)
qed

end
