(* ===== verification/Request_Table.thy ===== *)
theory Request_Table
  imports Lazy_System
begin

text \<open>
  The requests of a processor on their way to the L0 cache: the request table and the admission of
  requests (\<^verbatim>\<open>mem/ruby/system/Sequencer.cc\<close>), with what \<^verbatim>\<open>TransactionalSequencer.cc\<close> adds for
  transactional accesses: the read set of issued loads and the reservation of table entries for the
  stores that will write the undo log. A port that had to wait retries its request inside the
  callback that frees an entry; here the retry is a later request. The deadlock timer, latencies and
  the annotated-region profiler are left out.
\<close>

section \<open>Packets and requests\<close>

datatype HtmCmd = HTMStart | HTMCommit | HTMCancel | HTMAbort | HTMIsolate

text \<open>
  A packet with the parts of its request that are read. \<open>pk_id\<close> stands for the address of the packet
  object; \<open>pk_uid\<close> is set for an access of a transaction, \<open>pk_toLog\<close> for a store to the undo log, with
  the address of the program store it belongs to. \<open>pk_swapReq\<close> says that the command is \<^verbatim>\<open>SwapReq\<close>,
  \<open>pk_storeCheck\<close> that the x86 flag \<^verbatim>\<open>StoreCheck\<close> is set; writes with a byte mask are left out.
\<close>

record packet =
  pk_id :: nat
  pk_addr :: addr
  pk_vaddr :: "addr option"
  pk_isWrite :: bool
  pk_isRead :: bool
  pk_isFlush :: bool
  pk_isLLSC :: bool
  pk_isLockedRMW :: bool
  pk_isInstFetch :: bool
  pk_storeCheck :: bool
  pk_isSwap :: bool
  pk_swapReq :: bool
  pk_atomicOp :: "(byte list \<Rightarrow> byte list) option"
  pk_cmd :: "HtmCmd option"
  pk_htm :: htm_packet
  pk_uid :: "nat option"
  pk_toLog :: "addr option"
  pk_validation :: bool
  pk_hasPC :: bool
  pk_needsResponse :: bool
  pk_data :: "byte list"
  pk_extraData :: "nat option"
  pk_atLSQHead :: bool
  pk_forwarded :: bool
  pk_failedAccess :: bool
  pk_failsTransaction :: bool
  pk_htmReturnReason :: HtmCacheFailure

abbreviation isHtmTransactional :: "packet \<Rightarrow> bool" where
  "isHtmTransactional pkt \<equiv> pk_uid pkt \<noteq> None"

definition getHtmTransactionUid :: "packet \<Rightarrow> nat res" where
  "getHtmTransactionUid pkt = (case pk_uid pkt of None \<Rightarrow> Inl (AssertFail Packet_cc 538) | Some u \<Rightarrow> Inr u)"

definition getHtmLoggedStoreAddr :: "packet \<Rightarrow> addr res" where
  "getHtmLoggedStoreAddr pkt = (case pk_toLog pkt of None \<Rightarrow> Inl (AssertFail Packet_cc 612) | Some a \<Rightarrow> Inr a)"

definition setHtmTransactionFailedInCache :: "HtmCacheFailure \<Rightarrow> packet \<Rightarrow> packet" where
  "setHtmTransactionFailedInCache code pkt =
     pkt\<lparr>pk_failsTransaction := pk_failsTransaction pkt \<or> code \<noteq> NO_FAIL, pk_htmReturnReason := code\<rparr>"

datatype RequestStatus =
  RS_Ready | RS_Issued | RS_BufferFull | RS_Aliased | RS_AliasedNotIssued | RS_WaitUntilLogged | RS_NULL

record SequencerRequest =
  sr_pkt :: packet
  sr_type :: RubyRequestType
  sr_second_type :: RubyRequestType
  issue_time :: nat
  reissue_time :: nat
  suppressed :: bool

record LogRequestInfo =
  logAddrPkt :: packet
  logDataPkt :: packet
  logAddrPktStatus :: RequestStatus
  logDataPktStatus :: RequestStatus
  log_outstanding :: int
  log_completed :: int
  log_logIndex :: nat
  log_vaddr :: addr
  log_paddr :: addr

text \<open>The message that goes to the cache, with the transactional fields of a transactional access.\<close>

record RubyRequest =
  msg_pkt :: nat
  msg_addr :: addr
  msg_size :: nat
  msg_type :: RubyRequestType
  msg_tx :: "(nat \<times> TransactionBit \<times> int \<times> bool) option"

section \<open>The sequencer\<close>

text \<open>
  The state of the sequencer with the manager it belongs to. \<open>blocked\<close> are the lines the controller
  blocks for a locked access, \<open>lockedLines\<close> is the member \<^verbatim>\<open>m_locked\<close> of the cached entries,
  \<open>mandatory_q\<close> holds the requests issued to the cache and \<open>responses\<close> the packets returned to the
  processor. A scheduled event is its packet. The flag \<^verbatim>\<open>m_stalled\<close> is part of the manager's view.
\<close>

record seq =
  xm :: xact
  m_RequestTable :: "(addr, SequencerRequest list) smap"
  m_outstanding_count :: int
  m_max_outstanding_requests :: int
  m_pendingLogging :: "(addr, bool) smap"
  m_logRequestTable :: "(addr, LogRequestInfo list) smap"
  m_commitPending :: bool
  m_failedCallback :: bool
  m_specCallback :: bool
  m_failedStorePkt :: "nat option"
  m_lastAbortHtmUid :: nat
  outstandingTransLockedRMWAccesses :: "(addr, int) smap"
  writeBufferHitEvent :: "packet option"
  lazyCommitCheckEvent :: "packet option"
  next_pkt :: nat
  blocked :: "addr list"
  lockedLines :: "(addr, int) smap"
  mandatory_q :: "RubyRequest list"
  responses :: "packet list"
  remotes :: "lazyvm list"
  fallbackLockVAddr :: addr

definition seq_init :: "int \<Rightarrow> addr \<Rightarrow> lazyvm list \<Rightarrow> xact \<Rightarrow> seq" where
  "seq_init max_requests lockV rs w =
     \<lparr>xm = w\<lparr>m_stalled := False\<rparr>, m_RequestTable = [], m_outstanding_count = 0, m_max_outstanding_requests = max_requests,
      m_pendingLogging = [], m_logRequestTable = [], m_commitPending = False, m_failedCallback = False,
      m_specCallback = False, m_failedStorePkt = None, m_lastAbortHtmUid = 0, outstandingTransLockedRMWAccesses = [],
      writeBufferHitEvent = None, lazyCommitCheckEvent = None, next_pkt = 0, blocked = [], lockedLines = [],
      mandatory_q = [], responses = [], remotes = rs, fallbackLockVAddr = lockV\<rparr>"

text \<open>The list of requests of a line; \<^verbatim>\<open>operator[]\<close> of a map makes an absent one empty.\<close>

definition reqs :: "addr \<Rightarrow> seq \<Rightarrow> SequencerRequest list" where
  "reqs a s = (case smap_find (m_RequestTable s) a of None \<Rightarrow> [] | Some l \<Rightarrow> l)"

definition set_reqs :: "addr \<Rightarrow> SequencerRequest list \<Rightarrow> seq \<Rightarrow> seq" where
  "set_reqs a l s = s\<lparr>m_RequestTable := smap_assign a l (m_RequestTable s)\<rparr>"

definition numOutstandingWrites :: "addr \<Rightarrow> seq \<Rightarrow> nat res" where
  "numOutstandingWrites address s =
     (case smap_find (m_RequestTable s) address of
        None \<Rightarrow> Inl (AssertFail TSeq_cc 1748)
      | Some l \<Rightarrow> Inr (length (filter (\<lambda>r. pk_isWrite (sr_pkt r)) l)))"

definition suppressOutstandingRequests :: "seq \<Rightarrow> seq" where
  "suppressOutstandingRequests s =
     s\<lparr>m_RequestTable := map (\<lambda>(a, l).
          (a, map (\<lambda>r. if isHtmTransactional (sr_pkt r) then r\<lparr>suppressed := True\<rparr> else r) l)) (m_RequestTable s)\<rparr>"

definition getNumReissuedRequests :: "seq \<Rightarrow> nat res" where
  "getNumReissuedRequests s =
     rfold (\<lambda>e n. case snd e of
                    [] \<Rightarrow> Inl (UndefinedAt TSeq_cc 403)
                  | r # _ \<Rightarrow> Inr (if reissue_time r \<noteq> 0 then n + 1 else n)) (m_RequestTable s) 0"

definition seq_getPacketFromRequestTable :: "htm_params \<Rightarrow> addr \<Rightarrow> seq \<Rightarrow> packet res" where
  "seq_getPacketFromRequestTable c address s =
     asrt TSeq_cc 1775 (address = line c address)
       (case smap_find (m_RequestTable s) address of
          None \<Rightarrow> Inl (AssertFail TSeq_cc 1776)
        | Some [] \<Rightarrow> Inl (PanicAt TSeq_cc 1785)
        | Some (r # _) \<Rightarrow> Inr (sr_pkt r))"

text \<open>The check for deadlocked requests.\<close>

definition wakeup :: "nat \<Rightarrow> seq \<Rightarrow> unit res" where
  "wakeup m_deadlock_threshold s =
     rbind (rfold (\<lambda>e u. rfold (\<lambda>r u.
              if curCycle (xm s) - issue_time r < m_deadlock_threshold then Inr u
              else if reissue_time r > issue_time r then Inr u
              else Inl (PanicAt Seq_cc 258)) (snd e) u) (m_RequestTable s) ()) (\<lambda>_.
       asrt Seq_cc 269 (m_outstanding_count s = int (sum_list (map (length \<circ> snd) (m_RequestTable s)))) (Inr ()))"

section \<open>Admission\<close>

definition canCoalesceRequest :: "packet \<Rightarrow> SequencerRequest \<Rightarrow> bool" where
  "canCoalesceRequest pkt lastSeqReq =
     (case pk_uid pkt of
        Some uid \<Rightarrow> (case pk_uid (sr_pkt lastSeqReq) of None \<Rightarrow> False | Some last_uid \<Rightarrow> last_uid = uid)
      | None \<Rightarrow> \<not> isHtmTransactional (sr_pkt lastSeqReq))"

definition base_insertRequest ::
    "htm_params \<Rightarrow> packet \<Rightarrow> RubyRequestType \<Rightarrow> RubyRequestType \<Rightarrow> seq \<Rightarrow> (RequestStatus \<times> seq) res" where
  "base_insertRequest c pkt primary_type secondary_type s =
     (let line_addr = line c (pk_addr pkt); l = reqs line_addr s in
      if l \<noteq> [] \<and> \<not> canCoalesceRequest pkt (last l) then Inr (RS_AliasedNotIssued, s)
      else
        let l' = l @ [\<lparr>sr_pkt = pkt, sr_type = primary_type, sr_second_type = secondary_type,
                       issue_time = curCycle (xm s), reissue_time = 0, suppressed = False\<rparr>];
            s1 = (set_reqs line_addr l' s)\<lparr>m_outstanding_count := m_outstanding_count s + 1\<rparr> in
        if length l' > 1
        then asrt Seq_cc 401 (isHtmTransactional pkt = isHtmTransactional (sr_pkt (last l'))) (Inr (RS_Aliased, s1))
        else Inr (RS_Ready, s1))"

definition htmCmdToRubyRequestType :: "HtmCmd \<Rightarrow> RubyRequestType res" where
  "htmCmdToRubyRequestType cmd =
     (case cmd of
        HTMStart \<Rightarrow> Inr HTM_Start | HTMCommit \<Rightarrow> Inr HTM_Commit | HTMCancel \<Rightarrow> Inr HTM_Cancel
      | HTMAbort \<Rightarrow> Inr HTM_Abort | HTMIsolate \<Rightarrow> Inl (PanicAt SliccUtil_hh 189))"

text \<open>The types of a request; with this protocol a store conditional goes to the cache as a store.\<close>

definition request_types :: "packet \<Rightarrow> (RubyRequestType \<times> RubyRequestType) res" where
  "request_types pkt =
     (if pk_isLLSC pkt then
        (if pk_isWrite pkt then Inr (Store_Conditional, ST)
         else asrt Seq_cc 853 (pk_isRead pkt) (Inr (Load_Linked, LD)))
      else if pk_isLockedRMW pkt then
        (if pk_isWrite pkt then Inr (Locked_RMW_Write, ST)
         else asrt Seq_cc 869 (pk_isRead pkt) (Inr (Locked_RMW_Read, ST)))
      else if pk_isWrite pkt then Inr (ST, ST)
      else if pk_isRead pkt then
        (case pk_cmd pkt of
           Some cmd \<Rightarrow> rbind (htmCmdToRubyRequestType cmd) (\<lambda>t. Inr (t, t))
         | None \<Rightarrow> if pk_isInstFetch pkt then Inr (IFETCH, IFETCH)
                   else if pk_storeCheck pkt then Inr (RMW_Read, ST) else Inr (LD, LD))
      else if pk_isFlush pkt then Inr (FLUSH, FLUSH)
      else Inl (PanicAt Seq_cc 908))"

text \<open>The entries kept free for the stores to the log.\<close>

definition reserved_mshrs :: "htm_params \<Rightarrow> packet \<Rightarrow> seq \<Rightarrow> int res" where
  "reserved_mshrs c pkt s =
     (if lazy_vm c then Inr 0
      else
        let n = 2 * int (length (m_pendingLogging s)) in
        if pk_isWrite pkt \<and> isHtmTransactional pkt then
          rbind (checkWriteSignature c (xm s) (line c (pk_addr pkt))) (\<lambda>w.
            Inr (if \<not> w \<and> smap_find (m_pendingLogging s) (line c (pk_addr pkt)) = None then n + 2 else n))
        else if pk_toLog pkt \<noteq> None then
          asrt TSeq_cc 679 (\<not> isHtmTransactional pkt)
            (rbind (getHtmLoggedStoreAddr pkt) (\<lambda>la.
               asrt TSeq_cc 683 (smap_find (m_pendingLogging s) (line c la) = Some True) (Inr (n - 2))))
        else Inr n)"

definition canMakeRequest :: "htm_params \<Rightarrow> packet \<Rightarrow> seq \<Rightarrow> bool res" where
  "canMakeRequest c pkt s =
     rbind (reserved_mshrs c pkt s) (\<lambda>num_reserved_mshrs.
       if m_failedStorePkt s = Some (pk_id pkt) then Inr True
       else Inr (\<not> (m_outstanding_count s + num_reserved_mshrs \<ge> m_max_outstanding_requests s
                     \<and> pk_cmd pkt \<noteq> Some HTMAbort)))"

text \<open>A transactional store to a line outside the write set reserves the entries for its log stores.\<close>

definition insert_logging :: "htm_params \<Rightarrow> packet \<Rightarrow> RequestStatus \<Rightarrow> seq \<Rightarrow> seq res" where
  "insert_logging c pkt status s =
     (let address = line c (pk_addr pkt) in
      if lazy_vm c \<or> \<not> (pk_isWrite pkt \<and> isHtmTransactional pkt) then Inr s
      else rbind (checkWriteSignature c (xm s) address) (\<lambda>w.
        if w then Inr s
        else if status = RS_Ready then
          asrt TSeq_cc 583 (smap_find (m_pendingLogging s) address = None)
            (Inr (s\<lparr>m_pendingLogging := smap_assign address True (m_pendingLogging s)\<rparr>))
        else if status = RS_Aliased then
          asrt TSeq_cc 590 (length (reqs address s) > 1)
            (rbind (numOutstandingWrites address s) (\<lambda>numStoresFound.
               asrt TSeq_cc 593 (numStoresFound > 0)
                 (if numStoresFound = 1 then
                    asrt TSeq_cc 596 (smap_find (m_pendingLogging s) address = None)
                      (Inr (s\<lparr>m_pendingLogging := smap_assign address True (m_pendingLogging s)\<rparr>))
                  else
                    asrt TSeq_cc 601 (smap_find (m_pendingLogging s) address \<noteq> None
                                      \<or> smap_find (m_logRequestTable s) address \<noteq> None) (Inr s))))
        else asrt TSeq_cc 607 (status = RS_AliasedNotIssued) (Inr s)))"

definition isDataReadRequest :: "RubyRequestType \<Rightarrow> bool" where
  "isDataReadRequest type \<longleftrightarrow> type = LD \<or> type = Load_Linked"

text \<open>Without precise tracking a load enters the read set when it is issued.\<close>

definition insert_read_set ::
    "htm_params \<Rightarrow> packet \<Rightarrow> RubyRequestType \<Rightarrow> RubyRequestType \<Rightarrow> RequestStatus \<Rightarrow> seq \<Rightarrow> seq res" where
  "insert_read_set c pkt primary_type secondary_type status s =
     (if precise_read_set_tracking c \<or> \<not> (isHtmTransactional pkt \<and> pk_isRead pkt) then Inr s
      else
        asrt TSeq_cc 622 (\<not> pk_isWrite pkt)
         (asrt TSeq_cc 623 (isDataReadRequest secondary_type \<or> primary_type = RMW_Read \<or> primary_type = Locked_RMW_Read)
           (if status = RS_Ready \<or> status = RS_Aliased then
              (let addr = line c (pk_addr pkt) in
               if inTransaction (xm s) then
                 rbind (checkReadSignature c (xm s) addr) (\<lambda>r.
                   if r then Inr s
                   else rbind (isolateTransactionLoad c addr (xm s)) (\<lambda>w. Inr (s\<lparr>xm := w\<rparr>)))
               else Inl (PanicAt TSeq_cc 646))
            else Inr s)))"

definition insertRequest ::
    "htm_params \<Rightarrow> packet \<Rightarrow> RubyRequestType \<Rightarrow> RubyRequestType \<Rightarrow> seq \<Rightarrow> (RequestStatus \<times> seq) res" where
  "insertRequest c pkt primary_type secondary_type s =
     (if m_failedStorePkt s = Some (pk_id pkt) then Inr (RS_Ready, s\<lparr>m_failedStorePkt := None\<rparr>)
      else
        rbind (base_insertRequest c pkt primary_type secondary_type s) (\<lambda>(status, s1).
          asrt TSeq_cc 562 (isHtmTransactional pkt \<and> (primary_type = Locked_RMW_Read \<or> primary_type = Locked_RMW_Write)
                            \<longrightarrow> pk_isLockedRMW pkt)
            (rbind (insert_logging c pkt status s1) (\<lambda>s2.
             rbind (insert_read_set c pkt primary_type secondary_type status s2) (\<lambda>s3.
               Inr (status, s3))))))"

definition setFlagsPreIssueRequest ::
    "htm_params \<Rightarrow> packet \<Rightarrow> RubyRequestType \<Rightarrow> seq
     \<Rightarrow> (RubyRequestType \<times> (nat \<times> TransactionBit \<times> int \<times> bool) option) res" where
  "setFlagsPreIssueRequest c pkt type s =
     (let addr = line c (pk_addr pkt) in
      rbind (if config_allowEarlyValueFwd (xm s) \<and> isBlockConsumed c (xm s) addr then
               (if pk_validation pkt
                then asrt TSeq_cc 497 (length (pk_data pkt) = getBlockSizeBytes (block_size_bits c)) (Inr HTM_Validate)
                else
                  rbind (tryCacheAccess c addr LD (dcache (xm s))) (\<lambda>hit.
                    asrt TSeq_cc 526 (hit \<noteq> None \<or> type \<notin> {LD, Load_Linked, IFETCH}
                                      \<or> (m_specCallback s \<and> \<not> isHtmTransactional pkt)) (Inr type)))
             else Inr type) (\<lambda>t.
        case pk_uid pkt of
          None \<Rightarrow> Inr (t, None)
        | Some uid \<Rightarrow> rbind (getSwTransactionPriority (xm s)) (\<lambda>sw.
            Inr (t, Some (uid, getTransactionBit (xm s), getTransactionPriority (xm s), sw)))))"

definition issueRequest :: "htm_params \<Rightarrow> packet \<Rightarrow> RubyRequestType \<Rightarrow> seq \<Rightarrow> seq res" where
  "issueRequest c pkt secondary_type s =
     rbind (setFlagsPreIssueRequest c pkt secondary_type s) (\<lambda>(t, tx).
       Inr (s\<lparr>mandatory_q := mandatory_q s @
                [\<lparr>msg_pkt = pk_id pkt, msg_addr = pk_addr pkt, msg_size = length (pk_data pkt), msg_type = t, msg_tx = tx\<rparr>]\<rparr>))"

definition base_makeRequest :: "htm_params \<Rightarrow> packet \<Rightarrow> seq \<Rightarrow> (RequestStatus \<times> seq) res" where
  "base_makeRequest c pkt s =
     rbind (canMakeRequest c pkt s) (\<lambda>ok.
       if \<not> ok then Inr (RS_BufferFull, s)
       else
         rbind (request_types pkt) (\<lambda>(primary_type, secondary_type).
           if line c (pk_addr pkt) \<in> set (blocked s) \<and> primary_type \<noteq> Locked_RMW_Write then Inr (RS_Aliased, s)
           else
             rbind (insertRequest c pkt primary_type secondary_type s) (\<lambda>(status, s1).
               if status \<noteq> RS_Ready then
                 (if status = RS_AliasedNotIssued then Inr (status, s1)
                  else asrt Seq_cc 939 (status = RS_Aliased) (Inr (RS_Issued, s1)))
               else rbind (issueRequest c pkt secondary_type s1) (\<lambda>s2. Inr (RS_Issued, s2)))))"

end
