(* ===== verification/Tx_Sequencer.thy ===== *)
theory Tx_Sequencer
  imports Request_Table
begin

text \<open>
  The callbacks of the cache and the commands of the processor
  (\<^verbatim>\<open>mem/ruby/system/Sequencer.cc\<close>, \<^verbatim>\<open>TransactionalSequencer.cc\<close>): completed and failed accesses, the
  stores to the undo log that a transactional store waits for, and the transactional commands that
  the sequencer hands to the transaction interface manager.
\<close>

section \<open>Load-linked and store-conditional\<close>

definition llscLoadLinked :: "htm_params \<Rightarrow> addr \<Rightarrow> seq \<Rightarrow> seq res" where
  "llscLoadLinked c claddr s =
     rbind (cache_lookup c claddr (dcache (xm s))) (\<lambda>entry.
       Inr (case entry of
              None \<Rightarrow> s
            | Some _ \<Rightarrow> s\<lparr>lockedLines := smap_assign claddr (int (m_version (xm s))) (lockedLines s)\<rparr>))"

definition llscClearMonitor :: "htm_params \<Rightarrow> addr \<Rightarrow> seq \<Rightarrow> seq res" where
  "llscClearMonitor c claddr s =
     rbind (cache_lookup c claddr (dcache (xm s))) (\<lambda>entry.
       Inr (if entry \<noteq> None \<and> smap_find (lockedLines s) claddr = Some (int (m_version (xm s)))
            then s\<lparr>lockedLines := smap_erase claddr (lockedLines s)\<rparr> else s))"

definition llscStoreConditional :: "htm_params \<Rightarrow> addr \<Rightarrow> seq \<Rightarrow> (bool \<times> seq) res" where
  "llscStoreConditional c claddr s =
     rbind (cache_lookup c claddr (dcache (xm s))) (\<lambda>entry.
       Inr (case entry of
              None \<Rightarrow> (False, s)
            | Some _ \<Rightarrow> (smap_find (lockedLines s) claddr = Some (int (m_version (xm s))),
                        s\<lparr>lockedLines := smap_erase claddr (lockedLines s)\<rparr>)))"

section \<open>Stalls\<close>

definition checkForStall :: "packet \<Rightarrow> seq \<Rightarrow> seq" where
  "checkForStall pkt s =
     (if pk_atLSQHead pkt \<and> \<not> isAborting (xm s) \<and> \<not> m_stalled (xm s)
         \<and> (\<not> isHtmTransactional pkt \<or> Some (m_lastAbortHtmUid s) \<noteq> pk_uid pkt)
      then s\<lparr>xm := (xm s)\<lparr>m_stalled := True\<rparr>\<rparr> else s)"

definition updateReissueTime :: "addr \<Rightarrow> seq \<Rightarrow> seq res" where
  "updateReissueTime address s =
     (let l = map (\<lambda>r. r\<lparr>reissue_time := curCycle (xm s)\<rparr>) (reqs address s);
          s1 = set_reqs address l s in
      rbind (getNumReissuedRequests s1) (\<lambda>n.
        if n = length (m_RequestTable s1) then
          (let l' = map (\<lambda>r. r\<lparr>sr_pkt := (sr_pkt r)\<lparr>pk_atLSQHead := True\<rparr>\<rparr>) l in
           Inr (fold (\<lambda>r t. checkForStall (sr_pkt r) t) l' (set_reqs address l' s1)))
        else Inr s1))"

section \<open>Stores to the log\<close>

definition addr_bytes :: "addr \<Rightarrow> byte list" where
  "addr_bytes a = map (\<lambda>i. ucast (drop_bit (8 * i) a)) [0..<8]"

definition bytes_addr :: "byte list \<Rightarrow> addr" where
  "bytes_addr bs = foldr (\<lambda>b a. push_bit 8 a OR ucast b) (take 8 bs) 0"

text \<open>A write that the sequencer makes itself: a physical access that is not part of a transaction.\<close>

definition physical_write :: "nat \<Rightarrow> addr \<Rightarrow> byte list \<Rightarrow> htm_packet \<Rightarrow> packet" where
  "physical_write i addr bs h =
     \<lparr>pk_id = i, pk_addr = addr, pk_vaddr = None, pk_isWrite = True, pk_isRead = False, pk_isFlush = False,
      pk_isLLSC = False, pk_isLockedRMW = False, pk_isInstFetch = False, pk_storeCheck = False, pk_isSwap = False,
      pk_swapReq = False, pk_atomicOp = None, pk_cmd = None, pk_htm = h, pk_uid = None, pk_toLog = None,
      pk_validation = False, pk_hasPC = False, pk_needsResponse = True, pk_data = bs, pk_extraData = None,
      pk_atLSQHead = False, pk_forwarded = False, pk_failedAccess = False, pk_failsTransaction = False,
      pk_htmReturnReason = NO_FAIL\<rparr>"

definition log_packet :: "nat \<Rightarrow> addr \<Rightarrow> byte list \<Rightarrow> packet \<Rightarrow> packet" where
  "log_packet i addr bs mainPkt = (physical_write i addr bs (pk_htm mainPkt))\<lparr>pk_toLog := Some (pk_addr mainPkt)\<rparr>"

definition log_info :: "htm_params \<Rightarrow> log_request \<Rightarrow> packet \<Rightarrow> seq \<Rightarrow> LogRequestInfo \<times> seq" where
  "log_info c lr mainPkt s =
     (\<lparr>logAddrPkt = log_packet (next_pkt s) (logAddrPkt_addr lr) (addr_bytes (logAddrPkt_data lr)) mainPkt,
       logDataPkt = log_packet (next_pkt s + 1) (logDataPkt_addr lr) (logDataPkt_data lr) mainPkt,
       logAddrPktStatus = RS_NULL, logDataPktStatus = RS_NULL, log_outstanding = 0, log_completed = 0,
       log_logIndex = log_index lr, log_vaddr = the (pk_vaddr mainPkt), log_paddr = line c (pk_addr mainPkt)\<rparr>,
      s\<lparr>next_pkt := next_pkt s + 2\<rparr>)"

definition makeLogRequests :: "htm_params \<Rightarrow> LogRequestInfo \<Rightarrow> seq \<Rightarrow> (bool \<times> LogRequestInfo \<times> seq) res" where
  "makeLogRequests c lr s =
     rbind (if logAddrPktStatus lr \<noteq> RS_Issued then
              rbind (base_makeRequest c (logAddrPkt lr) s) (\<lambda>(st, s1).
                let lr1 = lr\<lparr>logAddrPktStatus := st\<rparr> in
                if st \<noteq> RS_Issued then Inr (False, lr1, s1)
                else Inr (True, lr1\<lparr>log_outstanding := log_outstanding lr1 + 1\<rparr>, s1))
            else Inr (True, lr, s)) (\<lambda>(go, lr1, s1).
       if \<not> go then Inr (False, lr1, s1)
       else if logDataPktStatus lr1 \<noteq> RS_Issued then
         rbind (base_makeRequest c (logDataPkt lr1) s1) (\<lambda>(st, s2).
           let lr2 = lr1\<lparr>logDataPktStatus := st\<rparr> in
           if st \<noteq> RS_Issued then Inr (False, lr2, s2)
           else Inr (True, lr2\<lparr>log_outstanding := log_outstanding lr2 + 1\<rparr>, s2))
       else Inr (True, lr1, s1))"

text \<open>The lock of a line in the data cache while its store is logged.\<close>

definition cache_setHtmLogPending :: "htm_params \<Rightarrow> addr \<Rightarrow> bool \<Rightarrow> (addr, cache_line) smap \<Rightarrow> (addr, cache_line) smap res" where
  "cache_setHtmLogPending c address val m =
     rbind (cache_lookup c address m) (\<lambda>entry.
       case entry of
         None \<Rightarrow> Inl (AssertFail CacheMemory_cc 783)
       | Some e \<Rightarrow> asrt CacheMemory_cc 785 (val \<or> m_htmLogPending e)
           (Inr (smap_assign address (e\<lparr>m_htmLogPending := val\<rparr>) m)))"

definition set_dcache :: "(addr, cache_line) smap \<Rightarrow> seq \<Rightarrow> seq" where
  "set_dcache m s = s\<lparr>xm := (xm s)\<lparr>dcache := m\<rparr>\<rparr>"

text \<open>The stores to the log of one program store, once its line may be written.\<close>

definition log_store ::
    "htm_params \<Rightarrow> packet \<Rightarrow> addr \<Rightarrow> DataBlock \<Rightarrow> seq \<Rightarrow> (bool \<times> seq) res" where
  "log_store c pkt address data s =
     asrt TSeq_cc 1334 (smap_find (m_logRequestTable s) address = None)
       (rbind (buildLogPackets c (isHtmTransactional pkt) (pk_vaddr pkt) data (evm (xm s))) (\<lambda>(lr, e).
          let (info, s1) = log_info c lr pkt (s\<lparr>xm := (xm s)\<lparr>evm := e\<rparr>\<rparr>) in
          rbind (makeLogRequests c info s1) (\<lambda>(ok, info1, s2).
            if \<not> ok then Inl (PanicAt TSeq_cc 1354)
            else
              asrt TSeq_cc 1342 (smap_find (m_pendingLogging s2) address \<noteq> None)
               (asrt TSeq_cc 1345 (smap_find (m_logRequestTable s2) address = None
                                   \<or> smap_find (m_logRequestTable s2) address = Some [])
                 (Inr (True, s2\<lparr>m_pendingLogging := smap_erase address (m_pendingLogging s2),
                               m_logRequestTable := smap_assign address [info1] (m_logRequestTable s2)\<rparr>))))))"

definition logTransactionalStores ::
    "htm_params \<Rightarrow> packet \<Rightarrow> addr \<Rightarrow> DataBlock \<Rightarrow> seq \<Rightarrow> (bool \<times> seq) res" where
  "logTransactionalStores c pkt address data s =
     asrt TSeq_cc 1307 (isHtmTransactional pkt)
      (asrt TSeq_cc 1308 (\<not> lazy_vm c)
       (asrt TSeq_cc 1309 (eager_cd c)
        (if smap_find (m_pendingLogging s) address = None then Inr (False, s)
         else
           rbind (checkWriteSignature c (xm s) address) (\<lambda>w. asrt TSeq_cc 1314 (\<not> w)
            (rbind (numOutstandingWrites address s) (\<lambda>n. asrt TSeq_cc 1315 (n > 0)
             (rbind (cache_setHtmLogPending c address True (dcache (xm s))) (\<lambda>m.
              rbind (isolateTransactionStore c address (xm (set_dcache m s))) (\<lambda>w1.
                log_store c pkt address data (s\<lparr>xm := w1\<rparr>))))))))))"

section \<open>Completed requests\<close>

definition respond :: "packet \<Rightarrow> seq \<Rightarrow> seq" where
  "respond pkt s = s\<lparr>responses := responses s @ [pkt]\<rparr>"

definition markRemoved :: "seq \<Rightarrow> seq" where
  "markRemoved s = s\<lparr>m_outstanding_count := m_outstanding_count s - 1\<rparr>"

text \<open>
  The movement of data between packet and block in \<^verbatim>\<open>Sequencer::hitCallback\<close>. Warm-up from a
  checkpoint and the tester are left out, and so is the notification of the controller about
  coalesced requests. \<open>amoArch\<close> says that the architecture is RISC-V or ARM.
\<close>

definition hit_data ::
    "htm_params \<Rightarrow> bool \<Rightarrow> RubyRequestType \<Rightarrow> bool \<Rightarrow> packet \<Rightarrow> DataBlock \<Rightarrow> (packet \<times> DataBlock) res" where
  "hit_data c amoArch type llscSuccess pkt data =
     (if pk_isFlush pkt then Inr (pkt, data)
      else
        rbind (getOffset (block_size_bits c) (pk_addr pkt)) (\<lambda>off.
          let k = unat off; n = length (pk_data pkt) in
          if type \<in> {LD, IFETCH, RMW_Read, Locked_RMW_Read, Load_Linked} then
            rbind (getData (block_bytes c) data k n) (\<lambda>bs. Inr (pkt\<lparr>pk_data := bs\<rparr>, data))
          else if pk_swapReq pkt then
            (case pk_atomicOp pkt of
               None \<Rightarrow> Inl (PanicAt Seq_cc 759)
             | Some amo \<Rightarrow>
                 asrt Seq_cc 746 amoArch
                  (asrt Seq_cc 749 (\<not> pk_isSwap pkt)
                    (if k + n \<le> length data
                     then Inr (pkt\<lparr>pk_data := take n (drop k data)\<rparr>,
                               take k data @ amo (take n (drop k data)) @ drop (k + n) data)
                     else Inl (UndefinedAt Seq_cc 754))))
          else if pk_isSwap pkt then
            rbind (getData (block_bytes c) data k n) (\<lambda>bs.
            rbind (setData (pk_data pkt) k n data) (\<lambda>d. Inr (pkt\<lparr>pk_data := bs\<rparr>, d)))
          else if type \<noteq> Store_Conditional \<or> llscSuccess then
            asrt DataBlock_cc 190 (k + n \<le> block_bytes c)
              (rbind (setData (pk_data pkt) k n data) (\<lambda>d. Inr (pkt, d)))
          else Inr (pkt, data)))"

definition base_hitCallback ::
    "htm_params \<Rightarrow> bool \<Rightarrow> SequencerRequest \<Rightarrow> packet \<Rightarrow> DataBlock \<Rightarrow> bool \<Rightarrow> seq \<Rightarrow> (packet \<times> DataBlock \<times> seq) res" where
  "base_hitCallback c amoArch r pkt data llscSuccess s =
     rbind (if sr_type r = Load_Linked then llscLoadLinked c (line c (pk_addr pkt)) s else Inr s) (\<lambda>s1.
     rbind (hit_data c amoArch (sr_type r) llscSuccess pkt data) (\<lambda>(pkt1, d). Inr (pkt1, d, s1)))"

text \<open>
  The loop of \<^verbatim>\<open>Sequencer::writeCallback\<close> over the requests of a line: \<open>hit\<close> is the virtual
  \<^verbatim>\<open>hitCallback\<close>. A request is popped after its callback; a
  \<open>break\<close> leaves the rest of the list in the table.
\<close>

type_synonym hit_fun = "SequencerRequest \<Rightarrow> DataBlock \<Rightarrow> bool \<Rightarrow> seq \<Rightarrow> (DataBlock \<times> seq) res"

definition is_load_type :: "RubyRequestType \<Rightarrow> bool" where
  "is_load_type t \<longleftrightarrow> t = LD \<or> t = Load_Linked \<or> t = IFETCH"

text \<open>The monitor and the block on the line for one store of the list.\<close>

definition write_prepare :: "htm_params \<Rightarrow> addr \<Rightarrow> SequencerRequest \<Rightarrow> seq \<Rightarrow> (bool \<times> SequencerRequest \<times> seq) res" where
  "write_prepare c address r s =
     rbind (if sr_type r \<noteq> Store_Conditional
            then rbind (llscClearMonitor c address s) (\<lambda>s1. Inr (True, r, s1))
            else rbind (llscStoreConditional c address s) (\<lambda>(ok, s1).
                   Inr (ok, r\<lparr>sr_pkt := (sr_pkt r)\<lparr>pk_extraData := Some (if ok then 1 else 0)\<rparr>\<rparr>, s1))) (\<lambda>(ok, r1, s1).
       Inr (ok, r1,
            if sr_type r = Locked_RMW_Read then s1\<lparr>blocked := List.insert address (blocked s1)\<rparr>
            else if sr_type r = Locked_RMW_Write then s1\<lparr>blocked := removeAll address (blocked s1)\<rparr> else s1))"

fun write_loop ::
    "htm_params \<Rightarrow> hit_fun \<Rightarrow> addr \<Rightarrow> bool \<Rightarrow> SequencerRequest list \<Rightarrow> bool \<Rightarrow> nat \<Rightarrow> DataBlock \<Rightarrow> seq \<Rightarrow> (DataBlock \<times> seq) res" where
  "write_loop c hit address noCoales [] ruby_request currentUid data s = Inr (data, s)"
| "write_loop c hit address noCoales (r # rs) ruby_request currentUid data s =
     (if noCoales \<and> \<not> ruby_request
      then rbind (issueRequest c (sr_pkt r) (sr_second_type r) s) (\<lambda>s1. Inr (data, s1))
      else
        rbind (if ruby_request then
                 asrt Seq_cc 537 (sr_type r \<noteq> LD)
                  (asrt Seq_cc 538 (sr_type r \<noteq> Load_Linked)
                   (asrt Seq_cc 539 (sr_type r \<noteq> IFETCH)
                     (Inr (case pk_uid (sr_pkt r) of None \<Rightarrow> currentUid | Some u \<Rightarrow> u))))
               else if currentUid \<noteq> 0 then asrt Seq_cc 543 (pk_uid (sr_pkt r) = Some currentUid) (Inr currentUid)
               else asrt Seq_cc 548 (pk_uid (sr_pkt r) = None) (Inr currentUid)) (\<lambda>uid.
          if pk_validation (sr_pkt r) \<and> \<not> ruby_request
          then rbind (issueRequest c (sr_pkt r) (sr_second_type r) s) (\<lambda>s1. Inr (data, s1))
          else
            rbind (if \<not> is_load_type (sr_type r)
                   then rbind (write_prepare c address r s) (\<lambda>(ok, r1, s1).
                          if ruby_request then asrt Seq_cc 428 (curCycle (xm s1) \<ge> issue_time r) (Inr (ok, r1, s1))
                          else Inr (ok, r1, s1))
                   else asrt Seq_cc 607 (\<not> ruby_request) (Inr (True, r, s))) (\<lambda>(success, r1, s1).
            rbind (hit r1 data success (markRemoved s1)) (\<lambda>(data1, s2).
              write_loop c hit address noCoales rs False uid data1 (set_reqs address rs s2)))))"

definition erase_if_empty :: "addr \<Rightarrow> seq \<Rightarrow> seq" where
  "erase_if_empty address s =
     (if reqs address s = [] then s\<lparr>m_RequestTable := smap_erase address (m_RequestTable s)\<rparr> else s)"

definition base_writeCallback ::
    "htm_params \<Rightarrow> hit_fun \<Rightarrow> addr \<Rightarrow> bool \<Rightarrow> DataBlock \<Rightarrow> seq \<Rightarrow> (DataBlock \<times> seq) res" where
  "base_writeCallback c hit address noCoales data s =
     asrt Seq_cc 509 (address = line c address)
      (asrt Seq_cc 510 (smap_find (m_RequestTable s) address \<noteq> None)
       (rbind (write_loop c hit address noCoales (reqs address s) True 0 data s) (\<lambda>(d, s1).
          Inr (d, erase_if_empty address s1))))"

fun read_loop ::
    "htm_params \<Rightarrow> hit_fun \<Rightarrow> addr \<Rightarrow> SequencerRequest list \<Rightarrow> bool \<Rightarrow> nat \<Rightarrow> DataBlock \<Rightarrow> seq \<Rightarrow> (DataBlock \<times> seq) res" where
  "read_loop c hit address [] ruby_request currentUid data s = Inr (data, s)"
| "read_loop c hit address (r # rs) ruby_request currentUid data s =
     rbind (if ruby_request then
              asrt Seq_cc 649 (is_load_type (sr_type r))
                (Inr (case pk_uid (sr_pkt r) of None \<Rightarrow> currentUid | Some u \<Rightarrow> u))
            else if currentUid \<noteq> 0 then asrt Seq_cc 659 (pk_uid (sr_pkt r) = Some currentUid) (Inr currentUid)
            else asrt Seq_cc 664 (pk_uid (sr_pkt r) = None) (Inr currentUid)) (\<lambda>uid.
       if \<not> is_load_type (sr_type r) \<or> (pk_validation (sr_pkt r) \<and> \<not> ruby_request)
       then rbind (issueRequest c (sr_pkt r) (sr_second_type r) s) (\<lambda>s1. Inr (data, s1))
       else
         asrt Seq_cc 428 (ruby_request \<longrightarrow> curCycle (xm s) \<ge> issue_time r)
           (rbind (hit r data True (markRemoved s)) (\<lambda>(data1, s1).
              read_loop c hit address rs False uid data1 (set_reqs address rs s1))))"

definition base_readCallback ::
    "htm_params \<Rightarrow> hit_fun \<Rightarrow> addr \<Rightarrow> DataBlock \<Rightarrow> seq \<Rightarrow> (DataBlock \<times> seq) res" where
  "base_readCallback c hit address data s =
     asrt Seq_cc 635 (address = line c address)
      (asrt Seq_cc 636 (smap_find (m_RequestTable s) address \<noteq> None)
       (rbind (read_loop c hit address (reqs address s) True 0 data s) (\<lambda>(d, s1).
          Inr (d, erase_if_empty address s1))))"

section \<open>Failed accesses\<close>

text \<open>
  What the handlers take from their surroundings: the lines for which the sequencer accepts a
  request of the write buffer, the managers of the other processors, whether an abort downgrades
  its lines, and whether the architecture has atomic memory operations.
\<close>

record seq_env =
  env_issue :: "addr \<Rightarrow> bool"
  env_mgrs :: "xact list"
  env_downgrade :: bool
  env_amoArch :: bool

definition failedCallbackCleanup :: "htm_params \<Rightarrow> packet \<Rightarrow> seq \<Rightarrow> seq res" where
  "failedCallbackCleanup c pkt s =
     asrt TSeq_cc 806 (m_failedCallback s)
       (let address = line c (pk_addr pkt); freed = s\<lparr>m_pendingLogging := smap_erase address (m_pendingLogging s)\<rparr> in
        if lazy_vm c \<or> smap_find (m_pendingLogging s) address = None then Inr s
        else if \<not> pk_isWrite pkt then asrt TSeq_cc 816 (length (reqs address s) > 1) (Inr s)
        else rbind (if isHtmTransactional pkt
                    then rbind (checkWriteSignature c (xm s) address) (\<lambda>w. Inr (\<not> w)) else Inr False) (\<lambda>ok.
          asrt TSeq_cc 818 ok
            (if length (reqs address s) = 1 then Inr freed
             else rbind (numOutstandingWrites address s) (\<lambda>n.
               if n = 1 then Inr freed else asrt TSeq_cc 833 (n > 1) (Inr s)))))"

text \<open>The response code for the packet of a failed access.\<close>

definition failed_code :: "htm_params \<Rightarrow> packet \<Rightarrow> seq \<Rightarrow> packet res" where
  "failed_code c pkt s =
     (if pk_isWrite pkt \<or> isAborting (xm s) then
        rbind (if pk_isWrite pkt \<and> \<not> isAborting (xm s)
               then rbind (getHtmTransactionUid pkt) (\<lambda>u. asrt TSeq_cc 888 (m_lastAbortHtmUid s = u) (Inr ()))
               else Inr ()) (\<lambda>_.
        rbind (getHtmTransactionalReqResponseCode (xm s)) (\<lambda>reason.
          Inr (setHtmTransactionFailedInCache reason pkt)))
      else Inr pkt)"

definition handleFailedCallback :: "htm_params \<Rightarrow> SequencerRequest \<Rightarrow> seq \<Rightarrow> seq res" where
  "handleFailedCallback c r s =
     (let pkt = sr_pkt r; address = line c (pk_addr pkt) in
      asrt TSeq_cc 872 (m_failedCallback s)
        (if pk_isWrite pkt \<and> config_allowEarlyValueFwd (xm s) \<and> \<not> isBlockConsumed c (xm s) address \<and> pk_validation pkt
         then Inr s
         else
           rbind (failed_code c pkt s) (\<lambda>pkt1.
           rbind (if sr_type r = Locked_RMW_Read
                  then asrt TSeq_cc 899 (address \<in> set (blocked s)) (Inr (s\<lparr>blocked := removeAll address (blocked s)\<rparr>))
                  else asrt TSeq_cc 905 (address \<notin> set (blocked s)) (Inr s)) (\<lambda>s1.
             let pkt2 = pkt1\<lparr>pk_failedAccess := True\<rparr>; s2 = checkForStall pkt2 s1 in
             if config_allowEarlyValueFwd (xm s2) \<and> pk_validation pkt2 then Inr s2
             else failedCallbackCleanup c pkt2 (respond pkt2 s2)))))"

section \<open>Successful accesses\<close>

definition handleTransactionalWrite :: "htm_params \<Rightarrow> packet \<Rightarrow> seq \<Rightarrow> seq res" where
  "handleTransactionalWrite c pkt s =
     asrt TSeq_cc 1189 (pk_isWrite pkt)
      (asrt TSeq_cc 1190 (isHtmTransactional pkt)
       (asrt TSeq_cc 1191 (inTransaction (xm s))
        (rbind (checkWriteSignature c (xm s) (pk_addr pkt)) (\<lambda>w.
         rbind (if w then Inr s
                else rbind (isolateTransactionStore c (pk_addr pkt) (xm s)) (\<lambda>w1. Inr (s\<lparr>xm := w1\<rparr>))) (\<lambda>s1.
           if pk_hasPC pkt then asrt TSeq_cc 1209 (pk_vaddr pkt \<noteq> None) (Inr s1)
           else
             asrt TSeq_cc 1211 (lazy_vm c \<and> \<not> eager_cd c)
              (asrt TSeq_cc 1213 (m_atCommit (xm s1))
               (asrt TSeq_cc 1215 (length (pk_data pkt) = block_bytes c) (Inr s1))))))))"

definition is_read_type :: "RubyRequestType \<Rightarrow> bool" where
  "is_read_type t \<longleftrightarrow> t \<in> {LD, Load_Linked, Locked_RMW_Read, RMW_Read, IFETCH}"

definition handleTransactionalRead :: "SequencerRequest \<Rightarrow> seq \<Rightarrow> packet res" where
  "handleTransactionalRead r s =
     (let pkt = sr_pkt r in
      asrt TSeq_cc 1229 (is_read_type (sr_type r))
       (asrt TSeq_cc 1235 (isHtmTransactional pkt)
        (asrt TSeq_cc 1237 (pk_hasPC pkt)
         (if isAborting (xm s) then
            rbind (getHtmTransactionalReqResponseCode (xm s)) (\<lambda>reason.
              asrt TSeq_cc 1249 (reason \<noteq> NO_FAIL \<or> isCancelledTransaction (xm s))
                (Inr (setHtmTransactionFailedInCache reason pkt)))
          else Inr pkt))))"

text \<open>
  The access to a forwarded block. The result has whether the callback ends here, which it does for
  a validation.
\<close>

definition hit_forwarded :: "htm_params \<Rightarrow> packet \<Rightarrow> seq \<Rightarrow> (bool \<times> packet \<times> seq) res" where
  "hit_forwarded c pkt s =
     (let addr = line c (pk_addr pkt) in
      if \<not> config_allowEarlyValueFwd (xm s) then Inr (False, pkt, s)
      else if pk_validation pkt then
        asrt TSeq_cc 969 (length (pk_data pkt) = block_bytes c)
          (if isAborting (xm s) \<or> isBlockConsumed c (xm s) addr then Inr (True, pkt, s)
           else rbind (getHtmTransactionUid pkt) (\<lambda>u.
             if inTransaction (xm s) \<and> u = tim_currentHtmUid (xm s) then Inr (True, pkt, s)
             else asrt TSeq_cc 994 (u \<le> m_lastAbortHtmUid s) (Inr (True, pkt, s))))
      else if isBlockConsumed c (xm s) addr then
        rbind (getOffset (block_size_bits c) (pk_addr pkt)) (\<lambda>off.
        rbind (setAccessOnForwardBlock addr (unat off) (length (pk_data pkt)) (pk_isWrite pkt) (xm s)) (\<lambda>w.
          Inr (False, pkt\<lparr>pk_forwarded := True\<rparr>, s\<lparr>xm := w\<rparr>)))
      else if isBlockProduced c (xm s) addr then
        rbind (setAccessOnProducedBlock addr (pk_isWrite pkt) (xm s)) (\<lambda>w. Inr (False, pkt, s\<lparr>xm := w\<rparr>))
      else Inr (False, pkt, s))"

definition hit_unstall :: "packet \<Rightarrow> seq \<Rightarrow> seq res" where
  "hit_unstall pkt s =
     (if m_stalled (xm s) \<and> pk_atLSQHead pkt \<and> \<not> isAborting (xm s)
         \<and> (\<not> isHtmTransactional pkt \<or> Some (m_lastAbortHtmUid s) \<noteq> pk_uid pkt)
      then asrt TSeq_cc 1049 (isHtmTransactional pkt \<longrightarrow> inTransaction (xm s))
             (Inr (s\<lparr>xm := (xm s)\<lparr>m_stalled := False\<rparr>\<rparr>))
      else Inr s)"

text \<open>How a transactional access goes on: it is done, or it reaches the cache with or without the bypass.\<close>

datatype hit_next = HitDone DataBlock | HitCache bool

definition hit_transactional ::
    "htm_params \<Rightarrow> seq_env \<Rightarrow> SequencerRequest \<Rightarrow> DataBlock \<Rightarrow> seq \<Rightarrow> (hit_next \<times> packet \<times> seq) res" where
  "hit_transactional c e r data s =
     (let pkt = sr_pkt r; rd = is_read_type (sr_type r) in
      if \<not> isHtmTransactional pkt then Inr (HitCache False, pkt, s)
      else
        rbind (if rd then rbind (handleTransactionalRead r s) (\<lambda>p. Inr (p, s))
               else rbind (handleTransactionalWrite c pkt s) (\<lambda>s1. Inr (pkt, s1))) (\<lambda>(pkt1, s1).
          if lazy_vm c \<and> \<not> eager_cd c then
            (if m_atCommit (xm s1) then
               (if rd then Inr (HitDone data, pkt1, s1)
                else rbind (tim_mergeDataFromWriteBuffer c (env_issue e) (pk_addr pkt1) data (xm s1)) (\<lambda>(d, w).
                       Inr (HitDone d, pkt1, s1\<lparr>xm := w\<rparr>)))
             else if rd then Inr (HitCache True, pkt1, s1)
             else Inl (AssertFail TSeq_cc 1127))
          else Inr (HitCache False, pkt1, s1)))"

definition hit_checkers :: "htm_params \<Rightarrow> SequencerRequest \<Rightarrow> packet \<Rightarrow> DataBlock \<Rightarrow> seq \<Rightarrow> seq res" where
  "hit_checkers c r pkt data s =
     rbind (if \<not> value_checker c then Inr s
            else if pk_isWrite pkt then
              rbind (notifyWrite c (m_version (xm s)) (isHtmTransactional pkt) (pk_addr pkt) (pk_data pkt) (xvc (xm s))) (\<lambda>x.
                Inr (s\<lparr>xm := (xm s)\<lparr>xvc := x\<rparr>\<rparr>))
            else
              rbind (getOffset (block_size_bits c) (pk_addr pkt)) (\<lambda>off.
              rbind (getData (block_bytes c) data (unat off) (length (pk_data pkt))) (\<lambda>bs.
              rbind (xactValueCheck (m_version (xm s)) (pk_addr pkt) bs (xvc (xm s))) (\<lambda>passed.
                if passed then Inr s else Inl (PanicAt TSeq_cc 1155))))) (\<lambda>s1.
     if isolation_checker c \<and> \<not> isAborting (xm s1) then
       rbind (checkXACTIsolation c (m_version (xm s1)) (pk_addr pkt) (isHtmTransactional pkt) (sr_type r) (xic (xm s1))) (\<lambda>passed.
         if passed then Inr s1 else Inl (PanicAt TSeq_cc 1166))
     else Inr s1)"

text \<open>The callback of an access of the program, after the interception of stores to the log.\<close>

definition hit_program :: "htm_params \<Rightarrow> seq_env \<Rightarrow> hit_fun" where
  "hit_program c e r data llscSuccess s =
     rbind (hit_unstall (sr_pkt r) s) (\<lambda>s1.
     rbind (hit_transactional c e r data s1) (\<lambda>(nxt, pkt, s2).
       case nxt of
         HitDone d \<Rightarrow> Inr (d, s2)
       | HitCache bypass \<Rightarrow>
           rbind (hit_checkers c r pkt data s2) (\<lambda>s3.
           rbind (base_hitCallback c (env_amoArch e) r pkt data llscSuccess s3) (\<lambda>(pkt1, d, s4).
             if bypass then
               rbind (bypassLoadFromWriteBuffer c (pk_isInstFetch pkt1) (isHtmTransactional pkt1) (pk_addr pkt1)
                        (pk_data pkt1) d (xm s4)) (\<lambda>(bs, w).
                 Inr (d, respond (pkt1\<lparr>pk_data := bs\<rparr>) (s4\<lparr>xm := w\<rparr>)))
             else Inr (d, respond pkt1 s4)))))"

section \<open>Completed stores to the log\<close>

text \<open>The data a store to the log leaves in its block, with the record of its program store.\<close>

definition log_write :: "htm_params \<Rightarrow> packet \<Rightarrow> LogRequestInfo \<Rightarrow> DataBlock \<Rightarrow> DataBlock res" where
  "log_write c pkt log data =
     (if pk_id pkt = pk_id (logAddrPkt log) then
        asrt TSeq_cc 1482 (bytes_addr (pk_data pkt) = line c (log_vaddr log))
          (rbind (getOffset (block_size_bits c) (pk_addr pkt)) (\<lambda>off.
             setData (pk_data pkt) (unat off) (length (pk_data pkt)) data))
      else
        asrt TSeq_cc 1491 (pk_id pkt = pk_id (logDataPkt log))
         (asrt TSeq_cc 1492 (length (pk_data pkt) = block_bytes c)
           (setData (pk_data pkt) 0 (block_bytes c) data)))"

text \<open>Both stores are done: the line is unlocked and the program store completes in its cached block.\<close>

definition log_done :: "htm_params \<Rightarrow> hit_fun \<Rightarrow> addr \<Rightarrow> addr \<Rightarrow> DataBlock \<Rightarrow> seq \<Rightarrow> seq res" where
  "log_done c hit address store_addr data s =
     rbind (cache_setHtmLogPending c store_addr False (dcache (xm s))) (\<lambda>m.
     rbind (tryCacheAccess c store_addr ST m) (\<lambda>blk.
       case blk of
         None \<Rightarrow> Inl (AssertFail TSeq_cc 1512)
       | Some storeData \<Rightarrow>
           rbind (base_writeCallback c hit store_addr False storeData (set_dcache m s)) (\<lambda>(d, s1).
             let s2 = (case smap_find (dcache (xm s1)) store_addr of
                         None \<Rightarrow> s1
                       | Some entry \<Rightarrow> set_dcache (smap_assign store_addr (entry\<lparr>m_DataBlk := d\<rparr>) (dcache (xm s1))) s1) in
             rbind (if value_checker c
                    then rbind (notifyLoggedDataBlock c (m_version (xm s2)) address data (xvc (xm s2))) (\<lambda>x.
                           Inr (s2\<lparr>xm := (xm s2)\<lparr>xvc := x\<rparr>\<rparr>))
                    else Inr s2) (\<lambda>s3.
               asrt TSeq_cc 1522 (smap_find (m_logRequestTable s3) store_addr \<noteq> None)
                 (Inr (s3\<lparr>m_logRequestTable := smap_erase store_addr (m_logRequestTable s3)\<rparr>))))))"

definition handleStoresToLog :: "htm_params \<Rightarrow> hit_fun \<Rightarrow> addr \<Rightarrow> packet \<Rightarrow> DataBlock \<Rightarrow> seq \<Rightarrow> (DataBlock \<times> seq) res" where
  "handleStoresToLog c hit address pkt data s =
     asrt TSeq_cc 1463 (pk_isWrite pkt)
       (rbind (getHtmLoggedStoreAddr pkt) (\<lambda>la.
          let store_addr = line c la in
          case smap_find (m_logRequestTable s) store_addr of
            None \<Rightarrow> Inl (AssertFail TSeq_cc 1465)
          | Some l \<Rightarrow>
              asrt TSeq_cc 1468 (length l = 1)
                (let log = (last l)\<lparr>log_outstanding := log_outstanding (last l) - 1, log_completed := log_completed (last l) + 1\<rparr>;
                     s1 = s\<lparr>m_logRequestTable := smap_assign store_addr [log] (m_logRequestTable s)\<rparr> in
                 rbind (log_write c pkt log data) (\<lambda>d.
                   if log_outstanding log = 0 \<and> log_completed log = 2
                   then rbind (log_done c hit address store_addr d s1) (\<lambda>s2. Inr (d, s2))
                   else Inr (d, s1)))))"

text \<open>
  The callback of the last store to the log calls the write callback of the program store, so a
  callback may nest; the first argument bounds the depth. \<open>hit_depth_enough\<close> in \<open>Seq_Typing\<close> shows
  that in a well-typed table every positive bound gives the same result.
\<close>

fun hitCallback :: "nat \<Rightarrow> htm_params \<Rightarrow> seq_env \<Rightarrow> hit_fun" where
  "hitCallback depth c e r data llscSuccess s =
     (if m_failedCallback s then rbind (handleFailedCallback c r s) (\<lambda>s1. Inr (data, s1))
      else
        rbind (hit_forwarded c (sr_pkt r) s) (\<lambda>(fin, pkt, s1).
          if fin then Inr (data, s1)
          else if pk_toLog pkt \<noteq> None then
            (case depth of
               0 \<Rightarrow> Inl (UndefinedAt TSeq_cc 1037)
             | Suc d \<Rightarrow> handleStoresToLog c (hitCallback d c e) (line c (pk_addr pkt)) pkt data s1)
          else hit_program c e (r\<lparr>sr_pkt := pkt\<rparr>) data llscSuccess s1))"

declare hitCallback.simps [simp del]

abbreviation hit_depth :: nat where
  "hit_depth \<equiv> 2"

end
