(* ===== verification/Tx_Commands.thy ===== *)
theory Tx_Commands
  imports Tx_Sequencer
begin

text \<open>
  The entry points of the sequencer (\<^verbatim>\<open>mem/ruby/system/TransactionalSequencer.cc\<close>): requests and
  transactional commands of the processor, and the callbacks of the cache.
\<close>

section \<open>Transactional commands\<close>

definition seq_abortTransaction :: "htm_params \<Rightarrow> seq_env \<Rightarrow> packet \<Rightarrow> seq \<Rightarrow> seq res" where
  "seq_abortTransaction c e pkt s =
     asrt TSeq_cc 75 (isAborting (xm s) \<or> pk_cmd pkt = Some HTMAbort)
       (rbind (abortTransaction c (env_downgrade e) (pk_htm pkt) ((xm s)\<lparr>m_stalled := False\<rparr>)) (\<lambda>w.
        rbind (getHtmTransactionUid pkt) (\<lambda>u.
          let s1 = suppressOutstandingRequests (s\<lparr>xm := w, m_lastAbortHtmUid := u\<rparr>) in
          asrt TSeq_cc 83 (lazy_vm c \<or> m_logRequestTable s1 = [])
            (case outstandingTransLockedRMWAccesses s1 of
               [] \<Rightarrow> Inr s1
             | (a, _) # rest \<Rightarrow>
                 asrt TSeq_cc 88 (rest = [])
                   (Inr (s1\<lparr>blocked := removeAll a (blocked s1), outstandingTransLockedRMWAccesses := []\<rparr>))))))"

text \<open>The commit command is tried again by an event, which is scheduled when it has a packet.\<close>

definition schedule_commit_check :: "packet \<Rightarrow> seq \<Rightarrow> seq" where
  "schedule_commit_check pkt s =
     (if lazyCommitCheckEvent s = None then s\<lparr>lazyCommitCheckEvent := Some pkt\<rparr> else s)"

text \<open>A command while the abort flag is set: only the abort itself is executed.\<close>

definition event_aborting :: "htm_params \<Rightarrow> seq_env \<Rightarrow> packet \<Rightarrow> seq \<Rightarrow> seq res" where
  "event_aborting c e pkt s =
     (if pk_cmd pkt = Some HTMAbort then seq_abortTransaction c e pkt s
      else if \<not> m_commitPending s then Inr s
      else
        asrt TSeq_cc 125 (pk_cmd pkt = Some HTMCommit)
          (rbind (canCommitTransaction c (xm s)) (\<lambda>can.
             Inr (if can then s\<lparr>m_commitPending := False\<rparr> else schedule_commit_check pkt s))))"

definition event_commit :: "htm_params \<Rightarrow> seq_env \<Rightarrow> packet \<Rightarrow> seq \<Rightarrow> seq res" where
  "event_commit c e pkt s =
     rbind (canCommitTransaction c (xm s)) (\<lambda>can.
       if can then
         rbind (commitTransaction c (xm s)) (\<lambda>w.
           Inr (s\<lparr>xm := w\<lparr>m_stalled := False\<rparr>, m_commitPending := False\<rparr>))
       else
         rbind (initiateCommitTransaction c (env_issue e) (env_mgrs e) (remotes s) (xm s)) (\<lambda>(rs, w).
           Inr (schedule_commit_check pkt (s\<lparr>xm := w, remotes := rs, m_commitPending := True\<rparr>))))"

definition event_isolate :: "htm_params \<Rightarrow> packet \<Rightarrow> seq \<Rightarrow> seq res" where
  "event_isolate c pkt s =
     (let addr = line c (pk_addr pkt) in
      rbind (checkReadSignature c (xm s) addr) (\<lambda>r.
        if \<not> precise_read_set_tracking c \<and> \<not> r then Inl (PanicAt TSeq_cc 234)
        else
          rbind (if r then Inr s
                 else asrt TSeq_cc 243 (precise_read_set_tracking c)
                   (rbind (isolateTransactionLoad c addr (xm s)) (\<lambda>w.
                    rbind (inRetiredReadSet c (iso w) addr) (\<lambda>ret.
                      asrt TSeq_cc 255 (\<not> ret) (Inr (s\<lparr>xm := w\<rparr>)))))) (\<lambda>s1.
          rbind (inRetiredReadSet c (iso (xm s1)) addr) (\<lambda>ret.
            if ret then Inr s1
            else rbind (addToRetiredReadSet c addr (xm s1)) (\<lambda>w. Inr (s1\<lparr>xm := w\<rparr>))))))"

definition notifyXactionEvent :: "htm_params \<Rightarrow> seq_env \<Rightarrow> packet \<Rightarrow> seq \<Rightarrow> seq res" where
  "notifyXactionEvent c e pkt s =
     (if isAborting (xm s) then event_aborting c e pkt s
      else case pk_cmd pkt of
        Some HTMStart \<Rightarrow> rbind (beginTransaction c (pk_htm pkt) (xm s)) (\<lambda>w. Inr (s\<lparr>xm := w\<rparr>))
      | Some HTMCommit \<Rightarrow> event_commit c e pkt s
      | Some HTMCancel \<Rightarrow> rbind (cancelTransaction (xm s)) (\<lambda>w. Inr (s\<lparr>xm := w\<rparr>))
      | Some HTMAbort \<Rightarrow>
          if pkt_abortCause (pk_htm pkt) \<in> {LSQ, EXCEPTION, INTERRUPT, DISABLED}
          then seq_abortTransaction c e pkt s else Inl (PanicAt TSeq_cc 208)
      | Some HTMIsolate \<Rightarrow> event_isolate c pkt s
      | None \<Rightarrow> Inl (PanicAt TSeq_cc 274))"

text \<open>
  The answer to a command or to an access that finds the transaction aborting. A pending commit is
  not answered.
\<close>

definition response_bytes :: "HtmCacheFailure \<Rightarrow> packet \<Rightarrow> byte list" where
  "response_bytes code pkt = (replicate (length (pk_data pkt)) 0)[0 := of_nat (cache_failure_code code)]"

definition rubyHtmCallback :: "packet \<Rightarrow> seq \<Rightarrow> seq res" where
  "rubyHtmCallback pkt s =
     rbind (if pk_cmd pkt \<noteq> None then Inr ()
            else asrt TSeq_cc 426 (isHtmTransactional pkt)
              (asrt TSeq_cc 427 (isAborting (xm s) \<or> pk_uid pkt = Some (m_lastAbortHtmUid s)) (Inr ()))) (\<lambda>_.
       if \<not> pk_needsResponse pkt then Inr s
       else
         rbind (if pk_isRead pkt \<and> \<not> pk_isInstFetch pkt \<and> pk_cmd pkt \<noteq> Some HTMStart then
                  (if m_commitPending s
                   then asrt TSeq_cc 455 (pk_cmd pkt = Some HTMCommit) (Inr None)
                   else rbind (getHtmTransactionalReqResponseCode (xm s)) (\<lambda>code. Inr (Some code)))
                else Inr (Some NO_FAIL)) (\<lambda>response_code.
           Inr (case response_code of
                  None \<Rightarrow> s
                | Some code \<Rightarrow>
                    respond (setHtmTransactionFailedInCache code (pkt\<lparr>pk_data := response_bytes code pkt\<rparr>)) s)))"

section \<open>Requests of the processor\<close>

text \<open>An access to the undo log; the result says whether it needs no access to the cache.\<close>

definition interceptLogAccess :: "htm_params \<Rightarrow> packet \<Rightarrow> seq \<Rightarrow> (bool \<times> seq) res" where
  "interceptLogAccess c pkt s =
     asrt TSeq_cc 1694 (\<not> lazy_vm c)
       (case pk_vaddr pkt of
          None \<Rightarrow> Inl (AssertFail TSeq_cc 1696)
        | Some vaddr \<Rightarrow>
            if \<not> isAccessToLog (evm (xm s)) vaddr then Inr (False, s)
            else
              rbind (if m_initStatus (evm (xm s)) \<noteq> Ready then
                       rbind (setupLogTranslation vaddr (pk_addr pkt) (evm (xm s))) (\<lambda>v.
                         Inr (False, s\<lparr>xm := (xm s)\<lparr>evm := v\<rparr>\<rparr>))
                     else if isUnrollingLog c (xm s) then
                       rbind (isEndLogUnrollSignal (Some vaddr) (pk_isWrite pkt) (bytes_addr (pk_data pkt)) (evm (xm s))) (\<lambda>fin.
                         if fin then
                           asrt TSeq_cc 1708 (pk_isWrite pkt)
                             (rbind (endLogUnroll c (xm s)) (\<lambda>w. Inr (True, s\<lparr>xm := w\<rparr>)))
                         else asrt TSeq_cc 1719 (\<not> pk_isWrite pkt) (Inr (False, s)))
                     else Inr (False, s)) (\<lambda>(fin, s1).
                if fin then Inr (True, s1)
                else
                  rbind (translateLogAddress vaddr (evm (xm s1))) (\<lambda>paddr.
                    if pk_addr pkt \<noteq> paddr then Inl (PanicAt TSeq_cc 1736) else Inr (False, s1))))"

text \<open>The interception of accesses to the fallback lock and to the log.\<close>

definition intercept_vaddr :: "htm_params \<Rightarrow> packet \<Rightarrow> seq \<Rightarrow> (bool \<times> seq) res" where
  "intercept_vaddr c pkt s =
     (case pk_vaddr pkt of
        None \<Rightarrow> Inr (False, s)
      | Some v \<Rightarrow>
          if v = fallbackLockVAddr s then
            rbind (setFallbackLockPAddr (fallbackLockPAddr (xm s)) (pk_addr pkt)) (\<lambda>a.
              Inr (False, s\<lparr>xm := (xm s)\<lparr>fallbackLockPAddr := a\<rparr>\<rparr>))
          else if \<not> lazy_vm c then interceptLogAccess c pkt s
          else Inr (False, s))"

text \<open>
  A transactional access with lazy versioning and lazy conflict detection: a store goes to the write
  buffer unless the transaction is committing, and a load that prepares a store is a plain load.
\<close>

datatype lazy_next = LazyDone RequestStatus | LazyCache packet

definition lazy_access :: "htm_params \<Rightarrow> packet \<Rightarrow> seq \<Rightarrow> (lazy_next \<times> seq) res" where
  "lazy_access c pkt s =
     (if \<not> (lazy_vm c \<and> \<not> eager_cd c \<and> isHtmTransactional pkt) then Inr (LazyCache pkt, s)
      else if pk_isWrite pkt then
        (if m_atCommit (xm s) then Inr (LazyCache pkt, s)
         else if writeBufferHitEvent s \<noteq> None then Inr (LazyDone RS_BufferFull, s)
         else rbind (redirectStoreToWriteBuffer c (pk_addr pkt) (pk_data pkt) (xm s)) (\<lambda>w.
                Inr (LazyDone RS_Issued, s\<lparr>xm := w, writeBufferHitEvent := Some pkt\<rparr>)))
      else if pk_isLockedRMW pkt then Inl (PanicAt TSeq_cc 789)
      else Inr (LazyCache (if pk_isRead pkt then pkt\<lparr>pk_storeCheck := False\<rparr> else pkt), s))"

definition makeRequest :: "htm_params \<Rightarrow> seq_env \<Rightarrow> packet \<Rightarrow> seq \<Rightarrow> (RequestStatus \<times> seq) res" where
  "makeRequest c e pkt s =
     (if pk_cmd pkt \<noteq> None then
        rbind (notifyXactionEvent c e pkt s) (\<lambda>s1.
        rbind (rubyHtmCallback pkt s1) (\<lambda>s2. Inr (RS_Issued, s2)))
      else if isHtmTransactional pkt \<and> (isAborting (xm s) \<or> pk_uid pkt = Some (m_lastAbortHtmUid s)) then
        (if m_commitPending s then Inl (PanicAt TSeq_cc 724)
         else asrt TSeq_cc 726 (m_failedStorePkt s = None)
           (rbind (rubyHtmCallback pkt s) (\<lambda>s1. Inr (RS_Issued, s1))))
      else
        rbind (intercept_vaddr c pkt s) (\<lambda>(noaccess, s1).
          if noaccess then Inr (RS_Issued, respond pkt s1)
          else
            rbind (lazy_access c pkt s1) (\<lambda>(nxt, s2).
              case nxt of
                LazyDone status \<Rightarrow> Inr (status, s2)
              | LazyCache pkt1 \<Rightarrow> base_makeRequest c pkt1 s2)))"

section \<open>Events\<close>

definition writeBufferEvent :: "seq \<Rightarrow> seq res" where
  "writeBufferEvent s =
     (case writeBufferHitEvent s of
        None \<Rightarrow> Inl (AssertFail TSeq_hh 178)
      | Some pkt \<Rightarrow> Inr (respond pkt (s\<lparr>writeBufferHitEvent := None\<rparr>)))"

definition lazyCommitEvent :: "htm_params \<Rightarrow> seq_env \<Rightarrow> seq \<Rightarrow> seq res" where
  "lazyCommitEvent c e s =
     (case lazyCommitCheckEvent s of
        None \<Rightarrow> Inl (AssertFail TSeq_hh 205)
      | Some pkt \<Rightarrow> rbind (makeRequest c e pkt (s\<lparr>lazyCommitCheckEvent := None\<rparr>)) (\<lambda>(_, s1). Inr s1))"

text \<open>
  The validation of a consumed block is a physical store of the current transaction; the contents
  of its freshly allocated data are never read.
\<close>

definition validation_packet :: "htm_params \<Rightarrow> addr \<Rightarrow> htm_packet \<Rightarrow> seq \<Rightarrow> packet" where
  "validation_packet c addr h s =
     (physical_write (next_pkt s) addr (replicate (block_bytes c) 0) h)
       \<lparr>pk_uid := Some (tim_currentHtmUid (xm s)), pk_validation := True\<rparr>"

definition validateConsumedData :: "htm_params \<Rightarrow> seq_env \<Rightarrow> htm_packet \<Rightarrow> addr \<Rightarrow> seq \<Rightarrow> seq res" where
  "validateConsumedData c e h addr s =
     (if isAborting (xm s) then Inr s
      else
        rbind (makeRequest c e (validation_packet c addr h s) (s\<lparr>next_pkt := next_pkt s + 1\<rparr>)) (\<lambda>(status, s1).
          if status \<noteq> RS_Issued \<and> status \<noteq> RS_Aliased
          then rbind (scheduleValidationOfConsumedData c addr True (xm s1)) (\<lambda>w. Inr (s1\<lparr>xm := w\<rparr>))
          else Inr s1))"

section \<open>Callbacks of the cache\<close>

text \<open>The request that decides how a write callback goes on.\<close>

definition write_leader :: "bool \<Rightarrow> SequencerRequest list \<Rightarrow> SequencerRequest" where
  "write_leader spec l =
     (if spec \<and> length l > 1
      then (case find (\<lambda>r. sr_type r = Locked_RMW_Read) l of None \<Rightarrow> hd l | Some r \<Rightarrow> r) else hd l)"

definition is_rmw_read :: "SequencerRequest \<Rightarrow> bool" where
  "is_rmw_read r \<longleftrightarrow> sr_type r = RMW_Read \<or> sr_type r = Locked_RMW_Read"

definition track_locked :: "bool \<Rightarrow> RubyRequestType \<Rightarrow> addr \<Rightarrow> seq \<Rightarrow> seq res" where
  "track_locked tx type address s =
     (let m = outstandingTransLockedRMWAccesses s; n = (case smap_find m address of None \<Rightarrow> 0 | Some k \<Rightarrow> k) in
      if tx \<and> type = Locked_RMW_Read
      then asrt TSeq_cc 1610 (n = 0) (Inr (s\<lparr>outstandingTransLockedRMWAccesses := smap_assign address (n + 1) m\<rparr>))
      else if tx \<and> type = Locked_RMW_Write
      then asrt TSeq_cc 1614 (n = 1) (Inr (s\<lparr>outstandingTransLockedRMWAccesses := smap_erase address m\<rparr>))
      else Inr s)"

definition track_unroll :: "htm_params \<Rightarrow> addr \<Rightarrow> DataBlock \<Rightarrow> seq \<Rightarrow> seq res" where
  "track_unroll c address data s =
     (if \<not> lazy_vm c \<and> value_checker c \<and> isUnrollingLog c (xm s) then
        rbind (checkWriteSignature c (xm s) address) (\<lambda>w.
          if w then rbind (notifyUnrolledDataBlock c (m_version (xm s)) address data (xvc (xm s))) (\<lambda>x.
                      Inr (s\<lparr>xm := (xm s)\<lparr>xvc := x\<rparr>\<rparr>))
          else Inr s)
      else Inr s)"

definition writeCallback :: "htm_params \<Rightarrow> seq_env \<Rightarrow> addr \<Rightarrow> bool \<Rightarrow> DataBlock \<Rightarrow> seq \<Rightarrow> (DataBlock \<times> seq) res" where
  "writeCallback c e address noCoales data s0 =
     asrt TSeq_cc 1534 (\<not> m_failedCallback s0)
      (asrt TSeq_cc 1535 (address = line c address)
       (asrt TSeq_cc 1536 (smap_find (m_RequestTable s0) address \<noteq> None)
        (let spec = config_allowEarlyValueFwd (xm s0) \<and> isBlockConsumed c (xm s0) address;
             s = s0\<lparr>m_specCallback := spec\<rparr>; l = reqs address s; hit = hitCallback hit_depth c e in
         asrt TSeq_cc 1540 (l \<noteq> [])
          (if spec \<and> \<not> pk_isWrite (sr_pkt (hd l)) \<and> \<not> is_rmw_read (hd l) then
             rbind (base_readCallback c hit address data s) (\<lambda>(d, s1).
             rbind (isolateTransactionStore c address (xm s1)) (\<lambda>w. Inr (d, s1\<lparr>xm := w\<rparr>)))
           else
             let r = write_leader spec l in
             asrt TSeq_cc 1576 (pk_isWrite (sr_pkt r) \<or> is_rmw_read r)
               (rbind (if isHtmTransactional (sr_pkt r) \<and> \<not> lazy_vm c
                       then logTransactionalStores c (sr_pkt r) address data s else Inr (False, s)) (\<lambda>(skip, s1).
                  if skip then Inr (data, s1)
                  else
                    rbind (base_writeCallback c hit address noCoales data s1) (\<lambda>(d, s2).
                    rbind (track_locked (isHtmTransactional (sr_pkt r)) (sr_type r) address s2) (\<lambda>s3.
                    rbind (track_unroll c address d s3) (\<lambda>s4. Inr (d, s4))))))))))"

definition readCallback :: "htm_params \<Rightarrow> seq_env \<Rightarrow> addr \<Rightarrow> DataBlock \<Rightarrow> seq \<Rightarrow> (DataBlock \<times> seq) res" where
  "readCallback c e address data s =
     base_readCallback c (hitCallback hit_depth c e) address data
       (s\<lparr>m_specCallback := config_allowEarlyValueFwd (xm s) \<and> isBlockConsumed c (xm s) address\<rparr>)"

definition end_failed :: "(DataBlock \<times> seq) res \<Rightarrow> (DataBlock \<times> seq) res" where
  "end_failed x = rbind x (\<lambda>(d, s). Inr (d, s\<lparr>m_failedCallback := False\<rparr>))"

definition invalidCallback :: "htm_params \<Rightarrow> seq_env \<Rightarrow> addr \<Rightarrow> bool \<Rightarrow> DataBlock \<Rightarrow> seq \<Rightarrow> (DataBlock \<times> seq) res" where
  "invalidCallback c e address write data s =
     asrt TSeq_cc 1640 (config_allowEarlyValueFwd (xm s)
                        \<and> (\<not> inTransaction (xm s) \<or> (isBlockConsumed c (xm s) address \<and> isAborting (xm s))))
       (rbind (seq_getPacketFromRequestTable c address s) (\<lambda>pkt.
          asrt TSeq_cc 1650 (pk_validation pkt)
            (let s1 = s\<lparr>m_failedCallback := True\<rparr>; hit = hitCallback hit_depth c e in
             end_failed (if write then base_writeCallback c hit address False data s1
                         else base_readCallback c hit address data s1))))"

text \<open>A request that another processor refused, with what the refusal says of the refuser.\<close>

record nack =
  nack_timestamp :: nat
  nack_trans :: TransactionBit
  nack_priority :: int
  nack_sw_priority :: bool
  nack_from :: MachineID

definition failed_notify :: "htm_params \<Rightarrow> addr \<Rightarrow> nack \<Rightarrow> packet \<Rightarrow> seq \<Rightarrow> seq res" where
  "failed_notify c address n pkt s =
     (if config_allowEarlyValueFwd (xm s) \<and> isBlockConsumed c (xm s) address then
        (if isAborting (xm s) then Inr s
         else rbind (setAbortFlag c address (nack_from n) (nack_trans n) 0 False (no_why\<lparr>why_wset := True\<rparr>) (xm s)) (\<lambda>w.
                Inr (s\<lparr>xm := w\<rparr>)))
      else
        rbind (getHtmTransactionUid pkt) (\<lambda>u.
          if u = m_lastAbortHtmUid s then Inr s
          else rbind (notifyReceiveNack c address (nack_timestamp n) (nack_trans n) (nack_priority n)
                        (nack_sw_priority n) (nack_from n) (xm s)) (\<lambda>w. Inr (s\<lparr>xm := w\<rparr>))))"

text \<open>A refused store is made again, without the processor, unless its transaction is aborting.\<close>

definition failed_write :: "htm_params \<Rightarrow> seq_env \<Rightarrow> addr \<Rightarrow> DataBlock \<Rightarrow> seq \<Rightarrow> (DataBlock \<times> seq) res" where
  "failed_write c e address data s =
     (let l = reqs address s; hit = hitCallback hit_depth c e in
      if list_ex (\<lambda>r. pk_isWrite (sr_pkt r)) l then
        asrt TSeq_cc 337 (m_failedStorePkt s = None)
          (if suppressed (hd l) \<or> (isAborting (xm s) \<and> isHtmTransactional (sr_pkt (hd l)))
           then base_writeCallback c hit address False data s
           else
             rbind (updateReissueTime address (s\<lparr>m_failedStorePkt := Some (pk_id (sr_pkt (hd l)))\<rparr>)) (\<lambda>s1.
             rbind (makeRequest c e (sr_pkt (hd (reqs address s1))) s1) (\<lambda>(_, s2). Inr (data, s2))))
      else asrt TSeq_cc 357 (list_ex is_rmw_read l) (base_writeCallback c hit address False data s))"

definition failedCallback ::
    "htm_params \<Rightarrow> seq_env \<Rightarrow> addr \<Rightarrow> nack \<Rightarrow> bool \<Rightarrow> DataBlock \<Rightarrow> seq \<Rightarrow> (DataBlock \<times> seq) res" where
  "failedCallback c e address n write data s =
     asrt TSeq_cc 292 (reqs address s \<noteq> [])
       (rbind (failed_notify c address n (sr_pkt (hd (reqs address s))) (s\<lparr>m_failedCallback := True\<rparr>)) (\<lambda>s1.
          end_failed (if write then failed_write c e address data s1
                      else base_readCallback c (hitCallback hit_depth c e) address data s1)))"

end
