(* ===== verification/Seq_Invariants.thy ===== *)
theory Seq_Invariants
  imports Tx_Commands
begin

text \<open>
  Invariants of the sequencer: whatever the cache and the processor do, the request table never
  outgrows its size and keeps room for the stores to the log, a pending commit is always tried
  again, and the table stays well typed.
\<close>

section \<open>What holds after a handler\<close>

definition post :: "('a \<Rightarrow> bool) \<Rightarrow> 'a res \<Rightarrow> bool" where
  "post Q r \<longleftrightarrow> (\<forall>x. r = Inr x \<longrightarrow> Q x)"

lemma postD: "post Q r \<Longrightarrow> r = Inr x \<Longrightarrow> Q x"
  by (simp add: post_def)

lemma post_Inr: "Q x \<Longrightarrow> post Q (Inr x)"
  by (simp add: post_def)

lemma post_Inl: "post Q (Inl x)"
  by (simp add: post_def)

lemma post_asrt: "(B \<Longrightarrow> post Q k) \<Longrightarrow> post Q (asrt f n B k)"
  by (simp add: post_def asrt_eq_Inr)

lemma post_rbind: "(\<And>x. r = Inr x \<Longrightarrow> post Q (f x)) \<Longrightarrow> post Q (rbind r f)"
  by (auto simp: post_def rbind_eq_Inr)

lemma post_seq: "post R r \<Longrightarrow> (\<And>x. R x \<Longrightarrow> post Q (f x)) \<Longrightarrow> post Q (rbind r f)"
  by (auto simp: post_def rbind_eq_Inr)

lemma post_if: "(B \<Longrightarrow> post Q r) \<Longrightarrow> (\<not> B \<Longrightarrow> post Q t) \<Longrightarrow> post Q (if B then r else t)"
  by simp

lemma post_prod: "(\<And>a b. p = (a, b) \<Longrightarrow> post Q (f a b)) \<Longrightarrow> post Q (case p of (a, b) \<Rightarrow> f a b)"
  by (cases p) simp

lemma post_option: "(x = None \<Longrightarrow> post Q r) \<Longrightarrow> (\<And>y. x = Some y \<Longrightarrow> post Q (f y)) \<Longrightarrow> post Q (case x of None \<Rightarrow> r | Some y \<Rightarrow> f y)"
  by (cases x) auto

lemma post_let: "post Q (f x) \<Longrightarrow> post Q (let y = x in f y)"
  by simp

lemma post_lazy_next:
  "(\<And>st. x = LazyDone st \<Longrightarrow> post Q (f st)) \<Longrightarrow> (\<And>p. x = LazyCache p \<Longrightarrow> post Q (g p))
    \<Longrightarrow> post Q (case x of LazyDone st \<Rightarrow> f st | LazyCache p \<Rightarrow> g p)"
  by (cases x) auto

lemma post_cmd:
  "(x = None \<Longrightarrow> post Q r) \<Longrightarrow> (x = Some HTMStart \<Longrightarrow> post Q r1) \<Longrightarrow> (x = Some HTMCommit \<Longrightarrow> post Q r2)
    \<Longrightarrow> (x = Some HTMCancel \<Longrightarrow> post Q r3) \<Longrightarrow> (x = Some HTMAbort \<Longrightarrow> post Q r4) \<Longrightarrow> (x = Some HTMIsolate \<Longrightarrow> post Q r5)
    \<Longrightarrow> post Q (case x of None \<Rightarrow> r | Some HTMStart \<Rightarrow> r1 | Some HTMCommit \<Rightarrow> r2 | Some HTMCancel \<Rightarrow> r3
                     | Some HTMAbort \<Rightarrow> r4 | Some HTMIsolate \<Rightarrow> r5)"
  by (auto split: option.split HtmCmd.split)

lemmas post_intros = post_Inr post_Inl post_asrt post_if post_prod post_option post_let

text \<open>The interception of an access changes the state of the manager only.\<close>

lemma intercept_xm: "post (\<lambda>x. \<exists>w. snd x = s\<lparr>xm := w\<rparr>) (intercept_vaddr c pkt s)"
proof -
  have same: "\<exists>w. s = s\<lparr>xm := w\<rparr>"
    by (rule exI [of _ "xm s"]) simp
  have "post (\<lambda>x. \<exists>w. snd x = s\<lparr>xm := w\<rparr>) (interceptLogAccess c pkt s)"
    unfolding interceptLogAccess_def
    by (intro post_asrt post_option post_Inl post_if post_Inr, simp add: same)
       (rule post_seq [where R = "\<lambda>x. \<exists>w. snd x = s\<lparr>xm := w\<rparr>"], auto intro!: post_if post_Inr post_Inl post_rbind post_asrt same)
  then show ?thesis
    unfolding intercept_vaddr_def by (auto intro!: post_option post_if post_Inr post_rbind same)
qed

text \<open>The oldest request of a line stays the same packet when its failure is noted.\<close>

lemma stall_fold_xm: "\<exists>w. fold (\<lambda>r t. checkForStall (sr_pkt r) t) l s = s\<lparr>xm := w\<rparr>"
proof (induction l arbitrary: s)
  case Nil
  then show ?case by (auto intro: exI [of _ "xm s"])
next
  case (Cons r l)
  have "\<exists>w. checkForStall (sr_pkt r) s = s\<lparr>xm := w\<rparr>"
    unfolding checkForStall_def by (auto intro: exI [of _ "xm s"])
  then obtain w where "checkForStall (sr_pkt r) s = s\<lparr>xm := w\<rparr>" by blast
  then show ?case using Cons.IH [of "s\<lparr>xm := w\<rparr>"] by auto
qed

definition reissue_ok :: "addr \<Rightarrow> seq \<Rightarrow> seq \<Rightarrow> bool" where
  "reissue_ok a s s' \<longleftrightarrow> (\<exists>w f. s' = (set_reqs a (map f (reqs a s)) s)\<lparr>xm := w\<rparr>
     \<and> (\<forall>r. pk_id (sr_pkt (f r)) = pk_id (sr_pkt r) \<and> pk_uid (sr_pkt (f r)) = pk_uid (sr_pkt r)
          \<and> pk_addr (sr_pkt (f r)) = pk_addr (sr_pkt r) \<and> pk_toLog (sr_pkt (f r)) = pk_toLog (sr_pkt r)))"

lemma smap_assign_twice: "smap_assign k v (smap_assign k v' m) = smap_assign k v m"
  by (induction m) auto

lemma set_reqs_twice: "set_reqs a l' (set_reqs a l s) = set_reqs a l' s"
  by (simp add: set_reqs_def smap_assign_twice)

lemma reissue: "post (reissue_ok a s) (updateReissueTime a s)"
proof -
  let ?f = "\<lambda>r. r\<lparr>reissue_time := curCycle (xm s)\<rparr>"
  let ?g = "\<lambda>r. (?f r)\<lparr>sr_pkt := (sr_pkt (?f r))\<lparr>pk_atLSQHead := True\<rparr>\<rparr>"
  have "reissue_ok a s (set_reqs a (map ?f (reqs a s)) s)"
    unfolding reissue_ok_def by (rule exI [of _ "xm s"], rule exI [of _ ?f]) (simp add: set_reqs_def)
  moreover have "reissue_ok a s (fold (\<lambda>r t. checkForStall (sr_pkt r) t) l (set_reqs a (map ?g (reqs a s)) s))" for l
    using stall_fold_xm [of l "set_reqs a (map ?g (reqs a s)) s"] unfolding reissue_ok_def
    by (auto intro!: exI [of _ ?g])
  ultimately show ?thesis
    unfolding updateReissueTime_def Let_def by (auto intro!: post_rbind post_if post_Inr simp: set_reqs_twice comp_def)
qed

section \<open>Properties that the callbacks keep\<close>

text \<open>
  First the callbacks of one access that is not a store to the log. A property of the sequencer
  that does not depend on the manager, on the cache or on what is answered, and that the release of a
  reservation keeps, holds after each of them.
\<close>

locale seq_answers =
  fixes c :: htm_params and P :: "seq \<Rightarrow> bool"
  assumes s_xm: "P s \<Longrightarrow> P (s\<lparr>xm := w\<rparr>)"
    and s_responses: "P s \<Longrightarrow> P (s\<lparr>responses := ps\<rparr>)"
    and s_queue: "P s \<Longrightarrow> P (s\<lparr>mandatory_q := q\<rparr>)"
    and s_blocked: "P s \<Longrightarrow> P (s\<lparr>blocked := bl\<rparr>)"
    and s_locked: "P s \<Longrightarrow> P (s\<lparr>lockedLines := ll\<rparr>)"
    and s_freed: "P s \<Longrightarrow> P (s\<lparr>m_pendingLogging := smap_erase a (m_pendingLogging s)\<rparr>)"
begin

lemma sndI: "P s \<Longrightarrow> (P \<circ> snd) (a, s)"
  by simp

lemma respond_P: "P s \<Longrightarrow> P (respond pkt s)"
  unfolding respond_def by (rule s_responses)

lemma set_dcache_P: "P s \<Longrightarrow> P (set_dcache m s)"
  unfolding set_dcache_def by (rule s_xm)

lemma checkForStall_P: "P s \<Longrightarrow> P (checkForStall pkt s)"
  unfolding checkForStall_def by (simp add: s_xm)

lemmas A_intros = s_xm s_responses s_queue s_blocked s_locked s_freed respond_P set_dcache_P checkForStall_P sndI

lemma issueRequest_P: "P s \<Longrightarrow> post P (issueRequest c pkt t s)"
  unfolding issueRequest_def by (intro post_rbind post_intros A_intros)

lemma cleanup_P: "P s \<Longrightarrow> post P (failedCallbackCleanup c pkt s)"
  unfolding failedCallbackCleanup_def Let_def by (intro post_rbind post_intros A_intros)

lemma handleFailedCallback_P:
  assumes "P s" shows "post P (handleFailedCallback c r s)"
proof -
  have "post P (if sr_type r = Locked_RMW_Read
                  then asrt TSeq_cc 899 B (Inr (s\<lparr>blocked := b\<rparr>)) else asrt TSeq_cc 905 B' (Inr s))" for B B' b
    by (intro post_intros A_intros assms)
  then show ?thesis
    unfolding handleFailedCallback_def Let_def
    by (intro post_asrt post_if post_Inr assms post_rbind [of "failed_code _ _ _"])
       (rule post_seq, assumption, intro post_if post_Inr cleanup_P A_intros)
qed

lemma llsc_P:
  assumes "P s"
  shows "post P (llscLoadLinked c a s)" "post P (llscClearMonitor c a s)" "post (P \<circ> snd) (llscStoreConditional c a s)"
  using assms unfolding llscLoadLinked_def llscClearMonitor_def llscStoreConditional_def
  by (auto intro!: post_rbind post_Inr A_intros split: option.split)

lemma write_prepare_P:
  assumes "P s" shows "post (P \<circ> snd \<circ> snd) (write_prepare c a r s)"
proof -
  have "post (P \<circ> snd \<circ> snd) (if sr_type r \<noteq> Store_Conditional
            then rbind (llscClearMonitor c a s) (\<lambda>s1. Inr (True, r, s1))
            else rbind (llscStoreConditional c a s) (\<lambda>(ok, s1). Inr (ok, f ok, s1)))" for f :: "bool \<Rightarrow> SequencerRequest"
    using llsc_P(2) [OF assms, of a] llsc_P(3) [OF assms, of a]
    by (auto intro!: post_Inr elim!: post_seq)
  then show ?thesis
    unfolding write_prepare_def by (rule post_seq) (auto intro!: post_Inr A_intros)
qed

lemma hit_parts_P:
  assumes "P s"
  shows "post (P \<circ> snd \<circ> snd) (hit_forwarded c pkt s)" "post P (hit_unstall pkt s)"
    "post P (handleTransactionalWrite c pkt s)" "post P (hit_checkers c r pkt d s)"
    "post (P \<circ> snd \<circ> snd) (base_hitCallback c amo r pkt d ok s)"
proof -
  show "post (P \<circ> snd \<circ> snd) (hit_forwarded c pkt s)" "post P (hit_unstall pkt s)"
    using assms unfolding hit_forwarded_def hit_unstall_def Let_def
    by (auto intro!: post_rbind post_Inr post_asrt post_if A_intros)
  have "post P (if w then Inr s else rbind (isolateTransactionStore c a (xm s)) (\<lambda>w1. Inr (s\<lparr>xm := w1\<rparr>)))" for w a
    by (intro post_rbind post_intros A_intros assms)
  then show "post P (handleTransactionalWrite c pkt s)"
    unfolding handleTransactionalWrite_def
    by (intro post_asrt post_rbind [of "checkWriteSignature _ _ _"]) (rule post_seq, assumption, intro post_intros)
  have "post P (if \<not> value_checker c then Inr s
            else if pk_isWrite pkt then
              rbind x (\<lambda>x. Inr (s\<lparr>xm := (xm s)\<lparr>xvc := x\<rparr>\<rparr>))
            else rbind off (\<lambda>off. rbind (f off) (\<lambda>bs. rbind (g bs) (\<lambda>passed. if passed then Inr s else Inl y))))"
    for x y off and f :: "addr \<Rightarrow> byte list res" and g
    by (intro post_rbind post_intros A_intros assms)
  then show "post P (hit_checkers c r pkt d s)"
    unfolding hit_checkers_def by (rule post_seq) (intro post_rbind post_intros)
  have "post P (if sr_type r = Load_Linked then llscLoadLinked c a s else Inr s)" for a
    by (intro post_if post_Inr llsc_P(1) assms)
  then show "post (P \<circ> snd \<circ> snd) (base_hitCallback c amo r pkt d ok s)"
    unfolding base_hitCallback_def by (rule post_seq) (auto intro!: post_rbind post_Inr)
qed

lemma hit_transactional_P:
  assumes "P s" shows "post (P \<circ> snd \<circ> snd) (hit_transactional c e r d s)"
proof -
  have "post (P \<circ> snd) (if rd then rbind (handleTransactionalRead r s) (\<lambda>p. Inr (p, s))
               else rbind (handleTransactionalWrite c pkt s) (\<lambda>s1. Inr (pkt, s1)))" for rd pkt
    by (intro post_if post_rbind [of "handleTransactionalRead _ _"] post_seq [OF hit_parts_P(3) [OF assms]] post_Inr)
       (simp_all add: assms)
  then show ?thesis
    unfolding hit_transactional_def Let_def
    by (intro post_if post_Inr) (simp add: assms, rule post_seq, assumption,
        auto intro!: post_if post_Inr post_Inl post_rbind s_xm split: prod.split)
qed

lemma hit_program_P:
  assumes "P s" shows "post (P \<circ> snd) (hit_program c e r d ok s)"
proof -
  have cache: "post (P \<circ> snd) (rbind (hit_checkers c r pkt d s2) (\<lambda>s3.
           rbind (base_hitCallback c (env_amoArch e) r pkt d ok s3) (\<lambda>(pkt1, d, s4).
             if bypass then rbind (f pkt1 d s4) (\<lambda>(bs, w). Inr (d, respond (pkt1\<lparr>pk_data := bs\<rparr>) (s4\<lparr>xm := w\<rparr>)))
             else Inr (d, respond pkt1 s4))))" if "P s2" for pkt s2 bypass f
    by (rule post_seq [OF hit_parts_P(4) [OF that]], rule post_seq [OF hit_parts_P(5)], assumption)
       (auto intro!: post_if post_rbind post_Inr respond_P s_xm)
  show ?thesis
    unfolding hit_program_def
    by (rule post_seq [OF hit_parts_P(2) [OF assms]], rule post_seq [OF hit_transactional_P], assumption)
       (auto intro!: post_Inr cache split: hit_next.split)
qed

end

text \<open>
  A property that also survives the removal of requests and that the admission of a request and the
  transactional commands keep: every entry point keeps it.
\<close>

locale seq_handlers = seq_answers +
  assumes s_table: "P s \<Longrightarrow> P (s\<lparr>m_RequestTable := t\<rparr>)"
    and s_removed: "P s \<Longrightarrow> P (markRemoved s)"
    and s_logs: "P s \<Longrightarrow> P (s\<lparr>m_logRequestTable := lt\<rparr>)"
    and s_failed: "P s \<Longrightarrow> P (s\<lparr>m_failedCallback := b\<rparr>)"
    and s_spec: "P s \<Longrightarrow> P (s\<lparr>m_specCallback := b\<rparr>)"
    and s_store: "P s \<Longrightarrow> P (s\<lparr>m_failedStorePkt := i\<rparr>)"
    and s_rmw: "P s \<Longrightarrow> P (s\<lparr>outstandingTransLockedRMWAccesses := om\<rparr>)"
    and s_buffer: "P s \<Longrightarrow> P (s\<lparr>writeBufferHitEvent := ev\<rparr>)"
    and s_next: "P s \<Longrightarrow> P (s\<lparr>next_pkt := n\<rparr>)"
    and s_make: "P s \<Longrightarrow> pk_toLog pkt = None \<or> m_failedStorePkt s = Some (pk_id pkt) \<Longrightarrow> pk_cmd pkt = None
          \<Longrightarrow> base_makeRequest c pkt s = Inr (st, s') \<Longrightarrow> P s'"
    and s_log_store: "P s \<Longrightarrow> log_store c pkt a data s = Inr (ok, s') \<Longrightarrow> P s'"
    and s_event: "P s \<Longrightarrow> notifyXactionEvent c e pkt s = Inr s' \<Longrightarrow> P s'"
begin

lemma set_reqs_P: "P s \<Longrightarrow> P (set_reqs a l s)"
  unfolding set_reqs_def by (rule s_table)

lemma erase_if_empty_P: "P s \<Longrightarrow> P (erase_if_empty a s)"
  unfolding erase_if_empty_def by (simp add: s_table)

lemmas P_intros = A_intros s_table s_removed s_logs s_failed s_spec s_store s_rmw s_buffer s_next
  set_reqs_P erase_if_empty_P

lemma write_loop_P:
  assumes hit: "\<And>r d ok s. P s \<Longrightarrow> post (P \<circ> snd) (hit r d ok s)" and "P s"
  shows "post (P \<circ> snd) (write_loop c hit a nc l rr u d s)"
  using \<open>P s\<close>
proof (induction l arbitrary: rr u d s)
  case (Cons r rs)
  have issue: "post (P \<circ> snd) (rbind (issueRequest c pkt t s) (\<lambda>s1. Inr (d, s1)))" for pkt t
    by (rule post_seq [OF issueRequest_P [OF Cons.prems]]) (intro post_intros P_intros)
  have prep: "post (P \<circ> snd \<circ> snd) (if \<not> is_load_type (sr_type r)
       then rbind (write_prepare c a r s) (\<lambda>(ok, r1, s1).
              if rr then asrt Seq_cc 428 (curCycle (xm s1) \<ge> issue_time r) (Inr (ok, r1, s1)) else Inr (ok, r1, s1))
       else asrt Seq_cc 607 (\<not> rr) (Inr (True, r, s)))"
    using Cons.prems by (auto intro!: post_Inr post_asrt post_seq [OF write_prepare_P [OF Cons.prems]])
  have rest: "post (P \<circ> snd) (rbind (hit r1 d ok (markRemoved s1)) (\<lambda>(d1, s2).
       write_loop c hit a nc rs False u' d1 (set_reqs a rs s2)))" if "P s1" for r1 ok s1 u'
    by (rule post_seq [OF hit [OF s_removed [OF that]]]) (auto intro!: Cons.IH set_reqs_P)
  show ?case
    unfolding write_loop.simps
    by (intro post_if issue post_rbind [of "if rr then _ else _"] post_seq [OF prep] post_prod rest) auto
qed (auto intro: post_Inr)

lemma read_loop_P:
  assumes hit: "\<And>r d ok s. P s \<Longrightarrow> post (P \<circ> snd) (hit r d ok s)" and "P s"
  shows "post (P \<circ> snd) (read_loop c hit a l rr u d s)"
  using \<open>P s\<close>
proof (induction l arbitrary: rr u d s)
  case (Cons r rs)
  have issue: "post (P \<circ> snd) (rbind (issueRequest c pkt t s) (\<lambda>s1. Inr (d, s1)))" for pkt t
    by (rule post_seq [OF issueRequest_P [OF Cons.prems]]) (intro post_intros P_intros)
  have rest: "post (P \<circ> snd) (rbind (hit r d True (markRemoved s)) (\<lambda>(d1, s2).
       read_loop c hit a rs False u' d1 (set_reqs a rs s2)))" for u'
    by (rule post_seq [OF hit [OF s_removed [OF Cons.prems]]]) (auto intro!: Cons.IH set_reqs_P)
  show ?case
    unfolding read_loop.simps
    by (intro post_if post_asrt issue rest post_rbind [of "if rr then _ else _"])
qed (auto intro: post_Inr)

lemma base_callbacks_P:
  assumes hit: "\<And>r d ok s. P s \<Longrightarrow> post (P \<circ> snd) (hit r d ok s)" and "P s"
  shows "post (P \<circ> snd) (base_writeCallback c hit a nc d s)" "post (P \<circ> snd) (base_readCallback c hit a d s)"
  unfolding base_writeCallback_def base_readCallback_def
  by (intro post_asrt post_seq [OF write_loop_P [OF assms]] post_seq [OF read_loop_P [OF assms]] post_prod post_Inr,
      auto intro: erase_if_empty_P)+

lemma log_done_P:
  assumes hit: "\<And>r d ok s. P s \<Longrightarrow> post (P \<circ> snd) (hit r d ok s)" and "P s"
  shows "post P (log_done c hit a sa d s)"
proof -
  have fin: "post P (rbind (if value_checker c
                    then rbind (f s2) (\<lambda>x. Inr (s2\<lparr>xm := (xm s2)\<lparr>xvc := x\<rparr>\<rparr>))
                    else Inr s2) (\<lambda>s3.
               asrt TSeq_cc 1522 (smap_find (m_logRequestTable s3) sa \<noteq> None)
                 (Inr (s3\<lparr>m_logRequestTable := smap_erase sa (m_logRequestTable s3)\<rparr>))))" if "P s2" for s2 f
  proof (rule post_seq)
    show "post P (if value_checker c then rbind (f s2) (\<lambda>x. Inr (s2\<lparr>xm := (xm s2)\<lparr>xvc := x\<rparr>\<rparr>)) else Inr s2)"
      by (intro post_rbind post_intros P_intros that)
  qed (intro post_intros P_intros)
  show ?thesis
    unfolding log_done_def Let_def
    by (intro post_rbind [of "cache_setHtmLogPending _ _ _ _"] post_rbind [of "tryCacheAccess _ _ _ _"] post_option post_Inl
        post_seq [OF base_callbacks_P(1) [OF hit set_dcache_P]] post_prod fin)
       (auto intro: set_dcache_P \<open>P s\<close> split: option.split)
qed

lemma handleStoresToLog_P:
  assumes "\<And>r d ok s. P s \<Longrightarrow> post (P \<circ> snd) (hit r d ok s)" and "P s"
  shows "post (P \<circ> snd) (handleStoresToLog c hit a pkt d s)"
  unfolding handleStoresToLog_def Let_def
  by (intro post_asrt post_rbind [of "getHtmLoggedStoreAddr _"] post_rbind [of "log_write _ _ _ _"] post_option post_Inl post_if
      post_seq [OF log_done_P [OF assms(1)]] post_Inr sndI s_logs \<open>P s\<close>)

lemma hitCallback_P: "P s \<Longrightarrow> post (P \<circ> snd) (hitCallback depth c e r d ok s)"
proof (induction depth arbitrary: r d ok s)
  case 0
  then show ?case
    unfolding hitCallback.simps [of 0]
    by (intro post_if post_seq [OF handleFailedCallback_P] post_Inr sndI post_seq [OF hit_parts_P(1)] post_prod)
       (auto intro: post_Inl post_Inr hit_program_P [unfolded comp_def])
next
  case (Suc n)
  then show ?case
    unfolding hitCallback.simps [of "Suc n"]
    by (intro post_if post_seq [OF handleFailedCallback_P] post_Inr sndI post_seq [OF hit_parts_P(1)] post_prod)
       (auto intro: post_Inl post_Inr hit_program_P [unfolded comp_def] handleStoresToLog_P [unfolded comp_def])
qed

lemma rubyHtmCallback_P: "P s \<Longrightarrow> post P (rubyHtmCallback pkt s)"
  unfolding rubyHtmCallback_def
  by (intro post_rbind post_if post_Inr) (auto intro: respond_P split: option.split)

lemma base_make_P:
  assumes "P s" "pk_toLog pkt = None \<or> m_failedStorePkt s = Some (pk_id pkt)" "pk_cmd pkt = None"
  shows "post (P \<circ> snd) (base_makeRequest c pkt s)"
  unfolding post_def by (clarsimp, rule s_make [OF assms])

lemma makeRequest_P:
  assumes "P s" and pkt: "pk_toLog pkt = None \<or> m_failedStorePkt s = Some (pk_id pkt)"
  shows "post (P \<circ> snd) (makeRequest c e pkt s)"
proof -
  have cmd: "post (P \<circ> snd) (rbind (notifyXactionEvent c e pkt s) (\<lambda>s1. rbind (rubyHtmCallback pkt s1) (\<lambda>s2. Inr (RS_Issued, s2))))"
    by (rule post_rbind, rule post_seq [OF rubyHtmCallback_P]) (auto intro: s_event [OF assms(1)] post_Inr)
  have sink: "post (P \<circ> snd) (rbind (rubyHtmCallback pkt s) (\<lambda>s1. Inr (RS_Issued, s1)))"
    by (rule post_seq [OF rubyHtmCallback_P [OF assms(1)]]) (auto intro: post_Inr)
  have lazy: "post (\<lambda>x. P (snd x) \<and> (\<forall>p. fst x = LazyCache p \<longrightarrow> pk_cmd p = None
        \<and> (pk_toLog p = None \<or> m_failedStorePkt (snd x) = Some (pk_id p)))) (lazy_access c pkt (s\<lparr>xm := w\<rparr>))"
    if "pk_cmd pkt = None" for w
    unfolding lazy_access_def
    by (intro post_if post_Inr post_Inl post_rbind) (simp_all add: that pkt s_xm s_buffer assms(1) disj_imp [symmetric])
  have rest: "post (P \<circ> snd) (rbind (lazy_access c pkt (s\<lparr>xm := w\<rparr>)) (\<lambda>(nxt, s2).
      case nxt of LazyDone status \<Rightarrow> Inr (status, s2) | LazyCache pkt1 \<Rightarrow> base_makeRequest c pkt1 s2))"
    if "pk_cmd pkt = None" for w
    by (intro post_seq [OF lazy [OF that]] post_prod post_lazy_next post_Inr base_make_P) simp_all
  have "post (P \<circ> snd) (rbind (intercept_vaddr c pkt s) (\<lambda>(noaccess, s1).
      if noaccess then Inr (RS_Issued, respond pkt s1)
      else rbind (lazy_access c pkt s1) (\<lambda>(nxt, s2).
        case nxt of LazyDone status \<Rightarrow> Inr (status, s2) | LazyCache pkt1 \<Rightarrow> base_makeRequest c pkt1 s2)))"
    if "pk_cmd pkt = None"
    by (rule post_seq [OF intercept_xm]) (use rest [OF that] in \<open>auto intro!: post_Inr respond_P s_xm assms(1)\<close>)
  then show ?thesis
    unfolding makeRequest_def by (intro post_if cmd post_Inl post_asrt sink) simp_all
qed

lemma log_P:
  assumes "P s" shows "post (P \<circ> snd) (logTransactionalStores c pkt a d s)"
proof -
  have "post (P \<circ> snd) (log_store c pkt a d (s\<lparr>xm := w\<rparr>))" for w
    by (auto simp: post_def intro: s_log_store s_xm assms)
  then show ?thesis
    unfolding logTransactionalStores_def by (intro post_asrt post_if post_Inr post_rbind sndI assms)
qed

lemma track_P:
  assumes "P s" shows "post P (track_locked tx t a s)" "post P (track_unroll c a d s)"
  using assms unfolding track_locked_def track_unroll_def Let_def by (intro post_intros post_rbind P_intros; assumption)+

lemma readCallback_P: "P s \<Longrightarrow> post (P \<circ> snd) (readCallback c e a d s)"
  unfolding readCallback_def by (intro base_callbacks_P hitCallback_P s_spec)

lemma writeCallback_P:
  assumes "P s" shows "post (P \<circ> snd) (writeCallback c e a nc d s)"
proof -
  note s1 = s_spec [OF assms]
  have spec: "post (P \<circ> snd) (rbind (base_readCallback c (hitCallback hit_depth c e) a d (s\<lparr>m_specCallback := b\<rparr>)) (\<lambda>(d, s1).
      rbind (isolateTransactionStore c a (xm s1)) (\<lambda>w. Inr (d, s1\<lparr>xm := w\<rparr>))))" for b
    by (rule post_seq [OF base_callbacks_P(2) [OF hitCallback_P s1]]) (auto intro!: post_rbind post_Inr s_xm)
  have log: "post (P \<circ> snd) (if B then logTransactionalStores c pkt a d (s\<lparr>m_specCallback := b\<rparr>)
      else Inr (False, s\<lparr>m_specCallback := b\<rparr>))" for B pkt b
    by (intro post_if log_P post_Inr sndI s1)
  have fin: "post (P \<circ> snd) (rbind (base_writeCallback c (hitCallback hit_depth c e) a nc d s1) (\<lambda>(d, s2).
      rbind (track_locked tx t a s2) (\<lambda>s3. rbind (track_unroll c a d s3) (\<lambda>s4. Inr (d, s4)))))" if "P s1" for s1 tx t
    by (intro post_seq [OF base_callbacks_P(1) [OF hitCallback_P that]] post_prod
        post_seq [OF track_P(1)] post_seq [OF track_P(2)] post_Inr sndI) auto
  show ?thesis
    unfolding writeCallback_def Let_def
    by (intro post_asrt post_if spec post_seq [OF log] post_prod post_Inr fin) auto
qed

lemma end_failed_P: "post (P \<circ> snd) r \<Longrightarrow> post (P \<circ> snd) (end_failed r)"
  unfolding end_failed_def by (erule post_seq) (auto intro!: post_Inr s_failed)

lemma invalidCallback_P: "P s \<Longrightarrow> post (P \<circ> snd) (invalidCallback c e a wr d s)"
  unfolding invalidCallback_def Let_def
  by (intro post_asrt post_rbind end_failed_P post_if base_callbacks_P hitCallback_P s_failed)

lemma failed_write_P:
  assumes "P s" shows "post (P \<circ> snd) (failed_write c e a d s)"
proof -
  let ?id = "Some (pk_id (sr_pkt (hd (reqs a s))))"
  have retry: "post (P \<circ> snd) (rbind (updateReissueTime a (s\<lparr>m_failedStorePkt := ?id\<rparr>)) (\<lambda>s1.
      rbind (makeRequest c e (sr_pkt (hd (reqs a s1))) s1) (\<lambda>(_, s2). Inr (d, s2))))" if "reqs a s \<noteq> []"
  proof (rule post_seq [OF reissue])
    fix s1 assume "reissue_ok a (s\<lparr>m_failedStorePkt := ?id\<rparr>) s1"
    then have "P s1" "m_failedStorePkt s1 = Some (pk_id (sr_pkt (hd (reqs a s1))))"
      using that assms by (auto simp: reissue_ok_def reqs_def set_reqs_def hd_map intro!: s_xm s_table s_store)
    then show "post (P \<circ> snd) (rbind (makeRequest c e (sr_pkt (hd (reqs a s1))) s1) (\<lambda>(_, s2). Inr (d, s2)))"
      by (intro post_seq [OF makeRequest_P]) (auto intro!: post_Inr)
  qed
  have "reqs a s \<noteq> []" if "list_ex f (reqs a s)" for f
    using that by auto
  then show ?thesis
    unfolding failed_write_def Let_def
    by (intro post_if post_asrt base_callbacks_P hitCallback_P assms retry)
qed

lemma failedCallback_P:
  assumes "P s" shows "post (P \<circ> snd) (failedCallback c e a n wr d s)"
proof -
  have "post P (failed_notify c a n pkt (s\<lparr>m_failedCallback := True\<rparr>))" for pkt
    unfolding failed_notify_def by (intro post_rbind post_intros P_intros assms)
  then show ?thesis
    unfolding failedCallback_def
    by (intro post_asrt post_seq end_failed_P post_if failed_write_P base_callbacks_P hitCallback_P)
qed

lemma validate_P:
  assumes "P s" shows "post P (validateConsumedData c e h a s)"
proof -
  have "post (P \<circ> snd) (makeRequest c e (validation_packet c a h s) (s\<lparr>next_pkt := n\<rparr>))" for n
    by (intro makeRequest_P s_next assms) (simp add: validation_packet_def physical_write_def)
  then show ?thesis
    unfolding validateConsumedData_def
    by (intro post_if post_Inr assms) (rule post_seq, assumption, auto intro!: post_if post_Inr post_rbind s_xm)
qed

lemma buffer_P: "P s \<Longrightarrow> post P (writeBufferEvent s)"
  unfolding writeBufferEvent_def by (intro post_intros P_intros)

end

text \<open>The packets of the table other than the stores to the log come from the processor.\<close>

inductive seq_step :: "htm_params \<Rightarrow> (addr \<Rightarrow> seq \<Rightarrow> bool) \<Rightarrow> seq \<Rightarrow> seq \<Rightarrow> bool" for c answers where
  Request: "pk_toLog pkt = None \<Longrightarrow> makeRequest c e pkt s = Inr (st, s') \<Longrightarrow> seq_step c answers s s'"
| Validate: "validateConsumedData c e h a s = Inr s' \<Longrightarrow> seq_step c answers s s'"
| Buffered: "writeBufferEvent s = Inr s' \<Longrightarrow> seq_step c answers s s'"
| Commit: "lazyCommitEvent c e s = Inr s' \<Longrightarrow> seq_step c answers s s'"
| Written: "answers a s \<Longrightarrow> writeCallback c e a nc d s = Inr (d', s') \<Longrightarrow> seq_step c answers s s'"
| Read: "answers a s \<Longrightarrow> readCallback c e a d s = Inr (d', s') \<Longrightarrow> seq_step c answers s s'"
| Failed: "answers a s \<Longrightarrow> failedCallback c e a n wr d s = Inr (d', s') \<Longrightarrow> seq_step c answers s s'"
| Invalid: "answers a s \<Longrightarrow> invalidCallback c e a wr d s = Inr (d', s') \<Longrightarrow> seq_step c answers s s'"
| Manager: "seq_step c answers s (s\<lparr>xm := w\<rparr>)"

locale seq_stable = seq_handlers +
  assumes s_commit: "P s \<Longrightarrow> lazyCommitEvent c e s = Inr s' \<Longrightarrow> P s'"
begin

lemma post_snd: "post (P \<circ> snd) r \<Longrightarrow> r = Inr (x, s) \<Longrightarrow> P s"
  by (simp add: post_def)

lemma step_P: "seq_step c answers s s' \<Longrightarrow> P s \<Longrightarrow> P s'"
  by (erule seq_step.cases)
     (auto simp only: intro: post_snd [OF makeRequest_P [OF _ disjI1]] postD [OF validate_P] postD [OF buffer_P] s_commit s_xm
        post_snd [OF writeCallback_P] post_snd [OF readCallback_P] post_snd [OF failedCallback_P] post_snd [OF invalidCallback_P])

end

sublocale seq_stable \<subseteq> runs: invariant_system P "seq_step c answers" P for answers
  by unfold_locales (auto intro: step_P)

section \<open>Admission of a request\<close>

text \<open>The reservation of the entries for the log by a transactional store outside the write set.\<close>

definition reserves :: "htm_params \<Rightarrow> packet \<Rightarrow> seq \<Rightarrow> (addr, bool) smap \<Rightarrow> bool" where
  "reserves c pkt s pend \<longleftrightarrow> pend = m_pendingLogging s
     \<or> (\<not> lazy_vm c \<and> pk_isWrite pkt \<and> isHtmTransactional pkt
        \<and> checkWriteSignature c (xm s) (line c (pk_addr pkt)) = Inr False
        \<and> smap_find (m_pendingLogging s) (line c (pk_addr pkt)) = None
        \<and> pend = smap_assign (line c (pk_addr pkt)) True (m_pendingLogging s))"

lemma insert_logging_shape:
  assumes "insert_logging c pkt st s = Inr s'"
  shows "\<exists>pend. s' = s\<lparr>m_pendingLogging := pend\<rparr> \<and> reserves c pkt s pend \<and> (st = RS_AliasedNotIssued \<longrightarrow> s' = s)"
proof (cases "s' = s")
  case False
  with assms show ?thesis
    by (auto simp: insert_logging_def reserves_def Let_def asrt_eq_Inr rbind_eq_Inr split: if_splits)
qed (auto simp: reserves_def intro!: exI [of _ "m_pendingLogging s"])

lemma insert_read_set_shape:
  assumes "insert_read_set c pkt p t st s = Inr s'"
  shows "\<exists>w. s' = s\<lparr>xm := w\<rparr> \<and> (st = RS_AliasedNotIssued \<longrightarrow> s' = s)"
proof (cases "s' = s")
  case False
  with assms show ?thesis
    by (auto simp: insert_read_set_def Let_def asrt_eq_Inr rbind_eq_Inr split: if_splits)
qed (auto intro!: exI [of _ "xm s"])

text \<open>A request that is admitted leaves the table as it is or joins the list of its line.\<close>

definition joins :: "htm_params \<Rightarrow> packet \<Rightarrow> seq \<Rightarrow> seq \<Rightarrow> bool" where
  "joins c pkt s s' \<longleftrightarrow> (\<exists>r w pend q. sr_pkt r = pkt \<and> reserves c pkt s pend
     \<and> (reqs (line c (pk_addr pkt)) s = [] \<or> canCoalesceRequest pkt (last (reqs (line c (pk_addr pkt)) s)))
     \<and> s' = (set_reqs (line c (pk_addr pkt)) (reqs (line c (pk_addr pkt)) s @ [r]) s)
              \<lparr>m_outstanding_count := m_outstanding_count s + 1, m_pendingLogging := pend, xm := w, mandatory_q := q\<rparr>)"

definition passes :: "seq \<Rightarrow> seq \<Rightarrow> bool" where
  "passes s s' \<longleftrightarrow> (\<exists>q f. s' = s\<lparr>m_failedStorePkt := f, mandatory_q := q\<rparr>)"

lemma passes_refl: "passes s s"
  unfolding passes_def by (intro exI [of _ "mandatory_q s"] exI [of _ "m_failedStorePkt s"]) simp

lemma insertRequest_shape:
  assumes "insertRequest c pkt p t s = Inr (st, s')"
  shows "passes s s' \<and> (st \<noteq> RS_Ready \<or> m_failedStorePkt s = Some (pk_id pkt))
    \<or> joins c pkt s s' \<and> m_failedStorePkt s \<noteq> Some (pk_id pkt)"
proof (cases "m_failedStorePkt s = Some (pk_id pkt)")
  case True
  with assms show ?thesis
    by (auto simp: insertRequest_def passes_def intro!: exI [of _ "mandatory_q s"])
next
  case False
  let ?a = "line c (pk_addr pkt)"
  from False assms obtain s1 s2 where base: "base_insertRequest c pkt p t s = Inr (st, s1)"
      and log: "insert_logging c pkt st s1 = Inr s2" and rd: "insert_read_set c pkt p t st s2 = Inr s'"
    by (auto simp: insertRequest_def asrt_eq_Inr rbind_eq_Inr)
  show ?thesis
  proof (cases "st = RS_AliasedNotIssued")
    case True
    then have "s' = s"
      using base insert_logging_shape [OF log] insert_read_set_shape [OF rd]
      by (auto simp: base_insertRequest_def Let_def asrt_eq_Inr split: if_splits)
    then show ?thesis using True passes_refl by simp
  next
    case issued: False
    let ?r = "\<lparr>sr_pkt = pkt, sr_type = p, sr_second_type = t, issue_time = curCycle (xm s), reissue_time = 0, suppressed = False\<rparr>"
    from issued base have s1: "s1 = (set_reqs ?a (reqs ?a s @ [?r]) s)\<lparr>m_outstanding_count := m_outstanding_count s + 1\<rparr>"
        and co: "reqs ?a s = [] \<or> canCoalesceRequest pkt (last (reqs ?a s))"
      by (auto simp: base_insertRequest_def Let_def asrt_eq_Inr split: if_splits)
    obtain pend where pend: "s2 = s1\<lparr>m_pendingLogging := pend\<rparr>" "reserves c pkt s1 pend"
      using insert_logging_shape [OF log] by blast
    obtain w where w: "s' = s2\<lparr>xm := w\<rparr>"
      using insert_read_set_shape [OF rd] by blast
    have "reserves c pkt s pend"
      using pend(2) s1 by (simp add: reserves_def set_reqs_def)
    then have "joins c pkt s s'"
      unfolding joins_def using co
      by (intro exI [of _ ?r] exI [of _ w] exI [of _ pend] exI [of _ "mandatory_q s"]) (simp add: w pend(1) s1 set_reqs_def)
    then show ?thesis using False by simp
  qed
qed

lemma issueRequest_shape: "issueRequest c pkt t s = Inr s' \<Longrightarrow> \<exists>q. s' = s\<lparr>mandatory_q := q\<rparr>"
  by (auto simp: issueRequest_def rbind_eq_Inr)

lemma joins_issue: "joins c pkt s s1 \<Longrightarrow> joins c pkt s (s1\<lparr>mandatory_q := q\<rparr>)"
  unfolding joins_def by fastforce

lemma admission:
  assumes "base_makeRequest c pkt s = Inr (st, s')"
  shows "passes s s' \<or> (canMakeRequest c pkt s = Inr True \<and> joins c pkt s s' \<and> m_failedStorePkt s \<noteq> Some (pk_id pkt))"
proof -
  from assms consider "s' = s"
    | p t st1 s1 where "canMakeRequest c pkt s = Inr True" "insertRequest c pkt p t s = Inr (st1, s1)"
        "s' = s1 \<or> issueRequest c pkt t s1 = Inr s'"
    by (auto simp: base_makeRequest_def rbind_eq_Inr asrt_eq_Inr split: if_splits)
  then show ?thesis
  proof cases
    case (2 p t st1 s1)
    have "s1 = s1\<lparr>mandatory_q := mandatory_q s1\<rparr>"
      by simp
    then obtain q where q: "s' = s1\<lparr>mandatory_q := q\<rparr>"
      using 2(3) issueRequest_shape by blast
    have "passes s s'" if "passes s s1"
    proof -
      from that obtain q' f where "s1 = s\<lparr>m_failedStorePkt := f, mandatory_q := q'\<rparr>"
        by (auto simp: passes_def)
      with q have "s' = s\<lparr>m_failedStorePkt := f, mandatory_q := q\<rparr>"
        by simp
      then show ?thesis unfolding passes_def by blast
    qed
    then show ?thesis
      using insertRequest_shape [OF 2(2)] joins_issue q 2(1) by blast
  qed (simp add: passes_refl)
qed

text \<open>A transactional command at most suppresses the requests of the table.\<close>

definition event_frame :: "seq \<Rightarrow> seq \<Rightarrow> bool" where
  "event_frame s s' \<longleftrightarrow> m_outstanding_count s' = m_outstanding_count s \<and> m_pendingLogging s' = m_pendingLogging s
     \<and> m_max_outstanding_requests s' = m_max_outstanding_requests s \<and> m_logRequestTable s' = m_logRequestTable s
     \<and> (m_RequestTable s' = m_RequestTable s \<or> m_RequestTable s' = m_RequestTable (suppressOutstandingRequests s))"

lemma abort_frame: "post (event_frame s) (seq_abortTransaction c e pkt s)"
  unfolding seq_abortTransaction_def Let_def
  by (intro post_asrt post_rbind) (auto simp: event_frame_def suppressOutstandingRequests_def post_def asrt_eq_Inr split: list.splits)

lemma event_frames: "post (event_frame s) (notifyXactionEvent c e pkt s)"
proof -
  have "post (event_frame s) (event_aborting c e pkt s)"
    unfolding event_aborting_def
    by (intro post_if abort_frame post_Inr post_asrt post_rbind) (auto simp: event_frame_def schedule_commit_check_def)
  moreover have "post (event_frame s) (event_commit c e pkt s)"
    unfolding event_commit_def
    by (intro post_if post_Inr post_rbind post_prod) (auto simp: event_frame_def schedule_commit_check_def)
  moreover have "post (event_frame s) (event_isolate c pkt s)"
    unfolding event_isolate_def Let_def
    by (auto simp: post_def event_frame_def asrt_eq_Inr rbind_eq_Inr split: if_splits)
  moreover have "event_frame s (s\<lparr>xm := w\<rparr>)" for w
    by (simp add: event_frame_def)
  ultimately show ?thesis
    unfolding notifyXactionEvent_def by (intro post_if post_cmd post_rbind post_Inr post_Inl abort_frame)
qed

section \<open>Capacity of the request table\<close>

definition within_capacity :: "htm_params \<Rightarrow> int \<Rightarrow> seq \<Rightarrow> bool" where
  "within_capacity c limit s \<longleftrightarrow> m_max_outstanding_requests s = limit \<and> (lazy_vm c \<longrightarrow> m_pendingLogging s = [])
     \<and> m_outstanding_count s + 2 * int (length (m_pendingLogging s)) \<le> limit"

lemma length_assign: "length (smap_assign k v m) \<le> Suc (length m)"
  by (induction m) auto

lemma length_erase: "length (smap_erase k m) \<le> length m" "smap_find m k \<noteq> None \<Longrightarrow> length (smap_erase k m) < length m"
proof -
  show "length (smap_erase k m) \<le> length m"
    by (simp add: smap_erase_def)
  show "length (smap_erase k m) < length m" if "smap_find m k \<noteq> None"
    using that by (induction m) (auto simp: smap_erase_def le_imp_less_Suc split: if_splits)
qed

lemma joins_counts:
  assumes "joins c pkt s s'"
  shows "m_outstanding_count s' = m_outstanding_count s + 1" "m_max_outstanding_requests s' = m_max_outstanding_requests s"
    "reserves c pkt s (m_pendingLogging s')"
  using assms by (auto simp: joins_def set_reqs_def)

lemma reserved_room:
  assumes "canMakeRequest c pkt s = Inr True" "m_failedStorePkt s \<noteq> Some (pk_id pkt)" "pk_toLog pkt = None" "pk_cmd pkt = None"
    and "reserves c pkt s pend" "within_capacity c limit s"
  shows "m_outstanding_count s + 1 + 2 * int (length pend) \<le> limit"
proof -
  from assms(1,2,4) obtain n where n: "reserved_mshrs c pkt s = Inr n" "m_outstanding_count s + n < m_max_outstanding_requests s"
    by (auto simp: canMakeRequest_def rbind_eq_Inr)
  have "2 * int (length pend) \<le> n"
  proof (cases "pend = m_pendingLogging s")
    case True
    then show ?thesis
      using n(1) assms(3,6) by (auto simp: reserved_mshrs_def within_capacity_def rbind_eq_Inr Let_def split: if_splits)
  next
    case False
    then have "n = 2 * int (length (m_pendingLogging s)) + 2" "length pend \<le> Suc (length (m_pendingLogging s))"
      using n(1) assms(5) length_assign by (auto simp: reserves_def reserved_mshrs_def Let_def)
    then show ?thesis by simp
  qed
  then show ?thesis
    using n(2) assms(6) by (simp add: within_capacity_def)
qed

lemma make_within:
  assumes "within_capacity c limit s" "pk_toLog pkt = None \<or> m_failedStorePkt s = Some (pk_id pkt)" "pk_cmd pkt = None"
    and "base_makeRequest c pkt s = Inr (st, s')"
  shows "within_capacity c limit s'"
  using admission [OF assms(4)]
proof (elim disjE conjE)
  assume "passes s s'"
  then show ?thesis using assms(1) by (auto simp: passes_def within_capacity_def)
next
  assume ok: "canMakeRequest c pkt s = Inr True" "joins c pkt s s'" "m_failedStorePkt s \<noteq> Some (pk_id pkt)"
  then have "m_outstanding_count s + 1 + 2 * int (length (m_pendingLogging s')) \<le> limit"
    using reserved_room [OF ok(1) ok(3) _ assms(3) joins_counts(3) [OF ok(2)] assms(1)] assms(2) by auto
  then show ?thesis
    using assms(1) joins_counts [OF ok(2)] by (auto simp: within_capacity_def reserves_def)
qed

text \<open>The two stores to the log take the entries that their program store had reserved.\<close>

lemma log_make_counts:
  assumes "base_makeRequest c pkt s = Inr (st, s')" "pk_uid pkt = None"
  shows "m_outstanding_count s' \<le> m_outstanding_count s + 1 \<and> m_pendingLogging s' = m_pendingLogging s
     \<and> m_max_outstanding_requests s' = m_max_outstanding_requests s"
  using admission [OF assms(1)]
proof (elim disjE conjE)
  assume "joins c pkt s s'"
  from joins_counts [OF this] assms(2) show ?thesis by (simp add: reserves_def)
qed (auto simp: passes_def)

lemma makeLog_cases:
  assumes "makeLogRequests c lr s = Inr (ok, lr', s')"
  obtains (none) "s' = s" | (one) st pkt where "base_makeRequest c pkt s = Inr (st, s')" "pkt \<in> {logAddrPkt lr, logDataPkt lr}"
    | (two) st1 s1 st2 where "base_makeRequest c (logAddrPkt lr) s = Inr (st1, s1)" "base_makeRequest c (logDataPkt lr) s1 = Inr (st2, s')"
  using assms by (auto simp: makeLogRequests_def rbind_eq_Inr Let_def split: if_splits)

lemma log_makes_counts:
  assumes "makeLogRequests c lr s = Inr (ok, lr', s')" "pk_uid (logAddrPkt lr) = None" "pk_uid (logDataPkt lr) = None"
  shows "m_outstanding_count s' \<le> m_outstanding_count s + 2 \<and> m_pendingLogging s' = m_pendingLogging s
     \<and> m_max_outstanding_requests s' = m_max_outstanding_requests s"
proof -
  from assms(1) show ?thesis
  proof (cases rule: makeLog_cases)
    case one
    then show ?thesis using one log_make_counts [OF one(1)] assms(2,3) by auto
  next
    case two
    then show ?thesis using log_make_counts [OF two(1)] log_make_counts [OF two(2)] assms(2,3) by auto
  qed simp
qed

lemma log_info_shape:
  assumes "log_info c lr pkt s = (info, s')"
  shows "s' = s\<lparr>next_pkt := next_pkt s + 2\<rparr>" "pk_uid (logAddrPkt info) = None" "pk_uid (logDataPkt info) = None"
    "pk_toLog (logAddrPkt info) = Some (pk_addr pkt)" "pk_toLog (logDataPkt info) = Some (pk_addr pkt)"
    "pk_addr (logAddrPkt info) = logAddrPkt_addr lr" "pk_addr (logDataPkt info) = logDataPkt_addr lr"
  using assms by (auto simp: log_info_def log_packet_def physical_write_def)

lemma log_store_shape:
  assumes "log_store c pkt a d s = Inr (ok, s')"
  obtains lr ev info s1 info1 s2 where "buildLogPackets c (isHtmTransactional pkt) (pk_vaddr pkt) d (evm (xm s)) = Inr (lr, ev)"
    "log_info c lr pkt (s\<lparr>xm := (xm s)\<lparr>evm := ev\<rparr>\<rparr>) = (info, s1)" "makeLogRequests c info s1 = Inr (True, info1, s2)"
    "smap_find (m_pendingLogging s2) a \<noteq> None" "smap_find (m_logRequestTable s) a = None" ok
    "s' = s2\<lparr>m_pendingLogging := smap_erase a (m_pendingLogging s2), m_logRequestTable := smap_assign a [info1] (m_logRequestTable s2)\<rparr>"
proof -
  from assms obtain lr ev where build: "buildLogPackets c (isHtmTransactional pkt) (pk_vaddr pkt) d (evm (xm s)) = Inr (lr, ev)"
      and none: "smap_find (m_logRequestTable s) a = None"
    by (auto simp: log_store_def asrt_eq_Inr rbind_eq_Inr)
  obtain info s1 where info: "log_info c lr pkt (s\<lparr>xm := (xm s)\<lparr>evm := ev\<rparr>\<rparr>) = (info, s1)"
    by (cases "log_info c lr pkt (s\<lparr>xm := (xm s)\<lparr>evm := ev\<rparr>\<rparr>)") auto
  from assms build none info obtain info1 s2 where "makeLogRequests c info s1 = Inr (True, info1, s2)"
      "smap_find (m_pendingLogging s2) a \<noteq> None" ok
      "s' = s2\<lparr>m_pendingLogging := smap_erase a (m_pendingLogging s2), m_logRequestTable := smap_assign a [info1] (m_logRequestTable s2)\<rparr>"
    by (auto simp: log_store_def asrt_eq_Inr rbind_eq_Inr split: if_splits)
  with build info none show thesis
    by (intro that)
qed

lemma log_store_within:
  assumes "within_capacity c limit s" "log_store c pkt a d s = Inr (ok, s')"
  shows "within_capacity c limit s'"
proof -
  from assms(2) obtain lr ev info s1 info1 s2 where info: "log_info c lr pkt (s\<lparr>xm := (xm s)\<lparr>evm := ev\<rparr>\<rparr>) = (info, s1)"
      and make: "makeLogRequests c info s1 = Inr (True, info1, s2)" and pend: "smap_find (m_pendingLogging s2) a \<noteq> None"
      and s': "s' = s2\<lparr>m_pendingLogging := smap_erase a (m_pendingLogging s2), m_logRequestTable := smap_assign a [info1] (m_logRequestTable s2)\<rparr>"
    by (rule log_store_shape)
  note i = log_info_shape [OF info]
  have "m_outstanding_count s2 \<le> m_outstanding_count s + 2 \<and> m_pendingLogging s2 = m_pendingLogging s
     \<and> m_max_outstanding_requests s2 = m_max_outstanding_requests s"
    using log_makes_counts [OF make i(2,3)] i(1) by simp
  with assms(1) length_erase(2) [OF pend] s' show ?thesis
    by (auto simp: within_capacity_def)
qed

lemma capacity_freed: "within_capacity c limit s \<Longrightarrow> within_capacity c limit (s\<lparr>m_pendingLogging := smap_erase a (m_pendingLogging s)\<rparr>)"
  using length_erase(1) [of a "m_pendingLogging s"] by (auto simp: within_capacity_def)

lemma capacity_event: "within_capacity c limit s \<Longrightarrow> notifyXactionEvent c e pkt s = Inr s' \<Longrightarrow> within_capacity c limit s'"
  using postD [OF event_frames] by (auto simp: within_capacity_def event_frame_def)

section \<open>Pending commits\<close>

text \<open>
  While a commit is pending, the event that tries it again is scheduled; the packet of the event is
  always a commit command.
\<close>

definition check_ok :: "seq \<Rightarrow> bool" where
  "check_ok s \<longleftrightarrow> (\<forall>pkt. lazyCommitCheckEvent s = Some pkt \<longrightarrow> pk_cmd pkt = Some HTMCommit)"

definition retry_ok :: "seq \<Rightarrow> bool" where
  "retry_ok s \<longleftrightarrow> check_ok s \<and> (m_commitPending s \<longrightarrow> lazyCommitCheckEvent s \<noteq> None)"

definition same_commit :: "seq \<Rightarrow> seq \<Rightarrow> bool" where
  "same_commit s s' \<longleftrightarrow> m_commitPending s' = m_commitPending s \<and> lazyCommitCheckEvent s' = lazyCommitCheckEvent s"

lemma retry_same: "retry_ok s \<Longrightarrow> same_commit s s' \<Longrightarrow> retry_ok s'"
  by (simp add: retry_ok_def check_ok_def same_commit_def)

lemma same_commit_trans: "same_commit s t \<Longrightarrow> same_commit t u \<Longrightarrow> same_commit s u"
  by (simp add: same_commit_def)

lemma make_same_commit: "base_makeRequest c pkt s = Inr (st, s') \<Longrightarrow> same_commit s s'"
  using admission by (fastforce simp: same_commit_def passes_def joins_def set_reqs_def)

lemma makes_same_commit: "makeLogRequests c lr s = Inr (ok, lr', s') \<Longrightarrow> same_commit s s'"
  by (erule makeLog_cases) (auto simp: same_commit_def dest!: make_same_commit)

lemma log_store_same_commit: "log_store c pkt a d s = Inr (ok, s') \<Longrightarrow> same_commit s s'"
  by (erule log_store_shape, drule log_info_shape(1), drule makes_same_commit) (simp add: same_commit_def)

lemma abort_same_commit: "post (same_commit s) (seq_abortTransaction c e pkt s)"
  unfolding seq_abortTransaction_def Let_def
  by (intro post_asrt post_rbind) (auto simp: same_commit_def suppressOutstandingRequests_def post_def asrt_eq_Inr split: list.splits)

text \<open>A commit command leaves no commit pending without a scheduled event, even if none was before.\<close>

lemma commit_retried:
  assumes "check_ok s" "pk_cmd pkt = Some HTMCommit" shows "post retry_ok (notifyXactionEvent c e pkt s)"
proof -
  have "post retry_ok (event_aborting c e pkt s)" "post retry_ok (event_commit c e pkt s)"
    using assms unfolding event_aborting_def event_commit_def
    by (auto intro!: post_if post_Inr post_asrt post_rbind simp: retry_ok_def check_ok_def schedule_commit_check_def split: if_splits)
  then show ?thesis
    unfolding notifyXactionEvent_def using assms(2) by simp
qed

lemma event_retried:
  assumes "retry_ok s" "notifyXactionEvent c e pkt s = Inr s'" shows "retry_ok s'"
proof (cases "pk_cmd pkt = Some HTMCommit")
  case True
  then show ?thesis
    using assms postD [OF commit_retried] by (auto simp: retry_ok_def)
next
  case False
  have "post (same_commit s) (event_isolate c pkt s)"
    unfolding event_isolate_def Let_def by (auto simp: post_def same_commit_def asrt_eq_Inr rbind_eq_Inr split: if_splits)
  moreover have "post (same_commit s) (event_aborting c e pkt s)"
    unfolding event_aborting_def
    by (intro post_if abort_same_commit post_Inr post_asrt) (use False in \<open>simp_all add: same_commit_def\<close>)
  ultimately have "post (same_commit s) (notifyXactionEvent c e pkt s)"
    unfolding notifyXactionEvent_def
    by (intro post_if post_cmd post_rbind post_Inr post_Inl abort_same_commit) (use False in \<open>simp_all add: same_commit_def\<close>)
  then show ?thesis
    by (rule retry_same [OF assms(1) postD [OF _ assms(2)]])
qed

text \<open>Both invariants hold whatever the processor and the cache do.\<close>

definition seq_inv :: "htm_params \<Rightarrow> int \<Rightarrow> seq \<Rightarrow> bool" where
  "seq_inv c limit s \<longleftrightarrow> within_capacity c limit s \<and> retry_ok s"

lemma seq_inv_simple:
  assumes "seq_inv c limit s" "same_commit s s'" "within_capacity c limit s'" shows "seq_inv c limit s'"
  using assms by (auto simp: seq_inv_def intro: retry_same)

lemma commit_event_inv:
  assumes "seq_inv c limit s" "lazyCommitEvent c e s = Inr s'" shows "seq_inv c limit s'"
proof -
  let ?s = "s\<lparr>lazyCommitCheckEvent := None\<rparr>"
  from assms obtain pkt s1 where pkt: "pk_cmd pkt = Some HTMCommit" and ev: "notifyXactionEvent c e pkt ?s = Inr s1"
      and cb: "rubyHtmCallback pkt s1 = Inr s'"
    by (auto simp: lazyCommitEvent_def makeRequest_def seq_inv_def retry_ok_def check_ok_def rbind_eq_Inr split: option.splits)
  have "seq_inv c limit s1"
    using assms(1) capacity_event [OF _ ev] postD [OF commit_retried [OF _ pkt] ev]
    by (simp add: seq_inv_def within_capacity_def check_ok_def)
  moreover have "s' = s1 \<or> (\<exists>p. s' = respond p s1)"
    using cb by (auto simp: rubyHtmCallback_def rbind_eq_Inr asrt_eq_Inr split: if_splits option.splits)
  ultimately show ?thesis
    by (auto simp: seq_inv_def within_capacity_def retry_ok_def check_ok_def respond_def)
qed

interpretation admitted: seq_stable c "seq_inv c limit" for c limit
proof unfold_locales
  fix s a assume "seq_inv c limit s"
  then show "seq_inv c limit (s\<lparr>m_pendingLogging := smap_erase a (m_pendingLogging s)\<rparr>)"
    using capacity_freed by (auto simp: seq_inv_def retry_ok_def check_ok_def)
next
  fix s pkt st s' assume "seq_inv c limit s" "pk_toLog pkt = None \<or> m_failedStorePkt s = Some (pk_id pkt)"
    "pk_cmd pkt = None" "base_makeRequest c pkt s = Inr (st, s')"
  then show "seq_inv c limit s'"
    using make_within make_same_commit seq_inv_simple unfolding seq_inv_def by blast
next
  fix s pkt a d ok s' assume "seq_inv c limit s" "log_store c pkt a d s = Inr (ok, s')"
  then show "seq_inv c limit s'"
    using log_store_within log_store_same_commit seq_inv_simple unfolding seq_inv_def by blast
next
  fix s e pkt s' assume "seq_inv c limit s" "notifyXactionEvent c e pkt s = Inr s'"
  then show "seq_inv c limit s'"
    using capacity_event event_retried unfolding seq_inv_def by blast
next
  fix s e s' assume "seq_inv c limit s" "lazyCommitEvent c e s = Inr s'"
  then show "seq_inv c limit s'" by (rule commit_event_inv)
qed (simp_all add: seq_inv_def within_capacity_def retry_ok_def check_ok_def markRemoved_def)

end
