(* ===== verification/Seq_Typing.thy ===== *)
theory Seq_Typing
  imports Seq_Invariants
begin

text \<open>
  The typing of the request table: every list of requests is non-empty and holds requests of one
  line and one transaction, the counter of outstanding requests is the number of requests in the table,
  and a line whose store is being logged has a transactional request. The callbacks keep the typing
  as long as the cache answers no line whose store is being logged.
\<close>

section \<open>Well-typed tables\<close>

definition num_requests :: "(addr, SequencerRequest list) smap \<Rightarrow> int" where
  "num_requests t = int (sum_list (map (length \<circ> snd) t))"

lemma num_requests_assign:
  assumes "smap_ok t"
  shows "num_requests (smap_assign a l t) = num_requests t + int (length l) - int (length (case smap_find t a of None \<Rightarrow> [] | Some k \<Rightarrow> k))"
  using assms
proof (induction t)
  case (Cons e t)
  have "smap_find t a = None" if "a < fst e"
    using Cons.prems that by (cases e) (auto simp: smap_find_None_iff)
  then show ?case
    using Cons by (cases e) (auto simp: num_requests_def)
qed (simp add: num_requests_def)

lemma num_requests_erase: "smap_find t a = Some [] \<Longrightarrow> smap_ok t \<Longrightarrow> num_requests (smap_erase a t) = num_requests t"
proof (induction t)
  case (Cons e t)
  show ?case
  proof (cases "fst e = a")
    case True
    with Cons.prems have "smap_find t a = None"
      by (cases e) (auto simp: smap_find_None_iff)
    then show ?thesis
      using Cons.prems(1) True smap_erase_absent [of t a] by (cases e) (simp add: num_requests_def smap_erase_def)
  next
    case False
    then show ?thesis
      using Cons by (cases e) (simp add: num_requests_def smap_erase_def)
  qed
qed (simp add: num_requests_def)

text \<open>The requests of a list belong to its line and to one transaction; a store to the log belongs to none.\<close>

definition list_ok :: "htm_params \<Rightarrow> addr \<Rightarrow> SequencerRequest list \<Rightarrow> bool" where
  "list_ok c a l \<longleftrightarrow> (\<exists>u. \<forall>r \<in> set l. pk_uid (sr_pkt r) = u \<and> line c (pk_addr (sr_pkt r)) = a
     \<and> (\<forall>la. pk_toLog (sr_pkt r) = Some la \<longrightarrow> u = None \<and> line c la \<noteq> a))"

lemma list_ok_uniform:
  assumes "list_ok c a l" "r \<in> set l"
  shows "line c (pk_addr (sr_pkt r)) = a" "pk_uid (sr_pkt r) = pk_uid (sr_pkt (hd l))"
proof -
  have "hd l \<in> set l"
    using assms(2) by (cases l) auto
  with assms show "line c (pk_addr (sr_pkt r)) = a" "pk_uid (sr_pkt r) = pk_uid (sr_pkt (hd l))"
    by (auto simp: list_ok_def)
qed

abbreviation listed :: "seq \<Rightarrow> addr \<Rightarrow> SequencerRequest list option" where
  "listed s a \<equiv> smap_find (m_RequestTable s) a"

text \<open>
  The typing during callbacks: the lists of the lines in \<open>A\<close> are being worked through, and \<open>k\<close> of
  their requests are no longer counted.
\<close>

definition typed :: "htm_params \<Rightarrow> addr set \<Rightarrow> int \<Rightarrow> seq \<Rightarrow> bool" where
  "typed c A k s \<longleftrightarrow> smap_ok (m_RequestTable s) \<and> m_outstanding_count s + k = num_requests (m_RequestTable s)
     \<and> (\<forall>a l. listed s a = Some l \<longrightarrow> list_ok c a l \<and> (a \<in> A \<or> l \<noteq> []))
     \<and> (\<forall>a. a \<notin> A \<longrightarrow> smap_find (m_logRequestTable s) a \<noteq> None \<longrightarrow> (\<exists>r \<in> set (reqs a s). isHtmTransactional (sr_pkt r)))"

definition tview :: "seq \<Rightarrow> (addr, SequencerRequest list) smap \<times> int \<times> (addr, LogRequestInfo list) smap" where
  "tview s = (m_RequestTable s, m_outstanding_count s, m_logRequestTable s)"

lemma typed_view: "tview s' = tview s \<Longrightarrow> typed c A k s' = typed c A k s"
  by (simp add: typed_def tview_def reqs_def)

interpretation views: seq_answers c "\<lambda>s. tview s = v" for c v
  by unfold_locales (simp_all add: tview_def)

lemma typed_weaken: "typed c A k s \<Longrightarrow> A \<subseteq> B \<Longrightarrow> typed c B k s"
  unfolding typed_def by blast

lemma typed_close:
  assumes "typed c (insert a A) k s" "listed s a \<noteq> Some []" "smap_find (m_logRequestTable s) a = None"
  shows "typed c A k s"
  using assms unfolding typed_def by (metis insertE)

lemma typed_removed: "typed c A k s \<Longrightarrow> typed c A (k + 1) (markRemoved s)"
  by (simp add: typed_def markRemoved_def reqs_def)

lemma list_ok_tl: "list_ok c a (r # l) \<Longrightarrow> list_ok c a l"
  by (auto simp: list_ok_def)

lemma typed_pop:
  assumes "typed c A (k + 1) s" "listed s a = Some (r # l)" "a \<in> A"
  shows "typed c A k (set_reqs a l s)" "listed (set_reqs a l s) a = Some l"
proof -
  have "list_ok c a l"
    using assms(1,2) list_ok_tl unfolding typed_def by blast
  moreover have "num_requests (smap_assign a l (m_RequestTable s)) = num_requests (m_RequestTable s) - 1"
    using num_requests_assign [of "m_RequestTable s" a l] assms(1,2) by (simp add: typed_def)
  ultimately show "typed c A k (set_reqs a l s)"
    using assms unfolding typed_def set_reqs_def reqs_def by (auto split: if_splits)
qed (simp add: set_reqs_def)

text \<open>What a callback for one line leaves alone: the lists in \<open>T\<close> and the log entries in \<open>G\<close>.\<close>

definition spares :: "addr set \<Rightarrow> addr set \<Rightarrow> seq \<Rightarrow> seq \<Rightarrow> bool" where
  "spares T G s s' \<longleftrightarrow> (\<forall>b \<in> T. listed s' b = listed s b)
     \<and> (\<forall>b \<in> G. smap_find (m_logRequestTable s') b = smap_find (m_logRequestTable s) b)"

lemma spares_trans: "spares T G s t \<Longrightarrow> spares T G t u \<Longrightarrow> spares T G s u"
  by (simp add: spares_def)

lemma spares_view: "tview s' = tview s \<Longrightarrow> spares T G s s'"
  by (simp add: spares_def tview_def)

definition similar :: "SequencerRequest \<Rightarrow> SequencerRequest \<Rightarrow> bool" where
  "similar r r' \<longleftrightarrow> pk_uid (sr_pkt r) = pk_uid (sr_pkt r') \<and> pk_toLog (sr_pkt r) = pk_toLog (sr_pkt r')
     \<and> pk_addr (sr_pkt r) = pk_addr (sr_pkt r')"

lemma similar_refl [simp]: "similar r r"
  by (simp add: similar_def)

lemma post_conj: "post P r \<Longrightarrow> post Q r \<Longrightarrow> post (\<lambda>x. P x \<and> Q x) r"
  by (simp add: post_def)

lemma post_mono: "post P r \<Longrightarrow> (\<And>x. P x \<Longrightarrow> Q x) \<Longrightarrow> post Q r"
  by (simp add: post_def)

lemma write_prepare_view: "post (\<lambda>x. similar (fst (snd x)) r \<and> tview (snd (snd x)) = tview s) (write_prepare c a r s)"
proof (rule post_conj)
  show "post (\<lambda>x. similar (fst (snd x)) r) (write_prepare c a r s)"
    unfolding write_prepare_def by (auto simp: post_def rbind_eq_Inr similar_def split: if_splits)
  show "post (\<lambda>x. tview (snd (snd x)) = tview s) (write_prepare c a r s)"
    using views.write_prepare_P [of s "tview s" c a r] by (simp add: comp_def)
qed

lemma issue_view: "post (\<lambda>s'. tview s' = tview s) (issueRequest c pkt t s)"
  using views.issueRequest_P [of s "tview s"] by simp

section \<open>The callback loops\<close>

text \<open>What a hit callback must keep while the list of line \<open>a\<close> is worked through.\<close>

definition loop_inv :: "htm_params \<Rightarrow> addr set \<Rightarrow> int \<Rightarrow> addr set \<Rightarrow> addr set \<Rightarrow> seq \<Rightarrow> addr \<Rightarrow> SequencerRequest list \<Rightarrow> seq \<Rightarrow> bool" where
  "loop_inv c A k T G s0 a l s \<longleftrightarrow> typed c A k s \<and> listed s a = Some l \<and> spares T G s0 s"

definition hit_keeps :: "htm_params \<Rightarrow> hit_fun \<Rightarrow> addr set \<Rightarrow> int \<Rightarrow> addr set \<Rightarrow> addr set \<Rightarrow> addr \<Rightarrow> SequencerRequest set \<Rightarrow> bool" where
  "hit_keeps c hit A k T G a L \<longleftrightarrow> a \<in> A \<and> a \<notin> T
     \<and> (\<forall>r r0 l d ok s. r0 \<in> L \<and> similar r r0 \<and> typed c A (k + 1) s \<and> listed s a = Some (r0 # l)
          \<longrightarrow> post (\<lambda>x. loop_inv c A (k + 1) T G s a (r0 # l) (snd x)) (hit r d ok s))"

lemma loop_view: "tview s' = tview s \<Longrightarrow> loop_inv c A k T G s0 a l s' = loop_inv c A k T G s0 a l s"
  using typed_view [of s' s c A k] by (simp add: loop_inv_def spares_def tview_def)

lemma loop_hit:
  assumes hit: "hit_keeps c hit A k T G a L" and inv: "loop_inv c A k T G s0 a (r0 # l) s" and r: "r0 \<in> L" "similar r r0"
  shows "post (\<lambda>x. loop_inv c A k T G s0 a l (set_reqs a l (snd x))) (hit r d ok (markRemoved s))"
proof (rule post_mono)
  have m: "typed c A (k + 1) (markRemoved s)" "listed (markRemoved s) a = Some (r0 # l)" "spares T G s0 (markRemoved s)"
    using inv typed_removed [of c A k s] by (simp_all add: loop_inv_def markRemoved_def spares_def)
  show "post (\<lambda>x. loop_inv c A (k + 1) T G (markRemoved s) a (r0 # l) (snd x)) (hit r d ok (markRemoved s))"
    using hit r m(1,2) unfolding hit_keeps_def by simp
  fix x assume "loop_inv c A (k + 1) T G (markRemoved s) a (r0 # l) (snd x)"
  then have t: "typed c A (k + 1) (snd x)" "listed (snd x) a = Some (r0 # l)" "spares T G s0 (snd x)"
    using spares_trans [OF m(3)] by (simp_all add: loop_inv_def)
  have "a \<in> A" "a \<notin> T"
    using hit by (simp_all add: hit_keeps_def)
  then show "loop_inv c A k T G s0 a l (set_reqs a l (snd x))"
    using typed_pop [OF t(1,2)] t(3) by (auto simp: loop_inv_def spares_def set_reqs_def)
qed

definition loop_end :: "htm_params \<Rightarrow> addr set \<Rightarrow> int \<Rightarrow> addr set \<Rightarrow> addr set \<Rightarrow> seq \<Rightarrow> addr \<Rightarrow> (DataBlock \<times> seq) \<Rightarrow> bool" where
  "loop_end c A k T G s0 a x \<longleftrightarrow> (\<exists>l. loop_inv c A k T G s0 a l (snd x))"

lemma loop_issue: "loop_inv c A k T G s0 a l s \<Longrightarrow> post (loop_end c A k T G s0 a) (rbind (issueRequest c pkt t s) (\<lambda>s1. Inr (d, s1)))"
  by (rule post_seq [OF issue_view], rule post_Inr, unfold loop_end_def snd_conv)
     (drule loop_view [where l = l], blast)

lemma write_loop_typed:
  assumes hit: "hit_keeps c hit A k T G a L"
  shows "loop_inv c A k T G s0 a l s \<Longrightarrow> set l \<subseteq> L \<Longrightarrow> post (loop_end c A k T G s0 a) (write_loop c hit a nc l rr u d s)"
proof (induction l arbitrary: rr u d s)
  case (Cons r l)
  note issue = loop_issue [OF Cons.prems(1)]
  let ?prep = "\<lambda>x. similar (fst (snd x)) r \<and> tview (snd (snd x)) = tview s"
  have prep: "post ?prep (if \<not> is_load_type (sr_type r)
       then rbind (write_prepare c a r s) (\<lambda>(ok, r1, s1).
              if rr then asrt Seq_cc 428 (curCycle (xm s1) \<ge> issue_time r) (Inr (ok, r1, s1)) else Inr (ok, r1, s1))
       else asrt Seq_cc 607 (\<not> rr) (Inr (True, r, s)))"
    by (intro post_if post_seq [OF write_prepare_view] post_prod post_asrt post_Inr) auto
  have rest: "post (loop_end c A k T G s0 a) (rbind (hit r1 d ok (markRemoved s1)) (\<lambda>(d1, s2).
       write_loop c hit a nc l False u' d1 (set_reqs a l s2)))" if "?prep (ok, r1, s1)" for r1 ok s1 u'
  proof -
    have "loop_inv c A k T G s0 a (r # l) s1" "similar r1 r"
      using that Cons.prems(1) loop_view [of s1 s] by simp_all
    then show ?thesis
      using Cons.prems(2) by (intro post_seq [OF loop_hit [OF hit]] post_prod Cons.IH) auto
  qed
  show ?case
    unfolding write_loop.simps
    by (intro post_if issue post_rbind [of "if rr then _ else _"] post_seq [OF prep] post_prod rest) simp
qed (auto intro!: post_Inr simp: loop_end_def)

lemma read_loop_typed:
  assumes hit: "hit_keeps c hit A k T G a L"
  shows "loop_inv c A k T G s0 a l s \<Longrightarrow> set l \<subseteq> L \<Longrightarrow> post (loop_end c A k T G s0 a) (read_loop c hit a l rr u d s)"
proof (induction l arbitrary: rr u d s)
  case (Cons r l)
  have rest: "post (loop_end c A k T G s0 a) (rbind (hit r d True (markRemoved s)) (\<lambda>(d1, s2).
       read_loop c hit a l False u' d1 (set_reqs a l s2)))" for u'
    using Cons.prems by (intro post_seq [OF loop_hit [OF hit Cons.prems(1)]] post_prod Cons.IH) auto
  show ?case
    unfolding read_loop.simps
    by (intro post_if post_asrt loop_issue [OF Cons.prems(1)] rest post_rbind [of "if rr then _ else _"])
qed (auto intro!: post_Inr simp: loop_end_def)

text \<open>A base callback ends with the list of its line empty and erased, or kept.\<close>

definition callback_end :: "htm_params \<Rightarrow> addr set \<Rightarrow> int \<Rightarrow> addr set \<Rightarrow> addr set \<Rightarrow> seq \<Rightarrow> addr \<Rightarrow> seq \<Rightarrow> bool" where
  "callback_end c A k T G s0 a s \<longleftrightarrow> typed c A k s \<and> listed s a \<noteq> Some [] \<and> spares T G s0 s"

lemma erase_typed:
  assumes "loop_inv c A k T G s0 a l s" "a \<notin> T" "a \<in> A"
  shows "callback_end c A k T G s0 a (erase_if_empty a s)"
proof (cases "l = []")
  case True
  then have "num_requests (smap_erase a (m_RequestTable s)) = num_requests (m_RequestTable s)"
    using assms num_requests_erase by (auto simp: loop_inv_def typed_def)
  then show ?thesis
    using assms True
    by (simp add: callback_end_def loop_inv_def erase_if_empty_def reqs_def typed_def spares_def)
qed (use assms in \<open>auto simp: callback_end_def loop_inv_def erase_if_empty_def reqs_def\<close>)

lemma base_typed:
  assumes hit: "hit_keeps c hit A k T G a (set (reqs a s))" and ok: "typed c A k s"
  shows "post (\<lambda>x. callback_end c A k T G s a (snd x)) (base_writeCallback c hit a nc d s)"
    "post (\<lambda>x. callback_end c A k T G s a (snd x)) (base_readCallback c hit a d s)"
proof -
  have a: "a \<notin> T" "a \<in> A"
    using hit by (auto simp: hit_keeps_def)
  have start: "loop_inv c A k T G s a (reqs a s) s" if "listed s a \<noteq> None"
    using ok that by (auto simp: loop_inv_def reqs_def spares_def)
  have fin: "callback_end c A k T G s a (snd (d1, erase_if_empty a s1))" if "loop_end c A k T G s a (d1, s1)" for d1 s1
    using that erase_typed a by (auto simp: loop_end_def)
  show "post (\<lambda>x. callback_end c A k T G s a (snd x)) (base_writeCallback c hit a nc d s)"
    unfolding base_writeCallback_def
    by (intro post_asrt post_seq [OF write_loop_typed [OF hit start]] post_prod post_Inr fin) auto
  show "post (\<lambda>x. callback_end c A k T G s a (snd x)) (base_readCallback c hit a d s)"
    unfolding base_readCallback_def
    by (intro post_asrt post_seq [OF read_loop_typed [OF hit start]] post_prod post_Inr fin) auto
qed

section \<open>The callback of one request\<close>

lemma forwarded_log: "post (\<lambda>x. pk_toLog (fst (snd x)) = pk_toLog pkt \<and> pk_addr (fst (snd x)) = pk_addr pkt
    \<and> tview (snd (snd x)) = tview s) (hit_forwarded c pkt s)"
proof -
  have "post (\<lambda>x. pk_toLog (fst (snd x)) = pk_toLog pkt \<and> pk_addr (fst (snd x)) = pk_addr pkt) (hit_forwarded c pkt s)"
    unfolding hit_forwarded_def Let_def by (intro post_if post_asrt post_rbind post_Inr) simp_all
  with views.hit_parts_P(1) [of s "tview s" c pkt] show ?thesis
    by (simp add: post_def)
qed

text \<open>An access that is not a store to the log does not touch the table.\<close>

lemma plain_hit:
  assumes "pk_toLog (sr_pkt r) = None"
  shows "post (\<lambda>x. tview (snd x) = tview s) (hitCallback n c e r d ok s)"
proof -
  have fail: "post (\<lambda>s'. tview s' = tview s) (handleFailedCallback c r s)"
    by (rule views.handleFailedCallback_P) simp
  have prog: "post (\<lambda>x. tview (snd x) = tview s) (hit_program c e r' d ok s1)" if "tview s1 = tview s" for r' s1
    using views.hit_program_P [OF that, of c e r' d ok] by (simp add: comp_def)
  show ?thesis
    unfolding hitCallback.simps [of n]
    by (intro post_if post_seq [OF fail] post_Inr post_seq [OF forwarded_log] post_prod prog) (use assms in auto)
qed

lemma plain_keeps:
  assumes "a \<in> A" "a \<notin> T" "\<forall>r \<in> L. pk_toLog (sr_pkt r) = None"
  shows "hit_keeps c (hitCallback n c e) A k T G a L"
proof -
  have "post (\<lambda>x. loop_inv c A (k + 1) T G s a (r0 # l) (snd x)) (hitCallback n c e r d ok s)"
    if "r0 \<in> L" "similar r r0" "typed c A (k + 1) s" "listed s a = Some (r0 # l)" for r r0 l d ok s
  proof -
    have "pk_toLog (sr_pkt r) = None"
      using that(1,2) assms(3) by (auto simp: similar_def)
    moreover have "loop_inv c A (k + 1) T G s a (r0 # l) s"
      using that by (simp add: loop_inv_def spares_def)
    ultimately show ?thesis
      by (intro post_mono [OF plain_hit]) (blast dest: loop_view)+
  qed
  then show ?thesis
    using assms(1,2) unfolding hit_keeps_def by blast
qed

text \<open>The list of a line whose store is being logged holds no store to the log.\<close>

lemma logged_plain:
  assumes "typed c A k s" "smap_find (m_logRequestTable s) a \<noteq> None" "a \<notin> A"
  shows "\<forall>r \<in> set (reqs a s). pk_toLog (sr_pkt r) = None"
proof -
  obtain r0 where r0: "r0 \<in> set (reqs a s)" "isHtmTransactional (sr_pkt r0)"
    using assms unfolding typed_def by blast
  then have "list_ok c a (reqs a s)"
    using assms(1) by (auto simp: typed_def reqs_def split: option.splits)
  then obtain u where "\<forall>r \<in> set (reqs a s). pk_uid (sr_pkt r) = u \<and> (\<forall>la. pk_toLog (sr_pkt r) = Some la \<longrightarrow> u = None)"
    unfolding list_ok_def by blast
  with r0 show ?thesis
    by (metis not_None_eq)
qed

lemma log_erase_typed:
  assumes "callback_end c {sa, a} k {a} {a} s0 sa s" "sa \<noteq> a" "listed s0 a = Some l"
  shows "loop_inv c {a} k {} {a} s0 a l (s\<lparr>m_logRequestTable := smap_erase sa (m_logRequestTable s)\<rparr>)"
proof -
  let ?s = "s\<lparr>m_logRequestTable := smap_erase sa (m_logRequestTable s)\<rparr>"
  have "typed c {sa, a} k ?s"
    using assms(1) by (simp add: callback_end_def typed_def reqs_def)
  then have "typed c {a} k ?s"
    by (rule typed_close) (use assms(1) in \<open>simp_all add: callback_end_def\<close>)
  then show ?thesis
    using assms by (simp add: loop_inv_def callback_end_def spares_def)
qed

lemma callback_view: "tview s' = tview s \<Longrightarrow> callback_end c A k T G s0 a s' = callback_end c A k T G s0 a s"
  using typed_view [of s' s c A k] by (simp add: callback_end_def spares_def tview_def)

lemma dcache_view: "tview (set_dcache m s) = tview s"
  by (simp add: tview_def set_dcache_def)

lemma log_done_typed:
  assumes ok: "typed c {a} 1 s" "listed s a = Some l" and sa: "sa \<noteq> a" "smap_find (m_logRequestTable s) sa \<noteq> None"
  shows "post (loop_inv c {a} 1 {} {a} s a l) (log_done c (hitCallback n c e) b sa d s)"
proof -
  have nested: "post (\<lambda>x. callback_end c {sa, a} 1 {a} {a} s sa (snd x))
      (base_writeCallback c (hitCallback n c e) sa False sd (set_dcache m s))" for sd m
  proof -
    have "\<forall>r \<in> set (reqs sa (set_dcache m s)). pk_toLog (sr_pkt r) = None"
      using logged_plain [OF ok(1) sa(2)] sa(1) by (simp add: reqs_def set_dcache_def)
    then have "hit_keeps c (hitCallback n c e) {sa, a} 1 {a} {a} sa (set (reqs sa (set_dcache m s)))"
      using sa(1) by (intro plain_keeps) auto
    moreover have "typed c {sa, a} 1 (set_dcache m s)"
      using typed_weaken [OF ok(1), of "{sa, a}"] typed_view [OF dcache_view] by simp
    ultimately have "post (\<lambda>x. callback_end c {sa, a} 1 {a} {a} (set_dcache m s) sa (snd x))
        (base_writeCallback c (hitCallback n c e) sa False sd (set_dcache m s))"
      by (rule base_typed(1))
    then show ?thesis
      by (rule post_mono) (simp add: callback_end_def spares_def set_dcache_def)
  qed
  have check: "post (callback_end c {sa, a} 1 {a} {a} s sa) (if value_checker c
      then rbind (f s2) (\<lambda>x. Inr (s2\<lparr>xm := (xm s2)\<lparr>xvc := x\<rparr>\<rparr>)) else Inr s2)" if "callback_end c {sa, a} 1 {a} {a} s sa s2" for s2 f
  proof -
    have "callback_end c {sa, a} 1 {a} {a} s sa (s2\<lparr>xm := w\<rparr>)" for w
      using that callback_view [of "s2\<lparr>xm := w\<rparr>" s2] by (simp add: tview_def)
    then show ?thesis
      by (intro post_if post_rbind post_Inr that)
  qed
  have entry: "callback_end c {sa, a} 1 {a} {a} s sa (case x of None \<Rightarrow> s1 | Some y \<Rightarrow> set_dcache (g y) s1)"
    if "callback_end c {sa, a} 1 {a} {a} s sa s1" for x g s1
    using that callback_view [OF dcache_view] by (cases x) simp_all
  show ?thesis
    unfolding log_done_def Let_def
    by (intro post_rbind [of "cache_setHtmLogPending _ _ _ _"] post_rbind [of "tryCacheAccess _ _ _ _"] post_option post_Inl
        post_seq [OF nested] post_prod post_seq [OF check [OF entry]] post_asrt post_Inr log_erase_typed sa(1) ok(2)) auto
qed

lemma log_assign_typed:
  assumes "typed c A k s" "smap_find (m_logRequestTable s) sa \<noteq> None"
  shows "typed c A k (s\<lparr>m_logRequestTable := smap_assign sa i (m_logRequestTable s)\<rparr>)"
  using assms by (auto simp: typed_def reqs_def split: if_splits)

lemma handle_log_typed:
  assumes ok: "typed c {a} 1 s" "listed s a = Some l" and la: "pk_toLog pkt = Some la" "line c la \<noteq> a"
  shows "post (\<lambda>x. loop_inv c {a} 1 {} {a} s a l (snd x)) (handleStoresToLog c (hitCallback n c e) b pkt d s)"
proof -
  let ?s = "\<lambda>i. s\<lparr>m_logRequestTable := smap_assign (line c la) i (m_logRequestTable s)\<rparr>"
  have sp: "loop_inv c {a} 1 {} {a} s a l t" if "loop_inv c {a} 1 {} {a} (?s i) a l t" for i t
    using that la(2) by (simp add: loop_inv_def spares_def)
  have keep: "loop_inv c {a} 1 {} {a} s a l (?s i)" if "smap_find (m_logRequestTable s) (line c la) \<noteq> None" for i
    using log_assign_typed [OF ok(1) that] ok(2) la(2) by (simp add: loop_inv_def spares_def)
  have fin: "post (loop_inv c {a} 1 {} {a} s a l) (log_done c (hitCallback n c e) b (line c la) d' (?s i))"
    if "smap_find (m_logRequestTable s) (line c la) \<noteq> None" for i d'
    using log_done_typed [of c a "?s i" l "line c la" n e b d'] log_assign_typed [OF ok(1) that] ok(2) la(2)
    by (auto intro!: post_mono [OF _ sp])
  have g: "getHtmLoggedStoreAddr pkt = Inr la"
    using la(1) by (simp add: getHtmLoggedStoreAddr_def)
  show ?thesis
    unfolding handleStoresToLog_def Let_def g rbind_Inr
    by (intro post_asrt post_option post_Inl post_rbind [of "log_write _ _ _ _"] post_if post_seq [OF fin] post_Inr)
       (simp_all add: keep)
qed

lemma hit_typed:
  assumes ok: "typed c {a} 1 s" "listed s a = Some (r0 # l)" and r: "similar r r0"
  shows "post (\<lambda>x. loop_inv c {a} 1 {} {a} s a (r0 # l) (snd x)) (hitCallback n c e r d ok' s)"
proof (cases "pk_toLog (sr_pkt r)")
  case None
  moreover have "hit_keeps c (hitCallback n c e) {a} 0 {} {a} a {r0}" if "pk_toLog (sr_pkt r0) = None"
    using that by (intro plain_keeps) auto
  ultimately show ?thesis
    using ok r unfolding hit_keeps_def similar_def by auto
next
  case (Some la)
  have "list_ok c a (r0 # l)"
    using ok by (simp add: typed_def)
  with Some have la: "line c la \<noteq> a"
    using r by (simp add: list_ok_def similar_def)
  have self: "loop_inv c {a} 1 {} {a} s a (r0 # l) t" if "tview t = tview s" for t
    using typed_view [OF that, of c "{a}" 1] that ok by (simp add: loop_inv_def spares_def tview_def)
  have fail: "post (\<lambda>s'. tview s' = tview s) (handleFailedCallback c r s)"
    by (rule views.handleFailedCallback_P) simp
  have log: "post (\<lambda>x. loop_inv c {a} 1 {} {a} s a (r0 # l) (snd x)) (handleStoresToLog c (hitCallback m c e) b pkt d t)"
    if "tview t = tview s" "pk_toLog pkt = Some la" for m b pkt t
    using handle_log_typed [of c a t "r0 # l" pkt la m e b d] typed_view [OF that(1)] ok la that
    by (auto simp: tview_def loop_inv_def spares_def elim!: post_mono)
  have "post (\<lambda>x. loop_inv c {a} 1 {} {a} s a (r0 # l) (snd x))
      (case n of 0 \<Rightarrow> Inl x | Suc m \<Rightarrow> handleStoresToLog c (hitCallback m c e) b pkt d t)"
    if "tview t = tview s" "pk_toLog pkt = Some la" for b pkt t x
    using log [OF that] by (cases n) (simp_all add: post_Inl)
  then show ?thesis
    unfolding hitCallback.simps [of n]
    by (intro post_if post_seq [OF fail] post_Inr post_seq [OF forwarded_log] post_prod) (use Some self in auto)
qed

lemma all_keeps: "hit_keeps c (hitCallback n c e) {a} 0 {} {a} a L"
  unfolding hit_keeps_def using hit_typed by simp

text \<open>Outside callbacks.\<close>

abbreviation table_ok :: "htm_params \<Rightarrow> seq \<Rightarrow> bool" where
  "table_ok c \<equiv> typed c {} 0"

lemma callbacks_typed:
  assumes "table_ok c s" "smap_find (m_logRequestTable s) a = None"
  shows "post (\<lambda>x. table_ok c (snd x)) (base_writeCallback c (hitCallback n c e) a nc d s)"
    "post (\<lambda>x. table_ok c (snd x)) (base_readCallback c (hitCallback n c e) a d s)"
proof -
  have "table_ok c t" if "callback_end c {a} 0 {} {a} s a t" for t
    using that assms(2) by (intro typed_close [of c a "{}"]) (auto simp: callback_end_def spares_def)
  note close = this
  have start: "typed c {a} 0 s"
    by (rule typed_weaken [OF assms(1)]) simp
  show "post (\<lambda>x. table_ok c (snd x)) (base_writeCallback c (hitCallback n c e) a nc d s)"
    "post (\<lambda>x. table_ok c (snd x)) (base_readCallback c (hitCallback n c e) a d s)"
    by (rule post_mono [OF base_typed(1) [OF all_keeps start]], erule close)
       (rule post_mono [OF base_typed(2) [OF all_keeps start]], erule close)
qed

section \<open>Admission\<close>

lemma join_list:
  assumes "list_ok c a l" "l = [] \<or> canCoalesceRequest pkt (last l)" "line c (pk_addr pkt) = a" "sr_pkt r = pkt"
    and "\<forall>la. pk_toLog pkt = Some la \<longrightarrow> pk_uid pkt = None \<and> line c la \<noteq> a"
  shows "list_ok c a (l @ [r])"
proof (cases "l = []")
  case False
  then have "pk_uid (sr_pkt (last l)) = pk_uid pkt" "last l \<in> set l"
    using assms(2) by (auto simp: canCoalesceRequest_def split: option.splits)
  then show ?thesis
    using assms unfolding list_ok_def by (intro exI [of _ "pk_uid pkt"]) auto
qed (use assms in \<open>auto simp: list_ok_def\<close>)

text \<open>A store to the log is admitted for a store whose line has a transactional request.\<close>

definition log_owner :: "htm_params \<Rightarrow> packet \<Rightarrow> seq \<Rightarrow> bool" where
  "log_owner c pkt s \<longleftrightarrow> (\<forall>la. pk_toLog pkt = Some la \<longrightarrow> pk_uid pkt = None
     \<and> (\<exists>r \<in> set (reqs (line c la) s). isHtmTransactional (sr_pkt r)))"

lemma list_of: "table_ok c s \<Longrightarrow> list_ok c a (reqs a s)"
  by (cases "listed s a") (simp_all add: typed_def reqs_def list_ok_def)

lemma owner_line:
  assumes "table_ok c s" "log_owner c pkt s" "pk_toLog pkt = Some la"
    and "reqs a s = [] \<or> canCoalesceRequest pkt (last (reqs a s))"
  shows "line c la \<noteq> a"
proof
  assume a: "line c la = a"
  then obtain r where r: "r \<in> set (reqs a s)" "isHtmTransactional (sr_pkt r)" and u: "pk_uid pkt = None"
    using assms(2,3) by (auto simp: log_owner_def)
  then have "pk_uid (sr_pkt (last (reqs a s))) = pk_uid (sr_pkt r)"
    using list_of [OF assms(1), of a] unfolding list_ok_def by (metis last_in_set list.set(1) empty_iff)
  then show False
    using r u assms(4) by (auto simp: canCoalesceRequest_def)
qed

lemma joins_superset: "joins c pkt s s' \<Longrightarrow> set (reqs b s) \<subseteq> set (reqs b s')"
proof -
  have "reqs b (t\<lparr>m_outstanding_count := n, m_pendingLogging := p, xm := w, mandatory_q := q\<rparr>) = reqs b t" for t n p w q
    by (simp add: reqs_def)
  moreover have "reqs b (set_reqs a l s) = (if b = a then l else reqs b s)" for a l
    by (simp add: reqs_def set_reqs_def)
  ultimately show "joins c pkt s s' \<Longrightarrow> set (reqs b s) \<subseteq> set (reqs b s')"
    unfolding joins_def by auto
qed

lemma pass_reqs: "passes s s' \<Longrightarrow> set (reqs b s) \<subseteq> set (reqs b s')"
  by (auto simp: passes_def reqs_def)

lemma join_typed:
  assumes ok: "table_ok c s" and owner: "log_owner c pkt s" and join: "joins c pkt s s'"
  shows "table_ok c s'"
proof -
  let ?a = "line c (pk_addr pkt)"
  from join obtain r w pend q where r: "sr_pkt r = pkt" and co: "reqs ?a s = [] \<or> canCoalesceRequest pkt (last (reqs ?a s))"
      and s': "s' = (set_reqs ?a (reqs ?a s @ [r]) s)
              \<lparr>m_outstanding_count := m_outstanding_count s + 1, m_pendingLogging := pend, xm := w, mandatory_q := q\<rparr>"
    unfolding joins_def by blast
  have l: "list_ok c ?a (reqs ?a s @ [r])"
    using owner owner_line [OF ok owner _ co] by (intro join_list [OF list_of [OF ok] co _ r]) (auto simp: log_owner_def)
  have "num_requests (smap_assign ?a (reqs ?a s @ [r]) (m_RequestTable s)) = num_requests (m_RequestTable s) + 1"
    using num_requests_assign [of "m_RequestTable s" ?a "reqs ?a s @ [r]"] ok by (auto simp: typed_def reqs_def split: option.splits)
  moreover have "set (reqs b s) \<subseteq> set (reqs b s')" for b
    by (rule joins_superset [OF join])
  moreover have "list_ok c b k \<and> k \<noteq> []" if "listed s' b = Some k" for b k
    using that ok l by (auto simp: s' set_reqs_def typed_def split: if_splits)
  moreover have "m_logRequestTable s' = m_logRequestTable s" "m_outstanding_count s' = m_outstanding_count s + 1"
      "m_RequestTable s' = smap_assign ?a (reqs ?a s @ [r]) (m_RequestTable s)"
    by (simp_all add: s' set_reqs_def)
  ultimately show ?thesis
    using ok unfolding typed_def by (simp add: subset_eq) blast
qed

lemma pass_view: "passes s s' \<Longrightarrow> tview s' = tview s"
  by (auto simp: passes_def tview_def)

lemma make_typed:
  assumes "table_ok c s" "log_owner c pkt s \<or> m_failedStorePkt s = Some (pk_id pkt)" "base_makeRequest c pkt s = Inr (st, s')"
  shows "table_ok c s'"
  using admission [OF assms(3)] join_typed [OF assms(1)] assms typed_view [OF pass_view] by blast

section \<open>Entry points\<close>

lemma suppress_list: "list_ok c a (map (\<lambda>r. if f r then r\<lparr>suppressed := True\<rparr> else r) l) = list_ok c a l"
proof -
  have "list_ok c a (map h l) = list_ok c a l" if "\<And>r. sr_pkt (h r) = sr_pkt r" for h
    by (simp add: list_ok_def that)
  then show ?thesis by simp
qed

lemma suppress_listed:
  "listed (suppressOutstandingRequests s) a =
     map_option (map (\<lambda>r. if isHtmTransactional (sr_pkt r) then r\<lparr>suppressed := True\<rparr> else r)) (listed s a)"
proof -
  have "smap_find (map (\<lambda>(a, l). (a, h l)) t) a = map_option h (smap_find t a)" for h :: "SequencerRequest list \<Rightarrow> SequencerRequest list" and t
    by (induction t) auto
  then show ?thesis by (simp add: suppressOutstandingRequests_def)
qed

lemma suppress_typed:
  assumes "table_ok c s" "m_RequestTable s' = m_RequestTable (suppressOutstandingRequests s)"
    "m_outstanding_count s' = m_outstanding_count s" "m_logRequestTable s' = m_logRequestTable s"
  shows "table_ok c s'"
proof -
  let ?h = "map (\<lambda>r. if isHtmTransactional (sr_pkt r) then r\<lparr>suppressed := True\<rparr> else r)"
  have l: "listed s' a = map_option ?h (listed s a)" for a
    using suppress_listed [of s a] assms(2) by simp
  have keys: "map fst (m_RequestTable s') = map fst (m_RequestTable s)"
    by (simp add: assms(2) suppressOutstandingRequests_def comp_def case_prod_beta)
  have "smap_ok (m_RequestTable s')"
    using assms(1) keys by (simp add: typed_def smap_ok_def)
  moreover have "num_requests (m_RequestTable s') = num_requests (m_RequestTable s)"
    by (simp add: assms(2) suppressOutstandingRequests_def num_requests_def comp_def case_prod_beta)
  moreover have "list_ok c a k \<and> k \<noteq> []" if k: "listed s' a = Some k" for a k
  proof -
    obtain k' where "listed s a = Some k'" "k = ?h k'"
      using k l [of a] by auto
    then show ?thesis
      using assms(1) suppress_list [of c a "\<lambda>r. isHtmTransactional (sr_pkt r)" k'] unfolding typed_def by auto
  qed
  moreover have "\<exists>r \<in> set (reqs a s'). isHtmTransactional (sr_pkt r)" if "\<exists>r \<in> set (reqs a s). isHtmTransactional (sr_pkt r)" for a
  proof -
    have "reqs a s' = ?h (reqs a s)"
      using l [of a] by (simp add: reqs_def split: option.split)
    then show ?thesis using that by (auto intro!: bexI [of _ "r\<lparr>suppressed := True\<rparr>" for r])
  qed
  ultimately show ?thesis
    using assms(1,3,4) unfolding typed_def by simp
qed

lemma event_typed: "table_ok c s \<Longrightarrow> event_frame s s' \<Longrightarrow> table_ok c s'"
  using suppress_typed [of c s s'] typed_view [of s' s c "{}" 0] by (auto simp: event_frame_def tview_def)

lemma answer_view: "post (\<lambda>s'. tview s' = tview s) (rubyHtmCallback pkt s)"
  unfolding rubyHtmCallback_def
  by (intro post_rbind post_if post_Inr) (simp_all add: tview_def respond_def split: option.split)

lemma owner_view: "log_owner c pkt s \<Longrightarrow> tview s' = tview s \<Longrightarrow> log_owner c pkt s'"
  by (simp add: log_owner_def reqs_def tview_def)

lemma makeRequest_typed:
  assumes "table_ok c s" and pkt: "pk_toLog pkt = None \<or> m_failedStorePkt s = Some (pk_id pkt)"
  shows "post (\<lambda>x. table_ok c (snd x)) (makeRequest c e pkt s)"
proof -
  have view: "table_ok c t" if "tview t = tview s" for t
    using typed_view [OF that] assms(1) by simp
  have cmd: "post (\<lambda>x. table_ok c (snd x)) (rbind (notifyXactionEvent c e pkt s) (\<lambda>s1. rbind (rubyHtmCallback pkt s1) (\<lambda>s2. Inr (RS_Issued, s2))))"
    by (rule post_seq [OF event_frames], rule post_seq [OF answer_view], rule post_Inr)
       (drule typed_view [where c = c and A = "{}" and k = 0], simp add: event_typed [OF assms(1)])
  have sink: "post (\<lambda>x. table_ok c (snd x)) (rbind (rubyHtmCallback pkt s) (\<lambda>s1. Inr (RS_Issued, s1)))"
    by (rule post_seq [OF answer_view], rule post_Inr) (simp add: view)
  have lazy: "post (\<lambda>x. tview (snd x) = tview s \<and> (\<forall>p. fst x = LazyCache p \<longrightarrow>
        pk_toLog p = None \<or> m_failedStorePkt (snd x) = Some (pk_id p))) (lazy_access c pkt (s\<lparr>xm := w\<rparr>))" for w
    unfolding lazy_access_def
    by (intro post_if post_Inr post_Inl post_rbind) (simp_all add: pkt tview_def)
  have make: "post (\<lambda>x. table_ok c (snd x)) (base_makeRequest c p t)"
    if "tview t = tview s" "pk_toLog p = None \<or> m_failedStorePkt t = Some (pk_id p)" for p t
  proof -
    have "log_owner c p t \<or> m_failedStorePkt t = Some (pk_id p)"
      using that(2) by (auto simp: log_owner_def)
    then show ?thesis
      using make_typed [OF view [OF that(1)]] by (auto simp: post_def)
  qed
  have rest: "post (\<lambda>x. table_ok c (snd x)) (rbind (lazy_access c pkt (s\<lparr>xm := w\<rparr>)) (\<lambda>(nxt, s2).
      case nxt of LazyDone status \<Rightarrow> Inr (status, s2) | LazyCache pkt1 \<Rightarrow> base_makeRequest c pkt1 s2))" for w
    by (intro post_seq [OF lazy] post_prod post_lazy_next post_Inr make) (auto simp: view)
  have go: "post (\<lambda>x. table_ok c (snd x)) (rbind (intercept_vaddr c pkt s) (\<lambda>(noaccess, s1).
      if noaccess then Inr (RS_Issued, respond pkt s1)
      else rbind (lazy_access c pkt s1) (\<lambda>(nxt, s2).
        case nxt of LazyDone status \<Rightarrow> Inr (status, s2) | LazyCache pkt1 \<Rightarrow> base_makeRequest c pkt1 s2)))"
    by (rule post_seq [OF intercept_xm]) (auto intro!: post_Inr rest view simp: tview_def respond_def)
  show ?thesis
    unfolding makeRequest_def by (intro post_if cmd post_Inl post_asrt sink go)
qed

lemma log_store_typed:
  assumes ok: "table_ok c s" and pkt: "line c (pk_addr pkt) = a" "\<exists>r \<in> set (reqs a s). isHtmTransactional (sr_pkt r)"
    and run: "log_store c pkt a d s = Inr (b, s')"
  shows "table_ok c s'"
proof -
  let ?tx = "\<lambda>t. \<exists>r \<in> set (reqs a t). isHtmTransactional (sr_pkt r)"
  from run obtain lr ev info s1 info1 s2 where info: "log_info c lr pkt (s\<lparr>xm := (xm s)\<lparr>evm := ev\<rparr>\<rparr>) = (info, s1)"
      and make: "makeLogRequests c info s1 = Inr (True, info1, s2)"
      and s': "s' = s2\<lparr>m_pendingLogging := smap_erase a (m_pendingLogging s2), m_logRequestTable := smap_assign a [info1] (m_logRequestTable s2)\<rparr>"
    by (rule log_store_shape)
  note i = log_info_shape [OF info]
  have step: "table_ok c u \<and> ?tx u" if "base_makeRequest c p t = Inr (st, u)" "p \<in> {logAddrPkt info, logDataPkt info}" "table_ok c t" "?tx t" for p t u st
  proof -
    have "log_owner c p t"
      using that(2,4) i(2-5) pkt(1) by (auto simp: log_owner_def)
    then have "table_ok c u"
      using make_typed [OF that(3) _ that(1)] by blast
    moreover have "set (reqs a t) \<subseteq> set (reqs a u)"
      using admission [OF that(1)] joins_superset pass_reqs by blast
    ultimately show ?thesis
      using that(4) by blast
  qed
  have "table_ok c s1" "?tx s1"
    using ok pkt(2) typed_view [of s1 s c "{}" 0] i(1) by (simp_all add: tview_def reqs_def)
  note s1 = this
  from make have "table_ok c s2 \<and> ?tx s2"
  proof (cases rule: makeLog_cases)
    case none
    then show ?thesis using s1 by simp
  next
    case one
    then show ?thesis using step s1 by blast
  next
    case (two st1 t st2)
    then show ?thesis using step [OF two(1) _ s1] step [OF two(2)] by blast
  qed
  then show ?thesis
    unfolding s' by (auto simp: typed_def reqs_def split: if_splits)
qed

lemma track_view: "post (\<lambda>s'. tview s' = tview s) (track_locked tx t a s)" "post (\<lambda>s'. tview s' = tview s) (track_unroll c a d s)"
  unfolding track_locked_def track_unroll_def Let_def by (intro post_intros post_rbind; simp add: tview_def)+

lemma leader_in: "l \<noteq> [] \<Longrightarrow> write_leader b l \<in> set l"
  by (auto simp: write_leader_def find_Some_iff split: option.split)

lemma logTransactionalStores_typed:
  assumes ok: "table_ok c s" and r: "r \<in> set (reqs a s)" "isHtmTransactional (sr_pkt r)"
  shows "post (\<lambda>x. table_ok c (snd x) \<and> (\<not> fst x \<longrightarrow> tview (snd x) = tview s)) (logTransactionalStores c (sr_pkt r) a d s)"
proof -
  have a: "line c (pk_addr (sr_pkt r)) = a"
    using list_of [OF ok, of a] r(1) by (auto simp: list_ok_def)
  have "post (\<lambda>x. table_ok c (snd x) \<and> (\<not> fst x \<longrightarrow> tview (snd x) = tview s)) (log_store c (sr_pkt r) a d (s\<lparr>xm := w\<rparr>))" for w
  proof -
    have "table_ok c (s\<lparr>xm := w\<rparr>)" "r \<in> set (reqs a (s\<lparr>xm := w\<rparr>))"
      using ok r(1) typed_view [of "s\<lparr>xm := w\<rparr>" s c "{}" 0] by (simp_all add: tview_def reqs_def)
    then show ?thesis
      using log_store_typed [OF _ a] r(2) unfolding post_def by (fastforce elim: log_store_shape)
  qed
  then show ?thesis
    unfolding logTransactionalStores_def by (intro post_asrt post_if post_Inr post_rbind) (simp add: ok)
qed

text \<open>Changes outside the table.\<close>

lemma xm_typed: "table_ok c s \<Longrightarrow> table_ok c (s\<lparr>xm := w\<rparr>)"
  using typed_view [of "s\<lparr>xm := w\<rparr>" s c "{}" 0] by (simp add: tview_def)

lemma flags_typed:
  "table_ok c (s\<lparr>m_failedCallback := b\<rparr>) = table_ok c s" "table_ok c (s\<lparr>m_specCallback := b\<rparr>) = table_ok c s"
  "table_ok c (s\<lparr>m_failedStorePkt := i\<rparr>) = table_ok c s" "table_ok c (s\<lparr>next_pkt := n\<rparr>) = table_ok c s"
  by (rule typed_view, simp add: tview_def)+

lemma readCallback_typed:
  assumes "table_ok c s" "smap_find (m_logRequestTable s) a = None"
  shows "post (\<lambda>x. table_ok c (snd x)) (readCallback c e a d s)"
  unfolding readCallback_def by (rule callbacks_typed(2)) (simp_all add: assms flags_typed)

lemma writeCallback_typed:
  assumes ok: "table_ok c s" and log: "smap_find (m_logRequestTable s) a = None"
  shows "post (\<lambda>x. table_ok c (snd x)) (writeCallback c e a nc d s)"
proof -
  let ?s = "\<lambda>b. s\<lparr>m_specCallback := b\<rparr>"
  let ?logged = "\<lambda>x. table_ok c (snd x) \<and> (\<not> fst x \<longrightarrow> smap_find (m_logRequestTable (snd x)) a = None)"
  have spec: "post (\<lambda>x. table_ok c (snd x)) (rbind (base_readCallback c (hitCallback hit_depth c e) a d (?s b)) (\<lambda>(d, s1).
      rbind (isolateTransactionStore c a (xm s1)) (\<lambda>w. Inr (d, s1\<lparr>xm := w\<rparr>))))" for b
    by (rule post_seq [OF callbacks_typed(2)]) (auto intro!: post_rbind post_Inr xm_typed simp: assms flags_typed)
  have log: "post ?logged (if isHtmTransactional (sr_pkt r) \<and> B then logTransactionalStores c (sr_pkt r) a d (?s b) else Inr (False, ?s b))"
    if "r \<in> set (reqs a (?s b))" for B b r
    using assms that
    by (intro post_if post_Inr post_mono [OF logTransactionalStores_typed]) (auto simp: flags_typed tview_def)
  have view: "table_ok c t" if "table_ok c u" "tview t = tview u" for t u
    using that typed_view by blast
  have fin: "post (\<lambda>x. table_ok c (snd x)) (rbind (base_writeCallback c (hitCallback hit_depth c e) a nc d s1) (\<lambda>(d, s2).
      rbind (track_locked tx t a s2) (\<lambda>s3. rbind (track_unroll c a d s3) (\<lambda>s4. Inr (d, s4)))))"
    if "table_ok c s1" "smap_find (m_logRequestTable s1) a = None" for s1 tx t
    by (intro post_seq [OF callbacks_typed(1) [OF that]] post_prod post_seq [OF track_view(1)] post_seq [OF track_view(2)] post_Inr)
       (use view in fastforce)
  show ?thesis
    unfolding writeCallback_def Let_def
    by (intro post_asrt post_if spec post_seq [OF log] post_prod post_Inr fin) (auto intro: leader_in)
qed

lemma end_failed_typed: "post (\<lambda>x. table_ok c (snd x)) r \<Longrightarrow> post (\<lambda>x. table_ok c (snd x)) (end_failed r)"
  unfolding end_failed_def by (erule post_seq) (auto intro!: post_Inr simp: flags_typed)

lemma invalidCallback_typed:
  assumes "table_ok c s" "smap_find (m_logRequestTable s) a = None"
  shows "post (\<lambda>x. table_ok c (snd x)) (invalidCallback c e a wr d s)"
  unfolding invalidCallback_def Let_def
  by (intro post_asrt post_rbind end_failed_typed post_if callbacks_typed) (simp_all add: assms flags_typed)

lemma reissue_typed:
  assumes "table_ok c s" "reissue_ok a s s'" "reqs a s \<noteq> []"
  shows "table_ok c s'"
proof -
  from assms(2) obtain w f where s': "s' = (set_reqs a (map f (reqs a s)) s)\<lparr>xm := w\<rparr>"
      and f: "\<And>r. pk_uid (sr_pkt (f r)) = pk_uid (sr_pkt r)" "\<And>r. pk_addr (sr_pkt (f r)) = pk_addr (sr_pkt r)"
        "\<And>r. pk_toLog (sr_pkt (f r)) = pk_toLog (sr_pkt r)"
    by (auto simp: reissue_ok_def)
  have "list_ok c a (map f (reqs a s))"
    using list_of [OF assms(1), of a] by (simp add: list_ok_def f)
  moreover have "num_requests (smap_assign a (map f (reqs a s)) (m_RequestTable s)) = num_requests (m_RequestTable s)"
    using num_requests_assign [of "m_RequestTable s" a "map f (reqs a s)"] assms(1) by (simp add: typed_def reqs_def)
  moreover have "reqs b s' = (if b = a then map f (reqs a s) else reqs b s)" for b
    by (simp add: s' set_reqs_def reqs_def)
  ultimately show ?thesis
    using assms(1,3) f(1) by (auto simp: typed_def s' set_reqs_def split: if_splits)
qed

lemma failed_write_typed:
  assumes "table_ok c s" "smap_find (m_logRequestTable s) a = None"
  shows "post (\<lambda>x. table_ok c (snd x)) (failed_write c e a d s)"
proof -
  let ?t = "s\<lparr>m_failedStorePkt := Some (pk_id (sr_pkt (hd (reqs a s))))\<rparr>"
  have retry: "post (\<lambda>x. table_ok c (snd x)) (rbind (updateReissueTime a ?t) (\<lambda>s1.
      rbind (makeRequest c e (sr_pkt (hd (reqs a s1))) s1) (\<lambda>(_, s2). Inr (d, s2))))" if "reqs a s \<noteq> []"
  proof (rule post_seq [OF reissue])
    fix s1 assume r: "reissue_ok a ?t s1"
    have "table_ok c s1"
      by (rule reissue_typed [OF _ r]) (use assms(1) that in \<open>simp_all add: flags_typed reqs_def\<close>)
    moreover have "m_failedStorePkt s1 = Some (pk_id (sr_pkt (hd (reqs a s1))))"
      using r that by (auto simp: reissue_ok_def reqs_def set_reqs_def hd_map)
    ultimately show "post (\<lambda>x. table_ok c (snd x)) (rbind (makeRequest c e (sr_pkt (hd (reqs a s1))) s1) (\<lambda>(_, s2). Inr (d, s2)))"
      by (intro post_seq [OF makeRequest_typed] post_prod post_Inr) simp_all
  qed
  have "reqs a s \<noteq> []" if "list_ex f (reqs a s)" for f
    using that by auto
  then show ?thesis
    unfolding failed_write_def Let_def by (intro post_if post_asrt callbacks_typed assms retry)
qed

lemma failedCallback_typed:
  assumes "table_ok c s" "smap_find (m_logRequestTable s) a = None"
  shows "post (\<lambda>x. table_ok c (snd x)) (failedCallback c e a n wr d s)"
proof -
  have notify: "post (\<lambda>t. table_ok c t \<and> smap_find (m_logRequestTable t) a = None) (failed_notify c a n pkt (s\<lparr>m_failedCallback := True\<rparr>))" for pkt
    unfolding failed_notify_def
    by (intro post_rbind post_intros) (simp_all add: assms flags_typed xm_typed)
  show ?thesis
    unfolding failedCallback_def
    by (intro post_asrt post_seq [OF notify] end_failed_typed post_if failed_write_typed callbacks_typed) simp_all
qed

lemma validate_typed:
  assumes "table_ok c s" shows "post (table_ok c) (validateConsumedData c e h a s)"
proof -
  have "post (\<lambda>x. table_ok c (snd x)) (makeRequest c e (validation_packet c a h s) (s\<lparr>next_pkt := n\<rparr>))" for n
    by (intro makeRequest_typed) (simp_all add: assms flags_typed validation_packet_def physical_write_def)
  then show ?thesis
    unfolding validateConsumedData_def
    by (intro post_if post_Inr assms) (rule post_seq, assumption, auto intro!: post_if post_Inr post_rbind xm_typed)
qed

lemma commit_typed:
  assumes "table_ok c s" "check_ok s" "lazyCommitEvent c e s = Inr s'" shows "table_ok c s'"
proof -
  let ?s = "s\<lparr>lazyCommitCheckEvent := None\<rparr>"
  from assms(2,3) obtain pkt s1 where ev: "notifyXactionEvent c e pkt ?s = Inr s1" and cb: "rubyHtmCallback pkt s1 = Inr s'"
    by (auto simp: lazyCommitEvent_def makeRequest_def check_ok_def rbind_eq_Inr split: option.splits)
  have "table_ok c ?s"
    using assms(1) typed_view [of ?s s c "{}" 0] by (simp add: tview_def)
  then have "table_ok c s1"
    by (rule event_typed [OF _ postD [OF event_frames ev]])
  then show ?thesis
    using typed_view [OF postD [OF answer_view cb], of c "{}" 0] by simp
qed

lemma buffer_view: "post (\<lambda>s'. tview s' = tview s) (writeBufferEvent s)"
  unfolding writeBufferEvent_def by (intro post_intros) (simp add: tview_def respond_def)

section \<open>Runs\<close>

text \<open>
  The contract of the cache controller: it answers a request once, so it does not answer a line
  whose store waits for the log.
\<close>

locale cache_contract =
  fixes c :: htm_params and answers :: "addr \<Rightarrow> seq \<Rightarrow> bool"
  assumes waits: "answers a s \<Longrightarrow> smap_find (m_logRequestTable s) a = None"
begin

lemma step_typed:
  assumes "seq_step c answers s s'" "seq_inv c limit s" "table_ok c s"
  shows "table_ok c s'"
  using assms(1)
proof cases
  case Request
  then show ?thesis using postD [OF makeRequest_typed [OF assms(3) disjI1]] by force
next
  case Validate
  then show ?thesis using postD [OF validate_typed [OF assms(3)]] by blast
next
  case Buffered
  then show ?thesis using typed_view [OF postD [OF buffer_view]] assms(3) by blast
next
  case Commit
  then show ?thesis using commit_typed [OF assms(3)] assms(2) by (simp add: seq_inv_def retry_ok_def)
next
  case Written
  then show ?thesis using postD [OF writeCallback_typed [OF assms(3) waits]] by force
next
  case Read
  then show ?thesis using postD [OF readCallback_typed [OF assms(3) waits]] by force
next
  case Failed
  then show ?thesis using postD [OF failedCallback_typed [OF assms(3) waits]] by force
next
  case Invalid
  then show ?thesis using postD [OF invalidCallback_typed [OF assms(3) waits]] by force
next
  case Manager
  then show ?thesis using xm_typed [OF assms(3)] by simp
qed

end

sublocale cache_contract \<subseteq> table: invariant_system "\<lambda>s. seq_inv c limit s \<and> table_ok c s" "seq_step c answers"
    "\<lambda>s. seq_inv c limit s \<and> table_ok c s" for limit
  by unfold_locales (blast intro: step_typed admitted.step_P)+

interpretation once: cache_contract c "\<lambda>a s. smap_find (m_logRequestTable s) a = None \<and> answers a s" for c answers
  by unfold_locales simp

lemma init_typed: "table_ok c (seq_init limit lockV rs w)"
  by (simp add: typed_def seq_init_def num_requests_def reqs_def)

section \<open>The depth of callbacks\<close>

text \<open>
  In a well-typed table every positive bound on the depth of callbacks gives the same result: the
  bound is never what ends a callback.
\<close>

lemma plain_depth:
  assumes "pk_toLog (sr_pkt r) = None"
  shows "hitCallback m c e r d ok s = hitCallback n c e r d ok s"
proof -
  have "(\<lambda>(fin, pkt, s1). if fin then Inr (d, s1) else if pk_toLog pkt \<noteq> None then f m pkt s1 else g pkt s1) x =
      (\<lambda>(fin, pkt, s1). if fin then Inr (d, s1) else if pk_toLog pkt \<noteq> None then f n pkt s1 else g pkt s1) x"
    if "hit_forwarded c (sr_pkt r) s = Inr x" for x f g
    using postD [OF forwarded_log that] assms by (cases x) simp
  then show ?thesis
    unfolding hitCallback.simps [of m] hitCallback.simps [of n]
    by (intro if_cong refl rbind_cong)
qed

lemma write_loop_cong:
  assumes "\<And>r r0 d ok s. r0 \<in> set l \<Longrightarrow> similar r r0 \<Longrightarrow> hit r d ok s = hit' r d ok s"
  shows "write_loop c hit a nc l rr u d s = write_loop c hit' a nc l rr u d s"
  using assms
proof (induction l arbitrary: rr u d s)
  case (Cons r l)
  let ?prep = "if \<not> is_load_type (sr_type r)
       then rbind (write_prepare c a r s) (\<lambda>(ok, r1, s1).
              if rr then asrt Seq_cc 428 (curCycle (xm s1) \<ge> issue_time r) (Inr (ok, r1, s1)) else Inr (ok, r1, s1))
       else asrt Seq_cc 607 (\<not> rr) (Inr (True, r, s))"
  have prep: "post (\<lambda>x. similar (fst (snd x)) r) ?prep"
    by (intro post_if post_seq [OF write_prepare_view] post_prod post_asrt post_Inr) auto
  have "(\<lambda>(success, r1, s1). rbind (hit r1 d success (markRemoved s1)) (\<lambda>(d1, s2).
           write_loop c hit a nc l False u' d1 (set_reqs a l s2))) x =
        (\<lambda>(success, r1, s1). rbind (hit' r1 d success (markRemoved s1)) (\<lambda>(d1, s2).
           write_loop c hit' a nc l False u' d1 (set_reqs a l s2))) x" if "?prep = Inr x" for u' x
  proof -
    obtain ok r1 s1 where x: "x = (ok, r1, s1)" by (cases x) auto
    have "similar r1 r"
      using postD [OF prep that] by (simp add: x)
    then have "hit r1 d ok (markRemoved s1) = hit' r1 d ok (markRemoved s1)"
      using Cons.prems [of r] by simp
    moreover have "write_loop c hit a nc l False u' d1 t = write_loop c hit' a nc l False u' d1 t" for d1 t
      by (rule Cons.IH, rule Cons.prems) simp_all
    ultimately show ?thesis
      by (simp add: x)
  qed
  then show ?case
    unfolding write_loop.simps by (intro if_cong refl rbind_cong)
qed simp

lemma hit_depth_enough:
  assumes ok: "typed c {a} 1 s" "listed s a = Some (r0 # l)" and r: "similar r r0"
  shows "hitCallback (Suc m) c e r d b s = hitCallback (Suc n) c e r d b s"
proof -
  have same: "log_done c (hitCallback m c e) x sa y t = log_done c (hitCallback n c e) x sa y t"
    if "\<forall>r \<in> set (reqs sa t). pk_toLog (sr_pkt r) = None" for x sa y t
  proof -
    have "base_writeCallback c (hitCallback m c e) sa False sd (set_dcache dm t)
        = base_writeCallback c (hitCallback n c e) sa False sd (set_dcache dm t)" for sd dm
    proof -
      have "write_loop c (hitCallback m c e) sa False (reqs sa t) True 0 sd (set_dcache dm t)
          = write_loop c (hitCallback n c e) sa False (reqs sa t) True 0 sd (set_dcache dm t)"
        by (rule write_loop_cong, rule plain_depth) (use that in \<open>auto simp: similar_def\<close>)
      moreover have "reqs sa (set_dcache dm t) = reqs sa t"
        by (simp add: reqs_def set_dcache_def)
      ultimately show ?thesis
        by (simp add: base_writeCallback_def)
    qed
    then show ?thesis
      by (simp only: log_done_def)
  qed
  have "handleStoresToLog c (hitCallback m c e) x pkt d t = handleStoresToLog c (hitCallback n c e) x pkt d t"
    if "pk_toLog pkt = pk_toLog (sr_pkt r)" "tview t = tview s" for x pkt t
  proof (cases "pk_toLog pkt")
    case (Some la)
    have "list_ok c a (r0 # l)"
      using ok by (simp add: typed_def)
    with Some have la: "line c la \<noteq> a"
      using r that(1) by (simp add: list_ok_def similar_def)
    have "typed c {a} 1 t"
      using typed_view [OF that(2)] ok(1) by simp
    then have "\<forall>r \<in> set (reqs (line c la) t). pk_toLog (sr_pkt r) = None" if "smap_find (m_logRequestTable t) (line c la) \<noteq> None"
      using logged_plain that la by auto
    then have "log_done c (hitCallback m c e) x (line c la) y (t\<lparr>m_logRequestTable := i\<rparr>)
        = log_done c (hitCallback n c e) x (line c la) y (t\<lparr>m_logRequestTable := i\<rparr>)"
      if "smap_find (m_logRequestTable t) (line c la) = Some z" for y i z
      using that by (intro same) (simp add: reqs_def)
    then show ?thesis
      using Some by (simp add: handleStoresToLog_def getHtmLoggedStoreAddr_def Let_def split: option.split cong: if_cong)
  qed (simp add: handleStoresToLog_def getHtmLoggedStoreAddr_def)
  then have "(\<lambda>(fin, pkt, s1). if fin then Inr (d, s1) else if pk_toLog pkt \<noteq> None
        then handleStoresToLog c (hitCallback m c e) (line c (pk_addr pkt)) pkt d s1 else f pkt s1) x =
      (\<lambda>(fin, pkt, s1). if fin then Inr (d, s1) else if pk_toLog pkt \<noteq> None
        then handleStoresToLog c (hitCallback n c e) (line c (pk_addr pkt)) pkt d s1 else f pkt s1) x"
    if "hit_forwarded c (sr_pkt r) s = Inr x" for x f
    using postD [OF forwarded_log that] by (cases x) simp
  then show ?thesis
    unfolding hitCallback.simps [of "Suc m"] hitCallback.simps [of "Suc n"] nat.case
    by (intro if_cong refl rbind_cong)
qed

end
