(* ===== verification/Seq_Properties.thy ===== *)
theory Seq_Properties
  imports Seq_Typing
begin

text \<open>
  What the invariants of the sequencer give: the bound on outstanding requests, the retry of pending
  commits, the admission of the stores to the log, and the assertion that a refused access outside
  every transaction fails.
\<close>

section \<open>Runs of the sequencer\<close>

lemma seq_init_inv: "0 \<le> limit \<Longrightarrow> seq_inv c limit (seq_init limit lockV rs w)"
  by (simp add: seq_inv_def within_capacity_def retry_ok_def check_ok_def seq_init_def)

lemma seq_run_inv: "(seq_step c answers)\<^sup>*\<^sup>* (seq_init limit lockV rs w) s \<Longrightarrow> 0 \<le> limit \<Longrightarrow> seq_inv c limit s"
  by (rule admitted.runs.run_inv [OF _ seq_init_inv])

text \<open>A processor that runs a transaction with an undo log at 0x100000, and its first store.\<close>

abbreviation lt_params :: htm_params where
  "lt_params \<equiv> logtm_params requester_stalls_cda_base"

definition logger :: xact where
  "logger = (running_tx lt_params)
     \<lparr>evm := \<lparr>m_initStatus = Ready, m_logBaseVAddr = 0x100000, m_logTLB = [(0x100000, 0x40000)], m_logNumEntries = 0\<rparr>,
      dcache := [(0x1200, \<lparr>m_Permission = Read_Write, m_DataBlk = replicate 64 7, m_htmLogPending = False\<rparr>)]\<rparr>"

definition some_htm :: htm_packet where
  "some_htm = \<lparr>pkt_uid = 7, pkt_xid = 3, pkt_power = False, pkt_requestorId = 1, pkt_time = 5000, pkt_abortCause = INVALID\<rparr>"

definition tx_store :: packet where
  "tx_store = (physical_write 100 0x1208 [1, 2, 3, 4] some_htm)\<lparr>pk_uid := Some 7, pk_vaddr := Some 0x5208, pk_hasPC := True\<rparr>"

definition plain_env :: seq_env where
  "plain_env = \<lparr>env_issue = (\<lambda>_. True), env_mgrs = [], env_downgrade = False, env_amoArch = False\<rparr>"

definition logger_seq :: seq where
  "logger_seq = (case makeRequest lt_params plain_env tx_store (seq_init 3 0x9000 [] logger) of
     Inr (_, s) \<Rightarrow> s | Inl _ \<Rightarrow> seq_init 3 0x9000 [] logger)"

lemma logger_request:
  "case makeRequest lt_params plain_env tx_store (seq_init 3 0x9000 [] logger) of
     Inr (st, s) \<Rightarrow> st = RS_Issued \<and> m_outstanding_count s = 1 \<and> m_pendingLogging s = [(0x1200, True)]
       \<and> m_max_outstanding_requests s = 3 \<and> List.null (m_logRequestTable s) \<and> blocked s = []
       \<and> map fst (m_RequestTable s) = [0x1200]
       \<and> (case buildLogPackets lt_params True (Some 0x5208) (replicate 64 7) (evm (xm s)) of
            Inr (lr, _) \<Rightarrow> line lt_params (logAddrPkt_addr lr) = 0x40fc0 \<and> line lt_params (logDataPkt_addr lr) = 0x40000
          | Inl _ \<Rightarrow> False)
   | Inl _ \<Rightarrow> False"
  by code_simp

lemma logger_made:
  obtains st where "makeRequest lt_params plain_env tx_store (seq_init 3 0x9000 [] logger) = Inr (st, logger_seq)"
  using logger_request by (auto simp: logger_seq_def split: sum.splits)

lemma logger_facts:
  "m_outstanding_count logger_seq = 1" "m_pendingLogging logger_seq = [(0x1200, True)]" "m_logRequestTable logger_seq = []"
  "blocked logger_seq = []" "map fst (m_RequestTable logger_seq) = [0x1200]"
proof -
  obtain st where "makeRequest lt_params plain_env tx_store (seq_init 3 0x9000 [] logger) = Inr (st, logger_seq)"
    by (rule logger_made)
  with logger_request show "m_outstanding_count logger_seq = 1" "m_pendingLogging logger_seq = [(0x1200, True)]"
      "m_logRequestTable logger_seq = []" "blocked logger_seq = []" "map fst (m_RequestTable logger_seq) = [0x1200]"
    by simp_all
qed

lemma logger_builds:
  obtains lr ev where "buildLogPackets lt_params True (Some 0x5208) (replicate 64 7) (evm (xm logger_seq)) = Inr (lr, ev)"
    "line lt_params (logAddrPkt_addr lr) = 0x40fc0" "line lt_params (logDataPkt_addr lr) = 0x40000"
proof -
  obtain st where "makeRequest lt_params plain_env tx_store (seq_init 3 0x9000 [] logger) = Inr (st, logger_seq)"
    by (rule logger_made)
  with logger_request show thesis
    by (cases "buildLogPackets lt_params True (Some 0x5208) (replicate 64 7) (evm (xm logger_seq))") (auto intro: that)
qed

lemma logger_run: "(seq_step lt_params answers)\<^sup>*\<^sup>* (seq_init 3 0x9000 [] logger) logger_seq"
proof (rule r_into_rtranclp)
  obtain st where "makeRequest lt_params plain_env tx_store (seq_init 3 0x9000 [] logger) = Inr (st, logger_seq)"
    by (rule logger_made)
  moreover have "pk_toLog tx_store = None"
    by (simp add: tx_store_def physical_write_def)
  ultimately show "seq_step lt_params answers (seq_init 3 0x9000 [] logger) logger_seq"
    by (intro seq_step.Request)
qed

section \<open>Outstanding requests\<close>

text \<open>
  C9. The request table never overflows. Whatever the processor asks for and the cache answers,
  the requests that are outstanding together with the two entries reserved for each store that still
  has to be logged never exceed the size of the table.
\<close>

theorem outstanding_bounded:
  assumes "(seq_step c answers)\<^sup>*\<^sup>* (seq_init limit lockV rs w) s" and "0 \<le> limit"
  shows "m_outstanding_count s + 2 * int (length (m_pendingLogging s)) \<le> limit"
  using seq_run_inv [OF assms] by (simp add: seq_inv_def within_capacity_def)

theorem outstanding_bounded_witness:
  "m_outstanding_count logger_seq = 1 \<and> length (m_pendingLogging logger_seq) = 1
     \<and> m_outstanding_count logger_seq + 2 * int (length (m_pendingLogging logger_seq)) \<le> 3"
  using outstanding_bounded [OF logger_run] by (simp add: logger_facts)

text \<open>
  C8. The request table is well typed. As long as the cache answers no line whose store waits for
  the log, every list of the table is non-empty and holds requests for its line that all belong to
  the same transaction or to none, so the callbacks never mix transactions; and the counter of
  outstanding requests is the number of requests in the table, as the deadlock check asserts.
\<close>

theorem request_table_typed:
  assumes run: "(seq_step c (\<lambda>a s. smap_find (m_logRequestTable s) a = None \<and> answers a s))\<^sup>*\<^sup>* (seq_init limit lockV rs w) s"
    and "0 \<le> limit"
  shows "(\<forall>a l. smap_find (m_RequestTable s) a = Some l \<longrightarrow> l \<noteq> []
      \<and> (\<forall>r \<in> set l. line c (pk_addr (sr_pkt r)) = a \<and> pk_uid (sr_pkt r) = pk_uid (sr_pkt (hd l))))
    \<and> m_outstanding_count s = int (sum_list (map (length \<circ> snd) (m_RequestTable s)))"
proof -
  have "table_ok c s"
    using once.table.run_inv [OF run] seq_init_inv [OF \<open>0 \<le> limit\<close>] init_typed by blast
  then have "\<And>a l. smap_find (m_RequestTable s) a = Some l \<Longrightarrow> list_ok c a l \<and> l \<noteq> []"
      "m_outstanding_count s = int (sum_list (map (length \<circ> snd) (m_RequestTable s)))"
    by (simp_all add: typed_def num_requests_def)
  then show ?thesis
    by (blast dest: list_ok_uniform)
qed

theorem request_table_typed_witness:
  "m_outstanding_count logger_seq = 1 \<and> m_outstanding_count logger_seq = int (sum_list (map (length \<circ> snd) (m_RequestTable logger_seq)))
     \<and> (\<exists>l. smap_find (m_RequestTable logger_seq) 0x1200 = Some l \<and> l \<noteq> [] \<and> line lt_params (pk_addr (sr_pkt (hd l))) = 0x1200)"
proof -
  obtain l where l: "smap_find (m_RequestTable logger_seq) 0x1200 = Some l"
    using logger_facts(5) by (cases "m_RequestTable logger_seq") auto
  have "l \<noteq> [] \<and> (\<forall>r \<in> set l. line lt_params (pk_addr (sr_pkt r)) = 0x1200)
      \<and> m_outstanding_count logger_seq = int (sum_list (map (length \<circ> snd) (m_RequestTable logger_seq)))"
    using request_table_typed [OF logger_run] l by simp
  with l show ?thesis
    by (auto simp: logger_facts(1))
qed

text \<open>
  C15. A pending commit is always tried again. In every reachable state in which a commit is
  pending, the event that makes the commit command again is scheduled, with a commit command as its
  packet, so no pending commit is forgotten.
\<close>

theorem pending_commit_retried:
  assumes "(seq_step c answers)\<^sup>*\<^sup>* (seq_init limit lockV rs w) s" and "0 \<le> limit" and "m_commitPending s"
  shows "\<exists>pkt. lazyCommitCheckEvent s = Some pkt \<and> pk_cmd pkt = Some HTMCommit"
  using seq_run_inv [OF assms(1,2)] assms(3) by (auto simp: seq_inv_def retry_ok_def check_ok_def)

definition tx_commit :: packet where
  "tx_commit = (physical_write 101 0x9000 [0] some_htm)\<lparr>pk_isWrite := False, pk_isRead := True, pk_uid := Some 7, pk_cmd := Some HTMCommit\<rparr>"

definition consumer_seq :: seq where
  "consumer_seq = (case makeRequest fwd_params plain_env tx_commit (seq_init 3 0x9000 [] (consuming_tx fwd_params 0x1200 (replicate 64 0))) of
     Inr (_, s) \<Rightarrow> s | Inl _ \<Rightarrow> seq_init 3 0x9000 [] logger)"

lemma consumer_request:
  "case makeRequest fwd_params plain_env tx_commit (seq_init 3 0x9000 [] (consuming_tx fwd_params 0x1200 (replicate 64 0))) of
     Inr (st, s) \<Rightarrow> m_commitPending s | Inl _ \<Rightarrow> False"
  by code_simp

theorem pending_commit_retried_witness:
  "m_commitPending consumer_seq \<and> (\<exists>pkt. lazyCommitCheckEvent consumer_seq = Some pkt \<and> pk_cmd pkt = Some HTMCommit)"
proof -
  let ?s = "seq_init 3 0x9000 [] (consuming_tx fwd_params 0x1200 (replicate 64 0))"
  obtain st where run: "makeRequest fwd_params plain_env tx_commit ?s = Inr (st, consumer_seq)" and p: "m_commitPending consumer_seq"
    using consumer_request by (auto simp: consumer_seq_def split: sum.splits)
  have "pk_toLog tx_commit = None"
    by (simp add: tx_commit_def physical_write_def)
  then have "(seq_step fwd_params (\<lambda>_ _. True))\<^sup>*\<^sup>* ?s consumer_seq"
    using run by (intro r_into_rtranclp seq_step.Request)
  then show ?thesis
    using pending_commit_retried [OF _ _ p] p by simp
qed

section \<open>Stores to the log\<close>

lemma flags_total:
  assumes "pk_uid pkt = None" "\<not> pk_validation pkt"
  shows "\<exists>s'. issueRequest c pkt ST s = Inr s'"
proof -
  obtain h where "tryCacheAccess c (line c (pk_addr pkt)) LD (dcache (xm s)) = Inr h"
    by (auto simp: tryCacheAccess_def cache_lookup_def asrt_def rbind_def)
  then show ?thesis
    using assms by (auto simp: issueRequest_def setFlagsPreIssueRequest_def Let_def asrt_def rbind_def)
qed

lemma coalesce_plain: "pk_uid pkt = None \<Longrightarrow> canCoalesceRequest pkt r \<longleftrightarrow> \<not> isHtmTransactional (sr_pkt r)"
  by (simp add: canCoalesceRequest_def)

definition log_packet_ok :: "packet \<Rightarrow> addr \<Rightarrow> bool" where
  "log_packet_ok pkt la \<longleftrightarrow> pk_toLog pkt = Some la \<and> pk_uid pkt = None \<and> pk_cmd pkt = None \<and> pk_isWrite pkt
     \<and> \<not> pk_isRead pkt \<and> \<not> pk_isLLSC pkt \<and> \<not> pk_isLockedRMW pkt \<and> \<not> pk_validation pkt"

lemma insert_total:
  assumes "log_packet_ok pkt la" and "\<forall>r \<in> set (reqs (line c (pk_addr pkt)) s). \<not> isHtmTransactional (sr_pkt r)"
  shows "\<exists>st s'. insertRequest c pkt ST ST s = Inr (st, s') \<and> st \<in> {RS_Ready, RS_Aliased}"
  using assms
  by (auto simp: insertRequest_def base_insertRequest_def insert_logging_def insert_read_set_def log_packet_ok_def
      coalesce_plain Let_def asrt_def rbind_def)

text \<open>A store to the log is issued when there is room for it and its line is free.\<close>

lemma log_make_issues:
  assumes pkt: "log_packet_ok pkt la" and c: "\<not> lazy_vm c"
    and pend: "smap_find (m_pendingLogging s) (line c la) = Some True"
    and room: "m_outstanding_count s + 2 * int (length (m_pendingLogging s)) - 2 < m_max_outstanding_requests s"
    and free: "line c (pk_addr pkt) \<notin> set (blocked s)"
      "\<forall>r \<in> set (reqs (line c (pk_addr pkt)) s). \<not> isHtmTransactional (sr_pkt r)"
  shows "\<exists>s'. base_makeRequest c pkt s = Inr (RS_Issued, s')"
proof -
  have "canMakeRequest c pkt s = Inr True"
    using pkt c pend room
    by (simp add: canMakeRequest_def reserved_mshrs_def getHtmLoggedStoreAddr_def log_packet_ok_def Let_def asrt_def rbind_def)
  moreover have "request_types pkt = Inr (ST, ST)"
    using pkt by (simp add: request_types_def log_packet_ok_def)
  moreover obtain st s1 where ins: "insertRequest c pkt ST ST s = Inr (st, s1)" "st \<in> {RS_Ready, RS_Aliased}"
    using insert_total [OF pkt free(2)] by blast
  moreover obtain s2 where "issueRequest c pkt ST s1 = Inr s2"
    using flags_total [of pkt c s1] pkt by (auto simp: log_packet_ok_def)
  ultimately show ?thesis
    using free(1) by (auto simp: base_makeRequest_def rbind_def asrt_def)
qed

text \<open>What an admitted store to the log leaves to the second one.\<close>

lemma log_make_frame:
  assumes "base_makeRequest c pkt s = Inr (st, s')" "pk_uid pkt = None"
  shows "blocked s' = blocked s \<and> m_logRequestTable s' = m_logRequestTable s
     \<and> (\<forall>b. \<forall>r \<in> set (reqs b s'). r \<in> set (reqs b s) \<or> sr_pkt r = pkt)"
  using admission [OF assms(1)]
  by (auto simp: passes_def joins_def set_reqs_def reqs_def split: if_splits option.splits)

lemma log_packets_ok: "log_info c lr pkt s = (info, s') \<Longrightarrow>
    log_packet_ok (logAddrPkt info) (pk_addr pkt) \<and> log_packet_ok (logDataPkt info) (pk_addr pkt)
    \<and> logAddrPktStatus info = RS_NULL \<and> logDataPktStatus info = RS_NULL"
  by (auto simp: log_info_def log_packet_ok_def log_packet_def physical_write_def)

lemma log_makes_issue:
  assumes info: "log_packet_ok (logAddrPkt info) la" "log_packet_ok (logDataPkt info) la"
      "logAddrPktStatus info = RS_NULL" "logDataPktStatus info = RS_NULL" and c: "\<not> lazy_vm c"
    and pend: "smap_find (m_pendingLogging s) (line c la) = Some True" and room: "within_capacity c limit s"
    and free: "\<forall>pkt \<in> {logAddrPkt info, logDataPkt info}. line c (pk_addr pkt) \<notin> set (blocked s)
        \<and> (\<forall>r \<in> set (reqs (line c (pk_addr pkt)) s). \<not> isHtmTransactional (sr_pkt r))"
  shows "\<exists>info' s'. makeLogRequests c info s = Inr (True, info', s') \<and> m_pendingLogging s' = m_pendingLogging s
     \<and> m_logRequestTable s' = m_logRequestTable s"
proof -
  have room1: "m_outstanding_count s + 2 * int (length (m_pendingLogging s)) - 2 < m_max_outstanding_requests s"
    using room by (simp add: within_capacity_def)
  obtain s1 where s1: "base_makeRequest c (logAddrPkt info) s = Inr (RS_Issued, s1)"
    using log_make_issues [OF info(1) c pend room1] free by auto
  have u: "pk_uid (logAddrPkt info) = None" "pk_uid (logDataPkt info) = None"
    using info(1,2) by (simp_all add: log_packet_ok_def)
  note k1 = log_make_counts [OF s1 u(1)] log_make_frame [OF s1 u(1)]
  have room2: "m_outstanding_count s1 + 2 * int (length (m_pendingLogging s1)) - 2 < m_max_outstanding_requests s1"
    using k1(1) room by (simp add: within_capacity_def)
  have free2: "line c (pk_addr (logDataPkt info)) \<notin> set (blocked s1)"
      "\<forall>r \<in> set (reqs (line c (pk_addr (logDataPkt info))) s1). \<not> isHtmTransactional (sr_pkt r)"
    using k1(2) free u(1) by fastforce+
  obtain s2 where s2: "base_makeRequest c (logDataPkt info) s1 = Inr (RS_Issued, s2)"
    using log_make_issues [OF info(2) c _ room2 free2] pend k1(1) by auto
  show ?thesis
    using s1 s2 info(3,4) k1 log_make_counts [OF s2 u(2)] log_make_frame [OF s2 u(2)]
    by (simp add: makeLogRequests_def rbind_def Let_def)
qed

text \<open>
  C14. The entries reserved for the log are enough. Whenever a store that has reserved its entries
  comes to be logged, with the log set up and no line of the log blocked or with an outstanding
  transactional request, both of its stores to the log are issued: the panic "Cannot make log
  requests!" is never reached for lack of room.
\<close>

theorem log_stores_issue:
  assumes run: "(seq_step c answers)\<^sup>*\<^sup>* (seq_init limit lockV rs w) s" and "0 \<le> limit"
    and c: "\<not> lazy_vm c" and pend: "smap_find (m_pendingLogging s) (line c (pk_addr pkt)) = Some True"
    and none: "smap_find (m_logRequestTable s) (line c (pk_addr pkt)) = None"
    and build: "buildLogPackets c (isHtmTransactional pkt) (pk_vaddr pkt) d (evm (xm s)) = Inr (lr, ev)"
    and free: "\<forall>l \<in> {line c (logAddrPkt_addr lr), line c (logDataPkt_addr lr)}. l \<notin> set (blocked s)
        \<and> (\<forall>r \<in> set (reqs l s). \<not> isHtmTransactional (sr_pkt r))"
  shows "\<exists>s'. log_store c pkt (line c (pk_addr pkt)) d s = Inr (True, s')"
proof -
  let ?s = "s\<lparr>xm := (xm s)\<lparr>evm := ev\<rparr>\<rparr>"
  obtain info s1 where info: "log_info c lr pkt ?s = (info, s1)"
    by (cases "log_info c lr pkt ?s") auto
  note i = log_info_shape [OF info] log_packets_ok [OF info]
  have "within_capacity c limit s1"
    using seq_run_inv [OF run \<open>0 \<le> limit\<close>] i(1) by (simp add: seq_inv_def within_capacity_def)
  moreover have "reqs l s1 = reqs l s" "blocked s1 = blocked s" for l
    using i(1) by (simp_all add: reqs_def)
  ultimately obtain info' s2 where "makeLogRequests c info s1 = Inr (True, info', s2)"
      "m_pendingLogging s2 = m_pendingLogging s" "m_logRequestTable s2 = m_logRequestTable s"
    using log_makes_issue [of info "pk_addr pkt" c s1 limit] i c pend free by auto
  then show ?thesis
    using none build info pend by (auto simp: log_store_def asrt_def rbind_def)
qed

theorem log_stores_issue_witness:
  "\<exists>s'. log_store lt_params tx_store 0x1200 (replicate 64 7) logger_seq = Inr (True, s')"
proof -
  have t: "line lt_params (pk_addr tx_store) = 0x1200" "isHtmTransactional tx_store" "pk_vaddr tx_store = Some 0x5208"
    by (simp_all add: tx_store_def physical_write_def) code_simp
  obtain lr ev where lr: "buildLogPackets lt_params True (Some 0x5208) (replicate 64 7) (evm (xm logger_seq)) = Inr (lr, ev)"
      "line lt_params (logAddrPkt_addr lr) = 0x40fc0" "line lt_params (logDataPkt_addr lr) = 0x40000"
    by (rule logger_builds)
  have "reqs 0x40fc0 logger_seq = []" "reqs 0x40000 logger_seq = []"
    using logger_facts(5) by (auto simp: reqs_def)
  then show ?thesis
    using log_stores_issue [OF logger_run, where pkt = tx_store and d = "replicate 64 7" and lr = lr and ev = ev] lr t
    by (simp add: logger_facts)
qed

section \<open>Refused accesses outside transactions\<close>

text \<open>
  C40. A refused access outside every transaction stops the simulator. When the oldest request of a
  line is not part of a transaction and the line was not forwarded, the callback for its refusal
  always fails the assertion of \<^verbatim>\<open>getHtmTransactionUid\<close>: the callback reads the transaction of the
  packet without asking whether it has one.
\<close>

theorem plain_refusal_asserts:
  assumes "reqs a s \<noteq> []" and "pk_uid (sr_pkt (hd (reqs a s))) = None"
    and "config_allowEarlyValueFwd (xm s) \<longrightarrow> \<not> isBlockConsumed c (xm s) a"
  shows "failedCallback c e a n wr d s = Inl (AssertFail Packet_cc 538)"
  using assms by (auto simp: failedCallback_def failed_notify_def getHtmTransactionUid_def asrt_def rbind_def)

definition plain_read :: packet where
  "plain_read = (physical_write 102 0x1208 [0, 0, 0, 0] some_htm)\<lparr>pk_isWrite := False, pk_isRead := True\<rparr>"

theorem plain_refusal_asserts_witness:
  "failedCallback lt_params plain_env 0x1200
     \<lparr>nack_timestamp = 5, nack_trans = TransactionBit_Trans, nack_priority = 0, nack_sw_priority = False,
      nack_from = \<lparr>mach_type = L1Cache, mach_num = 0\<rparr>\<rparr> False (replicate 64 0)
     (set_reqs 0x1200 [\<lparr>sr_pkt = plain_read, sr_type = LD, sr_second_type = LD, issue_time = 10, reissue_time = 0, suppressed = False\<rparr>]
        (seq_init 3 0x9000 [] logger)) = Inl (AssertFail Packet_cc 538)"
  by (rule plain_refusal_asserts)
     (simp_all add: set_reqs_def seq_init_def reqs_def plain_read_def physical_write_def isBlockConsumed_def logger_def)

end
