(* ===== verification/Spec2Isabelle.thy ===== *)
theory Spec2Isabelle
  imports Isolation Lazy_Version Eager_Version Checkers Lazy_System Forward_Graph Cache_Probe Seq_Properties
begin

text \<open>
  \<^bold>\<open>Hardware transactional memory of the Ruby memory system\<close> (gem5 with the CHATS extensions).

  \<^bold>\<open>The program.\<close> A processor runs transactions against its private L0 cache. Its requests and the
  answers of the cache pass through a \<^emph>\<open>sequencer\<close> (\<^verbatim>\<open>mem/ruby/system/Sequencer.cc\<close>,
  \<^verbatim>\<open>TransactionalSequencer.cc\<close>), which keeps a table of outstanding requests, serves loads from the
  write buffer, writes the undo log and answers the transactional commands. Its
  \<^emph>\<open>transaction interface manager\<close> (\<^verbatim>\<open>TransactionInterfaceManager.cc\<close>, all of \<^verbatim>\<open>mem/ruby/htm\<close> unless
  another directory is named) receives begin, commit and abort from the processor and conflict,
  nack and data notifications from the coherence protocol. It owns an \<^emph>\<open>isolation manager\<close> with the
  read and write sets, a \<^emph>\<open>conflict manager\<close> that decides who loses when a remote request hits
  these sets, a \<^emph>\<open>version manager\<close>, lazy (a write buffer that is flushed at commit) or eager (an undo
  log in memory that software unrolls after an abort), and, with lazy conflict detection, a
  \<^emph>\<open>commit arbiter\<close>. With CHATS a transaction can forward speculative values to a transaction it
  nacks; the consumer validates them before it commits, and numeric priorities keep the dependencies
  acyclic. Two \<^emph>\<open>checkers\<close> shared by all processors test isolation and values at run time. The
  configuration, the failure causes and the commit token live in the HTM object (\<^verbatim>\<open>mem/htm.cc\<close>); the
  lines live in a set-associative \<^emph>\<open>cache memory\<close> (\<^verbatim>\<open>mem/ruby/structures/CacheMemory.cc\<close>) with a
  \<^emph>\<open>replacement policy\<close> (\<^verbatim>\<open>mem/cache/replacement_policies\<close>).

  \<^bold>\<open>How code becomes definitions.\<close> A class is a record, an enum a datatype, a member function a
  function from the state to \<open>fault + result\<close>. Every \<^verbatim>\<open>assert\<close>, \<^verbatim>\<open>panic\<close> and use of an invalid
  iterator, index or null pointer is a value \<open>Inl (AssertFail file line)\<close>, \<open>PanicAt\<close> or \<open>UndefinedAt\<close>
  with the line of the source, so a theorem that concludes \<open>Inr\<close> says that none of them is reached.
  \<^verbatim>\<open>std::map\<close> and \<^verbatim>\<open>std::set\<close> are sorted association lists, \<^verbatim>\<open>std::vector\<close> is a list, addresses are
  64-bit words, bytes 8-bit words, and an \<^verbatim>\<open>int\<close> that is computed with (\<open>cint\<close>) wraps at 32 bits.
  Loops are structural recursion or \<^theory_text>\<open>function\<close> with a termination proof; the two loops whose end
  depends on the state are \<open>sc_search\<close>, shown to end, and \<open>probe_loop\<close>, a \<^theory_text>\<open>partial_function\<close> whose value
  is \<open>None\<close> when the loop does not end. The one recursion with a bound is \<open>hitCallback\<close>, explained below. What the code asks of its surroundings (the
  clock, random numbers, whether the sequencer issues a request, page translation, the protocol's
  \<^verbatim>\<open>invalidateEntry\<close>) is an argument.

  \<^bold>\<open>Theories and what they show.\<close>

  \<^item> \<open>HTM_Prelude\<close>: outcomes of operations, ordered maps (locale \<open>ordered_map\<close>), and two locales for
    transition systems, \<open>finishing_system\<close> (a measure goes down until the work is done) and
    \<open>invariant_system\<close> (an invariant holds in every reachable state).

  \<^item> \<open>Htm_Policy\<close> (\<^verbatim>\<open>mem/htm.hh\<close>, \<^verbatim>\<open>mem/htm.cc\<close>, \<^verbatim>\<open>mem/HTM.py\<close>): failure causes and their ISA-visible
    values, policy strings and configuration checks, and the queue of commit token requests with its
    contract (locale \<open>commit_token\<close>): the token is served first come first served.

  \<^item> \<open>Ruby_Address\<close>, \<open>Ruby_Data\<close> (\<^verbatim>\<open>mem/ruby/common\<close>, \<^verbatim>\<open>base/bitfield.hh\<close>): line addresses, byte
    masks and data blocks. Masks refine sets of offsets; a masked copy makes blocks agree on the mask
    and nowhere else.

  \<^item> \<open>Isolation\<close> (\<^verbatim>\<open>TransactionIsolationManager.cc\<close>): the perfect filters refine the sets of lines added
    since the last clear, and the conflict test between committers is exact.

  \<^item> \<open>Lazy_Version\<close> (\<^verbatim>\<open>LazyTransactionVersionManager.cc\<close>): the write buffer. Loads see the transaction's
    own stores, the flush writes exactly the buffered bytes with a bounded number of requests
    outstanding, and it finishes in whatever order the requests complete.

  \<^item> \<open>Eager_Version\<close> (\<^verbatim>\<open>EagerTransactionVersionManager.cc\<close>, \<^verbatim>\<open>buildLogPackets\<close> of the sequencer, the
    runtime's \<^verbatim>\<open>logtm.h\<close>): the layout of the undo log, its translation, and that unrolling it backwards
    restores memory.

  \<^item> \<open>Checkers\<close> (\<^verbatim>\<open>XactIsolationChecker.cc\<close>, \<^verbatim>\<open>XactValueChecker.cc\<close>): the isolation checker accepts only
    accesses that keep running transactions isolated, the value checker accepts exactly the last
    visible bytes.

  \<^item> \<open>Xact_State\<close>, \<open>Abort_Signal\<close> (\<^verbatim>\<open>TransactionInterfaceManager.cc\<close>): the state of a manager, its
    status queries, \<^verbatim>\<open>setAbortFlag\<close>, replacement of transactional blocks and the response to the
    processor; marking a transaction for abort completes and is reported to the processor.

  \<^item> \<open>Conflict_Manager\<close> (\<^verbatim>\<open>TransactionConflictManager.cc\<close>): the decision on remote loads and stores for
    every policy and the reaction to nacks. A conflicting request is nacked or the local transaction
    is marked for abort (with one policy as the exception that is shown), and a ring of stalled
    transactions is broken.

  \<^item> \<open>Forwarding\<close>, \<open>Forward_Graph\<close> (\<^verbatim>\<open>TransactionInterfaceManager.cc\<close>): producer, consumer and
    validation of forwarded values; validation is exact, and the graph of dependencies of all managers
    with messages in flight stays acyclic.

  \<^item> \<open>Commit_Arbiter\<close> (\<^verbatim>\<open>LazyTransactionCommitArbiter.cc\<close>): all arbiters of a system with the shared token
    queue. Transactions that may write back at the same time are compatible, and the token never gets
    stuck.

  \<^item> \<open>Lifecycle\<close> (\<^verbatim>\<open>TransactionInterfaceManager.cc\<close>): the whole handlers for begin, commit and abort in
    the three kinds of system, with their profiling assertions. They leave the manager ready for the
    next transaction, an abort discards exactly the speculative lines and can always complete.

  \<^item> \<open>Lazy_System\<close>: a system of managers with lazy conflict detection, every step a whole handler. It
    refines the system of arbiters, so lines that are being written back are disjoint from what the
    other committers read or wrote.

  \<^item> \<open>Replacement\<close> (\<^verbatim>\<open>mem/cache/replacement_policies\<close>): ten policies. The locale \<open>victim_choice\<close> is what
    a cache relies on when it offers some of the ways; eight policies are interpreted, the random and
    the tree policy are not, and for the tree policy this is a defect that is shown.

  \<^item> \<open>Cache_Array\<close>, \<open>Cache_Probe\<close> (\<^verbatim>\<open>mem/ruby/structures/CacheMemory.cc\<close>, \<^verbatim>\<open>AbstractCacheEntry.cc\<close>): the
    array of sets and ways with its tag index. Under any policy with the contract every operation keeps
    the array and the index consistent, a set never overflows, the array refines the map from lines to
    blocks that the managers use, and a victim makes room, is not part of the running transaction when
    that can be avoided, and is found unless every way waits for its log entry.

  \<^item> \<open>Request_Table\<close>, \<open>Tx_Sequencer\<close>, \<open>Tx_Commands\<close> (\<^verbatim>\<open>Sequencer.cc\<close>, \<^verbatim>\<open>TransactionalSequencer.cc\<close>,
    \<^verbatim>\<open>packet.cc\<close>): packets, the request table and the admission of requests; the log path and the
    callbacks that answer requests; the transactional commands, the events and the whole handlers
    \<open>makeRequest\<close>, \<open>writeCallback\<close>, \<open>readCallback\<close>, \<open>failedCallback\<close> and \<open>invalidCallback\<close>.

  \<^item> \<open>Seq_Invariants\<close>, \<open>Seq_Typing\<close>, \<open>Seq_Properties\<close>: runs of the sequencer, every step a whole handler.
    The locales \<open>seq_answers\<close>, \<open>seq_handlers\<close> and \<open>seq_stable\<close> carry a predicate of the state through
    the handlers from what it needs of the updates; they are interpreted for the capacity of the table
    and the retry of commits. The locale \<open>cache_contract\<close> is what the table relies on: the cache
    answers a request once. Then the table is well typed and its counter exact, the outstanding
    requests and the entries reserved for the log fit in the table, stores to the log are issued, and
    a pending commit is tried again.

  \<^bold>\<open>Bounds.\<close> The number of processors, lines, ways, requests and log entries is arbitrary. \<open>hitCallback\<close>
  calls itself through the completion of a logged store, so its definition carries a depth; a request
  that completes that way is never a store to the log, so the depth \<open>hit_depth\<close> of 2 is enough
  (\<open>hit_depth_enough\<close>: on a well-typed table every positive depth gives the same result). Witnesses use
  one or two processors, 64-byte lines and caches of two ways.

  \<^bold>\<open>Not modelled.\<close> The coherence protocol (SLICC state machines, compiled to generated C++) appears only
  as the caller of the operations. The registration and printing of statistics, \<^verbatim>\<open>DPRINTF\<close>, the
  annotated-region profiler, checkpointing and the banked arrays have no effect on transactional state.
  Of the sequencer, latencies, the deadlock timer, functional writes, stores with a byte mask and the
  interface of the load-linked monitor to the processor are left out; a port that has to wait retries
  with a later request. The requests by which a version manager flushes its write buffer are steps of
  their own in a run of the sequencer, and inside the handler that starts the flush only their outcome
  appears (\<open>env_issue\<close>). The signature-based and set-dueling replacement policies need information
  that Ruby caches do not pass. Processor models, instruction sets, the GPU model and the bundled
  memory simulators are the infrastructure around this code.
\<close>

end
